(* ===== verification/Prelude.thy ===== *)
theory Prelude
  imports Complex_Main "HOL-Library.AList" "HOL-Library.Multiset"
begin

text \<open>
  What every theory of the development shares: the names of the value types that cross component
  boundaries, the collection that carries the automation of the queries, and generic facts on
  association lists and lists. Nothing here is specific to the ride-matching engine.
\<close>

named_theorems repo_defs \<open>definitions of the repository queries\<close>

text \<open>
  UUIDs are their canonical text (\<open>str(uuid)\<close>), so that the f-strings the code builds from them are
  string concatenation. Python floats and decimals are real numbers: rounding is not modelled.
\<close>

type_synonym uuid = string
type_synonym tid = nat

section \<open>Association lists as lookup tables\<close>

lemma map_of_update [simp]: "map_of (AList.update k v xs) k' = (if k' = k then Some v else map_of xs k')"
  by (simp add: update_conv')

lemma map_of_merge [simp]: "map_of (AList.merge xs ys) k = (map_of xs ++ map_of ys) k"
  by (simp add: merge_conv')

lemma set_update_subset: "set (AList.update k v xs) \<subseteq> insert (k, v) (set xs)"
  by (induction xs) auto

end
