(* ===== verification/Models.thy ===== *)
theory Models
  imports Prelude
begin

text \<open>
  The rows of the three tables (app/models/driver.py, rider.py, ride.py) and the two status enums,
  with the ride life cycle that the three status writers follow and the two uniqueness keys that the
  \<open>rides\<close> table declares. Field names carry a prefix where Python classes share one
  (\<open>d_\<close> driver, \<open>p_\<close> rider, \<open>r_\<close> ride). \<open>datetime\<close> values are seconds.
\<close>

section \<open>Status enums\<close>

datatype driver_status = AVAILABLE | BUSY | OFFLINE

datatype ride_status = REQUESTED | MATCHED | IN_PROGRESS | COMPLETED | CANCELLED

fun driver_status_value :: "driver_status \<Rightarrow> string" where
  "driver_status_value AVAILABLE = ''available''"
| "driver_status_value BUSY = ''busy''"
| "driver_status_value OFFLINE = ''offline''"

fun ride_status_value :: "ride_status \<Rightarrow> string" where
  "ride_status_value REQUESTED = ''requested''"
| "ride_status_value MATCHED = ''matched''"
| "ride_status_value IN_PROGRESS = ''in_progress''"
| "ride_status_value COMPLETED = ''completed''"
| "ride_status_value CANCELLED = ''cancelled''"

lemma ride_status_value_inject [simp]: "ride_status_value a = ride_status_value b \<longleftrightarrow> a = b"
  by (cases a; cases b) simp_all

text \<open>The declaration order of the enum is the order of a ride's life.\<close>

fun stage :: "ride_status \<Rightarrow> nat" where
  "stage REQUESTED = 0"
| "stage MATCHED = 1"
| "stage IN_PROGRESS = 2"
| "stage COMPLETED = 3"
| "stage CANCELLED = 4"

lemma stage_inject [simp]: "stage a = stage b \<longleftrightarrow> a = b"
  by (cases a; cases b) simp_all

instantiation ride_status :: linorder
begin

definition less_eq_ride_status :: "ride_status \<Rightarrow> ride_status \<Rightarrow> bool" where
  "less_eq_ride_status a b \<longleftrightarrow> stage a \<le> stage b"

definition less_ride_status :: "ride_status \<Rightarrow> ride_status \<Rightarrow> bool" where
  "less_ride_status a b \<longleftrightarrow> stage a < stage b"

instance
  by standard (auto simp: less_eq_ride_status_def less_ride_status_def dest: antisym)

end

section \<open>Rows\<close>

record driver =
  d_id :: uuid
  current_lat :: real
  current_lng :: real
  d_h3_index :: string
  d_zone_id :: string
  d_status :: driver_status
  last_updated_at :: real

record rider =
  p_id :: uuid
  p_pickup_lat :: real
  p_pickup_lng :: real
  requested_at :: real

record ride =
  r_id :: uuid
  r_rider_id :: uuid
  r_driver_id :: "uuid option"
  r_status :: ride_status
  pickup_lat :: real
  pickup_lng :: real
  matched_at :: "real option"
  fare :: "real option"
  surge_multiplier :: "real option"
  r_zone_id :: "string option"
  idempotency_key :: "string option"
  created_at :: real
  updated_at :: real

section \<open>Status sets\<close>

definition ACTIVE_RIDE_STATUSES :: "ride_status list" where
  "ACTIVE_RIDE_STATUSES = [REQUESTED, MATCHED, IN_PROGRESS]"

definition COMPLETABLE_STATUSES :: "ride_status list" where
  "COMPLETABLE_STATUSES = [MATCHED, IN_PROGRESS]"

definition is_active :: "ride \<Rightarrow> bool" where
  "is_active r \<longleftrightarrow> r_status r \<in> set ACTIVE_RIDE_STATUSES"

lemma is_active_iff:
  "is_active r \<longleftrightarrow> r_status r = REQUESTED \<or> r_status r = MATCHED \<or> r_status r = IN_PROGRESS"
  by (simp add: is_active_def ACTIVE_RIDE_STATUSES_def)

section \<open>The life cycle\<close>

text \<open>
  The status writers of the application: the matcher takes REQUESTED to MATCHED, cancelling is legal
  from every active status, completing from the statuses that have a driver.
\<close>

inductive lifecycle :: "ride_status \<Rightarrow> ride_status \<Rightarrow> bool" where
  match: "lifecycle REQUESTED MATCHED"
| cancel: "st \<in> set ACTIVE_RIDE_STATUSES \<Longrightarrow> lifecycle st CANCELLED"
| complete: "st \<in> set COMPLETABLE_STATUSES \<Longrightarrow> lifecycle st COMPLETED"

inductive_cases lifecycle_to_matchedE: "lifecycle st MATCHED"
inductive_cases lifecycle_from_completedE: "lifecycle COMPLETED st"
inductive_cases lifecycle_from_cancelledE: "lifecycle CANCELLED st"
inductive_simps lifecycle_iff: "lifecycle a b"

lemma lifecycle_less: "lifecycle a b \<Longrightarrow> a < b"
  by (cases rule: lifecycle.cases)
    (auto simp: less_ride_status_def ACTIVE_RIDE_STATUSES_def COMPLETABLE_STATUSES_def)

lemma lifecycle_terminal:
  "\<not> lifecycle COMPLETED st" "\<not> lifecycle CANCELLED st"
  by (auto elim: lifecycle.cases simp: ACTIVE_RIDE_STATUSES_def COMPLETABLE_STATUSES_def)

section \<open>Uniqueness keys of the rides table\<close>

text \<open>
  \<open>ux_rides_one_active_ride_per_driver\<close>: a partial unique index, with the predicate written in SQL
  over the enum's values. A row outside the predicate has no key.
\<close>

definition active_driver_key :: "ride \<Rightarrow> uuid option" where
  "active_driver_key r =
     (if r_driver_id r \<noteq> None
         \<and> ride_status_value (r_status r) \<in> {''requested'', ''matched'', ''in_progress''}
      then r_driver_id r else None)"

text \<open>The predicate of the index and the constant the queries use name the same statuses.\<close>

lemma active_driver_key_iff:
  "active_driver_key r = Some x \<longleftrightarrow> is_active r \<and> r_driver_id r = Some x"
  by (cases "r_status r") (auto simp: active_driver_key_def is_active_iff)

text \<open>\<open>uq_rides_idempotency_key\<close>: a plain unique constraint; NULLs do not conflict.\<close>

definition uq_idempotency_key :: "ride \<Rightarrow> string option" where
  "uq_idempotency_key r = idempotency_key r"

lemma uq_idempotency_key_iff: "uq_idempotency_key r = Some k \<longleftrightarrow> idempotency_key r = Some k"
  by (simp add: uq_idempotency_key_def)

end
