(* ===== verification/Errors.thy ===== *)
theory Errors
  imports Models
begin

text \<open>
  The exceptions that cross component boundaries, as one datatype: the domain errors of
  app/models/ride.py, app/matching/matcher.py, app/redis/lock.py and app/services/ride_service.py
  with the values their messages interpolate, and the library exceptions the code raises, catches or
  lets through.
\<close>

datatype exn =
    RideNotFoundError uuid
  | InvalidRideStateError string
  | NoAvailableDriverError uuid
  | LockingUnavailableError uuid
  | IdempotencyKeyConflictError string uuid
  | ValueError string
  | HTTPException int "(string \<times> string) option" string
  | RequestValidationError string
  | IntegrityError
  | OtherSQLAlchemyError
  | RedisConnectionError
  | RedisTimeoutError
  | OtherRedisError

text \<open>\<open>IntegrityError\<close> is a subclass of \<open>SQLAlchemyError\<close>.\<close>

fun is_sqlalchemy_error :: "exn \<Rightarrow> bool" where
  "is_sqlalchemy_error IntegrityError = True"
| "is_sqlalchemy_error OtherSQLAlchemyError = True"
| "is_sqlalchemy_error _ = False"

fun is_redis_error :: "exn \<Rightarrow> bool" where
  "is_redis_error RedisConnectionError = True"
| "is_redis_error RedisTimeoutError = True"
| "is_redis_error OtherRedisError = True"
| "is_redis_error _ = False"

end
