(* ===== verification/Windows.thy ===== *)
theory Windows
  imports Prelude
begin

text \<open>
  The bounded rolling window, \<open>collections.deque(maxlen=n)\<close>, that both latency trackers keep, and
  the interface they offer on it: whatever is pushed, the view is the last \<open>cap\<close> entries of
  everything pushed so far.
\<close>

definition deque_append :: "nat \<Rightarrow> 'a list \<Rightarrow> 'a \<Rightarrow> 'a list" where
  "deque_append maxlen xs x = (let ys = xs @ [x] in drop (length ys - maxlen) ys)"

definition last_n :: "nat \<Rightarrow> 'a list \<Rightarrow> 'a list" where
  "last_n n xs = drop (length xs - n) xs"

lemma length_last_n [simp]: "length (last_n n xs) = min n (length xs)"
  by (auto simp: last_n_def)

lemma set_last_n: "set (last_n n xs) \<subseteq> set xs"
  by (simp add: last_n_def set_drop_subset)

lemma deque_append_last_n: "deque_append n (last_n n xs) x = last_n n (xs @ [x])"
  by (cases "length xs \<le> n"; cases n)
    (auto simp: deque_append_def last_n_def Suc_diff_Suc not_le simp flip: Suc_diff_le)

locale bounded_window =
  fixes push :: "'a \<Rightarrow> 's \<Rightarrow> 's"
    and view :: "'s \<Rightarrow> 'a list"
    and cap :: "'s \<Rightarrow> nat"
  assumes view_push: "view (push x s) = deque_append (cap s) (view s) x"
    and cap_push: "cap (push x s) = cap s"
begin

lemma cap_pushes: "cap (fold push xs s) = cap s"
  by (induction xs arbitrary: s) (simp_all add: cap_push)

lemma view_pushes_from:
  "view s = last_n (cap s) ys \<Longrightarrow> view (fold push xs s) = last_n (cap s) (ys @ xs)"
proof (induction xs arbitrary: s ys)
  case Nil
  then show ?case by simp
next
  case (Cons x xs)
  have "view (push x s) = last_n (cap (push x s)) (ys @ [x])"
    using Cons.prems by (simp add: view_push cap_push deque_append_last_n)
  from Cons.IH [OF this] show ?case by (simp add: cap_push)
qed

lemma view_pushes: "view s = [] \<Longrightarrow> view (fold push xs s) = last_n (cap s) xs"
  using view_pushes_from [of s "[]" xs] by (simp add: last_n_def)

end

end
