(* ===== verification/Percentiles.thy ===== *)
theory Percentiles
  imports Prelude
begin

text \<open>
  The shared percentile helper (app/observability/percentiles.py), with the part of
  \<open>statistics.quantiles(..., method="inclusive")\<close> of the standard library that it uses: the \<open>n - 1\<close>
  cut points of the data, each the interpolation between two neighbouring data points.
\<close>

definition quantile_at :: "real list \<Rightarrow> nat \<Rightarrow> nat \<Rightarrow> real" where
  "quantile_at xs n i =
     (let m = length xs - 1; j = i * m div n; delta = i * m mod n
      in (xs ! j * real (n - delta) + xs ! (j + 1) * real delta) / real n)"

definition quantiles :: "real list \<Rightarrow> nat \<Rightarrow> real list" where
  "quantiles data n = (let xs = sort data in map (quantile_at xs n) [1..<n])"

text \<open>\<open>int(pct)\<close> cuts towards zero.\<close>

definition py_int :: "real \<Rightarrow> int" where
  "py_int x = (if 0 \<le> x then \<lfloor>x\<rfloor> else \<lceil>x\<rceil>)"

definition percentile :: "real list \<Rightarrow> real \<Rightarrow> real" where
  "percentile sorted_values pct =
     (case sorted_values of
        [] \<Rightarrow> 0
      | [x] \<Rightarrow> x
      | _ \<Rightarrow>
         let q = quantiles sorted_values 100;
             index = min (max (py_int pct - 1) 0) (int (length q) - 1)
         in q ! nat index)"

section \<open>Cut points lie between the data points they interpolate\<close>

lemma quantile_at_le:
  assumes "0 < n" and "xs ! (i * (length xs - 1) div n) \<le> b"
    and "xs ! (i * (length xs - 1) div n + 1) \<le> b"
  shows "quantile_at xs n i \<le> b"
proof -
  define d where "d = i * (length xs - 1) mod n"
  have d: "d \<le> n" using assms(1) by (simp add: d_def less_imp_le)
  have "xs ! (i * (length xs - 1) div n) * real (n - d)
        + xs ! (i * (length xs - 1) div n + 1) * real d
      \<le> b * real (n - d) + b * real d"
    using assms(2,3) by (intro add_mono mult_right_mono) auto
  also have "\<dots> = b * real n" using d by (simp add: of_nat_diff algebra_simps)
  finally show ?thesis using assms(1)
    by (simp add: quantile_at_def Let_def d_def divide_le_eq)
qed

lemma le_quantile_at:
  assumes "0 < n" and "b \<le> xs ! (i * (length xs - 1) div n)"
    and "b \<le> xs ! (i * (length xs - 1) div n + 1)"
  shows "b \<le> quantile_at xs n i"
proof -
  define d where "d = i * (length xs - 1) mod n"
  have d: "d \<le> n" using assms(1) by (simp add: d_def less_imp_le)
  have "b * real n = b * real (n - d) + b * real d"
    using d by (simp add: of_nat_diff algebra_simps)
  also have "\<dots> \<le> xs ! (i * (length xs - 1) div n) * real (n - d)
        + xs ! (i * (length xs - 1) div n + 1) * real d"
    using assms(2,3) by (intro add_mono mult_right_mono) auto
  finally show ?thesis using assms(1)
    by (simp add: quantile_at_def Let_def d_def le_divide_eq)
qed

text \<open>The interpolation never reads past the last data point.\<close>

lemma quantile_index:
  assumes "i < n" and "2 \<le> length xs"
  shows "i * (length xs - 1) div n + 1 < length xs"
proof -
  have "i * (length xs - 1) < n * (length xs - 1)" using assms by simp
  then have "i * (length xs - 1) div n < length xs - 1"
    by (simp add: less_mult_imp_div_less mult.commute)
  then show ?thesis by simp
qed

lemma quantile_at_bounds:
  assumes "sorted xs" and "2 \<le> length xs" and "i < n"
  shows "hd xs \<le> quantile_at xs n i" and "quantile_at xs n i \<le> last xs"
proof -
  let ?j = "i * (length xs - 1) div n"
  have j: "?j + 1 < length xs" by (rule quantile_index) (use assms in auto)
  have ne: "xs \<noteq> []" using assms(2) by auto
  have hd: "hd xs = xs ! 0" and last: "last xs = xs ! (length xs - 1)"
    using ne by (simp_all add: hd_conv_nth last_conv_nth)
  show "hd xs \<le> quantile_at xs n i"
    unfolding hd using assms j by (intro le_quantile_at sorted_nth_mono) auto
  show "quantile_at xs n i \<le> last xs"
    unfolding last using assms j by (intro quantile_at_le sorted_nth_mono) auto
qed

lemma quantile_at_mono:
  assumes "sorted xs" and "2 \<le> length xs" and "i \<le> k" and "k < n"
  shows "quantile_at xs n i \<le> quantile_at xs n k"
proof (cases "i * (length xs - 1) div n = k * (length xs - 1) div n")
  case True
  define j where "j = k * (length xs - 1) div n"
  define di where "di = i * (length xs - 1) mod n"
  define dk where "dk = k * (length xs - 1) mod n"
  have le: "i * (length xs - 1) \<le> k * (length xs - 1)" using assms(3) by simp
  have "di \<le> dk"
  proof -
    have "j * n + di = i * (length xs - 1)"
      unfolding j_def di_def True [symmetric] by (rule div_mult_mod_eq)
    moreover have "j * n + dk = k * (length xs - 1)"
      unfolding j_def dk_def by (rule div_mult_mod_eq)
    ultimately show ?thesis using le by linarith
  qed
  moreover have "dk \<le> n" using assms(4) by (simp add: dk_def less_imp_le)
  moreover have step: "xs ! j \<le> xs ! (j + 1)"
    using assms quantile_index [of k n xs] by (intro sorted_nth_mono) (auto simp: j_def)
  ultimately have "xs ! j * real (n - di) + xs ! (j + 1) * real di
      \<le> xs ! j * real (n - dk) + xs ! (j + 1) * real dk"
  proof -
    have "0 \<le> (xs ! (j + 1) - xs ! j) * (real dk - real di)"
      using step \<open>di \<le> dk\<close> by (intro mult_nonneg_nonneg) auto
    then show ?thesis using \<open>di \<le> dk\<close> \<open>dk \<le> n\<close>
      by (simp add: of_nat_diff algebra_simps)
  qed
  then show ?thesis using assms(4) True
    by (simp add: quantile_at_def Let_def j_def di_def dk_def divide_right_mono)
next
  case False
  let ?ji = "i * (length xs - 1) div n" and ?jk = "k * (length xs - 1) div n"
  have "?ji \<le> ?jk" using assms(3) by (intro div_le_mono) simp
  with False have lt: "?ji + 1 \<le> ?jk" by simp
  have jk: "?jk + 1 < length xs" by (rule quantile_index) (use assms in auto)
  have "quantile_at xs n i \<le> xs ! ?jk"
    using assms lt jk by (intro quantile_at_le sorted_nth_mono) auto
  also have "\<dots> \<le> quantile_at xs n k"
    using assms jk by (intro le_quantile_at sorted_nth_mono) auto
  finally show ?thesis .
qed

section \<open>The helper\<close>

lemma length_quantiles [simp]: "length (quantiles xs n) = n - 1"
  by (simp add: quantiles_def Let_def)

lemma percentile_Nil [simp]: "percentile [] pct = 0"
  by (simp add: percentile_def)

lemma percentile_single [simp]: "percentile [x] pct = x"
  by (simp add: percentile_def)

definition cut_index :: "real \<Rightarrow> nat" where
  "cut_index pct = nat (min (max (py_int pct - 1) 0) 98)"

lemma cut_index_less: "cut_index pct < 99"
  by (simp add: cut_index_def)

lemma py_int_mono: "p \<le> q \<Longrightarrow> py_int p \<le> py_int q"
proof -
  assume le: "p \<le> q"
  have "\<lceil>p\<rceil> \<le> 0" if "p < 0" using that by (simp add: ceiling_le_iff)
  moreover have "0 \<le> \<lfloor>q\<rfloor>" if "0 \<le> q" using that by simp
  ultimately show ?thesis
    using le floor_mono [OF le] ceiling_mono [OF le] order_trans [of "\<lceil>p\<rceil>" 0 "\<lfloor>q\<rfloor>"]
    by (auto simp: py_int_def not_le)
qed

lemma cut_index_mono: "p \<le> q \<Longrightarrow> cut_index p \<le> cut_index q"
  using py_int_mono [of p q] by (simp add: cut_index_def)

lemma percentile_many:
  assumes "2 \<le> length xs" and "sorted xs"
  shows "percentile xs pct = quantile_at xs 100 (Suc (cut_index pct))"
proof -
  obtain x y zs where xs: "xs = x # y # zs"
    using assms(1) by (cases xs; cases "tl xs") auto
  have "percentile xs pct = quantiles xs 100 ! cut_index pct"
    by (simp add: percentile_def xs cut_index_def Let_def)
  also have "\<dots> = quantile_at xs 100 (Suc (cut_index pct))"
    using assms(2) cut_index_less [of pct]
    by (simp add: quantiles_def Let_def sorted_sort_id)
  finally show ?thesis .
qed

lemma percentile_between:
  assumes "sorted xs" and "xs \<noteq> []"
  shows "hd xs \<le> percentile xs pct" and "percentile xs pct \<le> last xs"
proof -
  consider x where "xs = [x]" | "2 \<le> length xs"
    using assms(2) by (cases xs; cases "tl xs") auto
  then have "hd xs \<le> percentile xs pct \<and> percentile xs pct \<le> last xs"
  proof cases
    case 2
    then show ?thesis
      using assms quantile_at_bounds [of xs "Suc (cut_index pct)" 100] cut_index_less [of pct]
      by (simp add: percentile_many)
  qed simp
  then show "hd xs \<le> percentile xs pct" "percentile xs pct \<le> last xs" by simp_all
qed

lemma percentile_monotone:
  assumes "sorted xs" and "p \<le> q"
  shows "percentile xs p \<le> percentile xs q"
proof -
  consider "xs = []" | x where "xs = [x]" | "2 \<le> length xs"
    by (cases xs; cases "tl xs") auto
  then show ?thesis
  proof cases
    case 3
    then show ?thesis
      using assms cut_index_mono [OF assms(2)] cut_index_less [of q]
      by (simp add: percentile_many quantile_at_mono)
  qed simp_all
qed

end
