(* ===== verification/Metrics.thy ===== *)
theory Metrics
  imports Windows Percentiles
begin

text \<open>
  In-process match metrics (app/observability/metrics.py) and per-statement database latency
  (app/observability/db_metrics.py). Every operation of the two classes runs under the object's lock,
  so each is one state change here; \<open>now_fn\<close> is an argument. Both trackers are instances of the
  bounded window of theory Windows.
\<close>

section \<open>MetricsTracker\<close>

datatype outcome = OMatched | OUnmatched | OError

record match_attempt =
  outcome :: outcome
  latency_seconds :: real
  attempted_at :: real

record metrics_tracker =
  window_size :: nat
  recent :: "match_attempt list"
  failed_matches_total :: nat
  lock_contention_total :: nat

record metrics_snapshot =
  failed_matches :: nat
  lock_contention_count :: nat
  match_throughput_per_minute :: nat
  p50_latency_ms :: real
  p95_latency_ms :: real
  p99_latency_ms :: real

definition THROUGHPUT_WINDOW_SECONDS :: real where
  "THROUGHPUT_WINDOW_SECONDS = 60"

definition init_tracker :: "nat \<Rightarrow> metrics_tracker" where
  "init_tracker n = \<lparr>window_size = n, recent = [], failed_matches_total = 0,
     lock_contention_total = 0\<rparr>"

definition push_attempt :: "match_attempt \<Rightarrow> metrics_tracker \<Rightarrow> metrics_tracker" where
  "push_attempt a t =
     (let t = t\<lparr>recent := deque_append (window_size t) (recent t) a\<rparr>
      in if outcome a = OUnmatched
         then t\<lparr>failed_matches_total := failed_matches_total t + 1\<rparr> else t)"

definition record_match :: "real \<Rightarrow> outcome \<Rightarrow> real \<Rightarrow> metrics_tracker \<Rightarrow> metrics_tracker" where
  "record_match now oc latency = push_attempt \<lparr>outcome = oc, latency_seconds = latency, attempted_at = now\<rparr>"

definition record_lock_contention :: "metrics_tracker \<Rightarrow> metrics_tracker" where
  "record_lock_contention t = t\<lparr>lock_contention_total := lock_contention_total t + 1\<rparr>"

definition latencies_ms :: "match_attempt list \<Rightarrow> real list" where
  "latencies_ms rs = sort (map (\<lambda>a. latency_seconds a * 1000) rs)"

definition snapshot :: "real \<Rightarrow> metrics_tracker \<Rightarrow> metrics_snapshot" where
  "snapshot now t =
     (let rs = recent t; ms = latencies_ms rs
      in \<lparr>failed_matches = failed_matches_total t,
          lock_contention_count = lock_contention_total t,
          match_throughput_per_minute =
            length (filter (\<lambda>a. outcome a = OMatched \<and> now - attempted_at a \<le> THROUGHPUT_WINDOW_SECONDS) rs),
          p50_latency_ms = percentile ms 50,
          p95_latency_ms = percentile ms 95,
          p99_latency_ms = percentile ms 99\<rparr>)"

section \<open>DbLatencyTracker\<close>

record db_latency_tracker =
  db_window_size :: nat
  recent_ms :: "real list"

definition init_db_tracker :: "nat \<Rightarrow> db_latency_tracker" where
  "init_db_tracker n = \<lparr>db_window_size = n, recent_ms = []\<rparr>"

definition record_duration :: "real \<Rightarrow> db_latency_tracker \<Rightarrow> db_latency_tracker" where
  "record_duration secs t =
     t\<lparr>recent_ms := deque_append (db_window_size t) (recent_ms t) (secs * 1000)\<rparr>"

definition db_percentiles :: "db_latency_tracker \<Rightarrow> real \<times> real \<times> real" where
  "db_percentiles t =
     (let ms = sort (recent_ms t) in (percentile ms 50, percentile ms 95, percentile ms 99))"

text \<open>
  The engine listeners keep a stack of start times per connection, so that nested statements on one
  connection are timed correctly: the start pushed last is the one the next end pops.
\<close>

datatype cursor_event = BeforeExecute real | AfterExecute real

fun cursor_step :: "cursor_event \<Rightarrow> real list \<times> db_latency_tracker \<Rightarrow> (real list \<times> db_latency_tracker) option" where
  "cursor_step (BeforeExecute now) (starts, t) = Some (now # starts, t)"
| "cursor_step (AfterExecute now) ([], t) = None"
| "cursor_step (AfterExecute now) (s # starts, t) = Some (starts, record_duration (now - s) t)"

fun cursor_run :: "cursor_event list \<Rightarrow> real list \<times> db_latency_tracker \<Rightarrow> (real list \<times> db_latency_tracker) option" where
  "cursor_run [] st = Some st"
| "cursor_run (e # es) st = (case cursor_step e st of None \<Rightarrow> None | Some st' \<Rightarrow> cursor_run es st')"

section \<open>Both trackers are bounded windows\<close>

interpretation match_window: bounded_window push_attempt recent window_size
  by unfold_locales (simp_all add: push_attempt_def Let_def)

interpretation db_window: bounded_window "\<lambda>ms t. t\<lparr>recent_ms := deque_append (db_window_size t) (recent_ms t) ms\<rparr>"
    recent_ms db_window_size
  by unfold_locales simp_all

section \<open>The tracker against the full history\<close>

datatype metric_event = Attempt match_attempt | Contention

fun apply_metric :: "metric_event \<Rightarrow> metrics_tracker \<Rightarrow> metrics_tracker" where
  "apply_metric (Attempt a) = push_attempt a"
| "apply_metric Contention = record_lock_contention"

fun attempts :: "metric_event list \<Rightarrow> match_attempt list" where
  "attempts [] = []"
| "attempts (Attempt a # es) = a # attempts es"
| "attempts (Contention # es) = attempts es"

lemma push_attempt_fields [simp]:
  "window_size (push_attempt a t) = window_size t"
  "recent (push_attempt a t) = deque_append (window_size t) (recent t) a"
  "lock_contention_total (push_attempt a t) = lock_contention_total t"
  "failed_matches_total (push_attempt a t) =
     failed_matches_total t + (if outcome a = OUnmatched then 1 else 0)"
  by (simp_all add: push_attempt_def Let_def)

lemma record_lock_contention_fields [simp]:
  "window_size (record_lock_contention t) = window_size t"
  "recent (record_lock_contention t) = recent t"
  "failed_matches_total (record_lock_contention t) = failed_matches_total t"
  "lock_contention_total (record_lock_contention t) = lock_contention_total t + 1"
  by (simp_all add: record_lock_contention_def)

lemma apply_metrics_window [simp]: "window_size (fold apply_metric es t) = window_size t"
proof (induction es arbitrary: t)
  case (Cons e es)
  then show ?case by (cases e) simp_all
qed simp

lemma apply_metrics_counters:
  "failed_matches_total (fold apply_metric es t) =
     failed_matches_total t + length (filter (\<lambda>a. outcome a = OUnmatched) (attempts es))"
  "lock_contention_total (fold apply_metric es t) =
     lock_contention_total t + length (filter (\<lambda>e. e = Contention) es)"
proof (induction es arbitrary: t)
  case (Cons e es)
  { case 1 show ?case using Cons.IH(1) by (cases e) simp_all }
  { case 2 show ?case using Cons.IH(2) by (cases e) simp_all }
qed simp_all

lemma apply_metrics_recent_only:
  "recent (fold apply_metric es t) = recent (fold push_attempt (attempts es) t)"
proof (induction es arbitrary: t rule: rev_induct)
  case (snoc e es)
  have attempts_snoc: "attempts (es @ fs) = attempts es @ attempts fs" for fs
    by (induction es rule: attempts.induct) simp_all
  show ?case using snoc
    by (cases e) (simp_all add: attempts_snoc match_window.cap_pushes)
qed simp

text \<open>C29: the tracker refines the full history of its calls: its window is the last
  \<open>window_size\<close> attempts, and its two counters are lifetime counts over all of them, whatever the
  window has dropped.\<close>

theorem tracker_refines_history:
  "let t = fold apply_metric es (init_tracker n)
   in recent t = last_n n (attempts es)
    \<and> failed_matches_total t = length (filter (\<lambda>a. outcome a = OUnmatched) (attempts es))
    \<and> lock_contention_total t = length (filter (\<lambda>e. e = Contention) es)"
proof -
  have "recent (fold apply_metric es (init_tracker n)) = last_n n (attempts es)"
    unfolding apply_metrics_recent_only
    using match_window.view_pushes [of "init_tracker n" "attempts es"] by (simp add: init_tracker_def)
  then show ?thesis by (simp add: Let_def apply_metrics_counters) (simp add: init_tracker_def)
qed

section \<open>What a snapshot reports\<close>

lemma snapshot_fields:
  "p50_latency_ms (snapshot now t) = percentile (latencies_ms (recent t)) 50"
  "p95_latency_ms (snapshot now t) = percentile (latencies_ms (recent t)) 95"
  "p99_latency_ms (snapshot now t) = percentile (latencies_ms (recent t)) 99"
  "match_throughput_per_minute (snapshot now t) =
     length (filter (\<lambda>a. outcome a = OMatched \<and> now - attempted_at a \<le> 60) (recent t))"
  "failed_matches (snapshot now t) = failed_matches_total t"
  "lock_contention_count (snapshot now t) = lock_contention_total t"
  by (simp_all add: snapshot_def Let_def THROUGHPUT_WINDOW_SECONDS_def)

lemma history_recent: "recent (fold apply_metric es (init_tracker n)) = last_n n (attempts es)"
  using match_window.view_pushes [of "init_tracker n" "attempts es"]
  by (simp add: apply_metrics_recent_only init_tracker_def)


text \<open>The throughput is not the exact number of matches of the last 60 seconds once more of them
  happened than the window holds: if every attempt so far matched within the last 60 seconds, the
  figure saturates at the window size.\<close>

theorem throughput_saturates:
  assumes "\<forall>a \<in> set (attempts es). outcome a = OMatched \<and> now - attempted_at a \<le> 60"
  shows "match_throughput_per_minute (snapshot now (fold apply_metric es (init_tracker n)))
     = min n (length (attempts es))"
proof -
  have "\<forall>a \<in> set (last_n n (attempts es)). outcome a = OMatched \<and> now - attempted_at a \<le> 60"
    using assms subsetD [OF set_last_n [of n "attempts es"]] by blast
  then have "filter (\<lambda>a. outcome a = OMatched \<and> now - attempted_at a \<le> 60) (last_n n (attempts es))
      = last_n n (attempts es)"
    by (rule filter_True)
  then show ?thesis by (simp only: snapshot_fields history_recent length_last_n)
qed

theorem throughput_saturates_witness:
  "match_throughput_per_minute (snapshot 10 (fold apply_metric
     [Attempt \<lparr>outcome = OMatched, latency_seconds = 1, attempted_at = 1\<rparr>,
      Attempt \<lparr>outcome = OMatched, latency_seconds = 1, attempted_at = 2\<rparr>,
      Attempt \<lparr>outcome = OMatched, latency_seconds = 1, attempted_at = 3\<rparr>] (init_tracker 2))) = 2"
  by (subst throughput_saturates) simp_all

section \<open>Statement timing\<close>

text \<open>
  Statements on one connection: a statement may run others inside it, and a statement that fails
  never reaches the \<open>after_cursor_execute\<close> event.
\<close>

datatype stmt = Stmt real "stmt list" real

datatype conn_item = Done stmt | Failed real

fun stmt_events :: "stmt \<Rightarrow> cursor_event list" where
  "stmt_events (Stmt s inner e) = BeforeExecute s # concat (map stmt_events inner) @ [AfterExecute e]"

fun stmt_durations :: "stmt \<Rightarrow> real list" where
  "stmt_durations (Stmt s inner e) = concat (map stmt_durations inner) @ [e - s]"

fun item_events :: "conn_item \<Rightarrow> cursor_event list" where
  "item_events (Done q) = stmt_events q"
| "item_events (Failed s) = [BeforeExecute s]"

fun item_durations :: "conn_item \<Rightarrow> real list" where
  "item_durations (Done q) = stmt_durations q"
| "item_durations (Failed s) = []"

fun left_starts :: "conn_item list \<Rightarrow> real list" where
  "left_starts [] = []"
| "left_starts (Done q # xs) = left_starts xs"
| "left_starts (Failed s # xs) = left_starts xs @ [s]"

lemma cursor_run_append:
  "cursor_run (es @ fs) st = (case cursor_run es st of None \<Rightarrow> None | Some st' \<Rightarrow> cursor_run fs st')"
  by (induction es arbitrary: st) (simp_all split: option.split)

lemma cursor_run_stmt:
  "cursor_run (stmt_events q) (starts, t) = Some (starts, fold record_duration (stmt_durations q) t)"
proof (induction q arbitrary: starts t)
  case (Stmt s inner e)
  have "cursor_run (concat (map stmt_events inner)) (st, t')
      = Some (st, fold record_duration (concat (map stmt_durations inner)) t')" for st t'
    using Stmt by (induction inner arbitrary: t') (simp_all add: cursor_run_append)
  then show ?case by (simp add: cursor_run_append)
qed

lemma cursor_run_items:
  "cursor_run (concat (map item_events items)) (starts, t) =
     Some (left_starts items @ starts, fold record_duration (concat (map item_durations items)) t)"
proof (induction items arbitrary: starts t)
  case (Cons i items)
  then show ?case by (cases i) (simp_all add: cursor_run_append cursor_run_stmt)
qed simp

lemma recent_ms_durations:
  "recent_ms (fold record_duration ds (init_db_tracker n)) = last_n n (map (\<lambda>d. d * 1000) ds)"
proof -
  have "fold record_duration ds t = fold (\<lambda>ms t. t\<lparr>recent_ms :=
      deque_append (db_window_size t) (recent_ms t) ms\<rparr>) (map (\<lambda>d. d * 1000) ds) t" for t
    by (induction ds arbitrary: t) (simp_all add: record_duration_def)
  then show ?thesis
    using db_window.view_pushes [of "init_db_tracker n" "map (\<lambda>d. d * 1000) ds"]
    by (simp add: init_db_tracker_def)
qed

text \<open>C31: for any sequence of nested statements and failed statements on one connection, the
  listeners record exactly the durations of the completed statements (the last \<open>n\<close> of them), and the
  start times of the failed ones stay on the connection's stack.\<close>

theorem listeners_time_statements:
  "\<exists>t. cursor_run (concat (map item_events items)) ([], init_db_tracker n) = Some (left_starts items, t)
     \<and> recent_ms t = last_n n (map (\<lambda>d. d * 1000) (concat (map item_durations items)))"
  by (simp add: cursor_run_items recent_ms_durations)

end
