(* ===== verification/EventBus.thy ===== *)
theory EventBus
  imports Config "HOL-Library.Sublist"
begin

text \<open>
  The dashboard's event bus (app/observability/events.py) and its WebSocket endpoint
  (app/api/websocket.py). Publishers run on worker threads and only schedule a callback on the event
  loop; the callback puts the event into the bounded queue that was attached when it was published;
  the broadcast task takes events off the current queue and sends each to a snapshot of the
  connections. Each of these is one step here, so that the steps of different coroutines interleave.
\<close>

section \<open>State and operations\<close>

datatype jval = JStr string | JNum real | JInt int | JNull

record event =
  e_type :: string
  e_timestamp :: real
  e_data :: "(string \<times> jval) list"

type_synonym websocket = nat

text \<open>
  \<open>attached\<close> is \<open>_loop\<close> and \<open>_queue\<close>, which are set and cleared together: the generation of the
  current queue, its \<open>maxsize\<close> and its contents. \<open>scheduled\<close> are the callbacks waiting on the loop, each
  with the generation of the queue it captured. \<open>sending\<close> is the event the broadcast task is fanning
  out, with the connections still to serve. \<open>published\<close>, \<open>taken\<close> and \<open>sent\<close> record what happened.
\<close>

record event_bus =
  generation :: nat
  attached :: "(nat \<times> int \<times> event list) option"
  connections :: "websocket list"
  scheduled :: "(nat \<times> event) list"
  sending :: "(event \<times> websocket list) option"
  published :: "event list"
  taken :: "event list"
  sent :: "(websocket \<times> event) list"

definition init_bus :: event_bus where
  "init_bus = \<lparr>generation = 0, attached = None, connections = [], scheduled = [], sending = None,
     published = [], taken = [], sent = []\<rparr>"

definition attach :: "int \<Rightarrow> event_bus \<Rightarrow> event_bus" where
  "attach maxsize b =
     b\<lparr>generation := Suc (generation b), attached := Some (Suc (generation b), maxsize, [])\<rparr>"

definition detach :: "event_bus \<Rightarrow> event_bus" where
  "detach b = b\<lparr>attached := None, connections := []\<rparr>"

definition publish :: "event \<Rightarrow> event_bus \<Rightarrow> event_bus" where
  "publish e b =
     (case attached b of
        None \<Rightarrow> b
      | Some (g, _, _) \<Rightarrow> b\<lparr>scheduled := scheduled b @ [(g, e)], published := published b @ [e]\<rparr>)"

text \<open>\<open>asyncio.Queue\<close>: full when \<open>maxsize > 0\<close> and that many events are waiting.\<close>

definition queue_full :: "int \<Rightarrow> event list \<Rightarrow> bool" where
  "queue_full maxsize q \<longleftrightarrow> 0 < maxsize \<and> maxsize \<le> int (length q)"

text \<open>The loop runs the callback scheduled first: \<open>_put_nowait\<close>, which drops the event on a full
  queue. A queue that is no longer attached still takes the event, and nobody reads it.\<close>

definition put_nowait :: "event_bus \<Rightarrow> event_bus" where
  "put_nowait b =
     (case scheduled b of
        [] \<Rightarrow> b
      | (g, e) # cbs \<Rightarrow>
         (case attached b of
            None \<Rightarrow> b\<lparr>scheduled := cbs\<rparr>
          | Some (g', maxsize, q) \<Rightarrow>
             if g = g' \<and> \<not> queue_full maxsize q
             then b\<lparr>scheduled := cbs, attached := Some (g', maxsize, q @ [e])\<rparr>
             else b\<lparr>scheduled := cbs\<rparr>))"

definition register :: "websocket \<Rightarrow> event_bus \<Rightarrow> event_bus" where
  "register ws b = b\<lparr>connections := List.insert ws (connections b)\<rparr>"

definition unregister :: "websocket \<Rightarrow> event_bus \<Rightarrow> event_bus" where
  "unregister ws b = b\<lparr>connections := removeAll ws (connections b)\<rparr>"

text \<open>One turn of \<open>run_broadcast_loop\<close>: take an event (only between two fan-outs, only when the queue
  holds one), then serve the connections of the snapshot one by one; a send that raises drops the
  connection.\<close>

definition broadcast_get :: "event_bus \<Rightarrow> event_bus option" where
  "broadcast_get b =
     (case (sending b, attached b) of
        (None, Some (g, maxsize, e # q)) \<Rightarrow>
          Some (b\<lparr>attached := Some (g, maxsize, q), sending := Some (e, connections b),
                  taken := taken b @ [e]\<rparr>)
      | _ \<Rightarrow> None)"

definition send_next :: "bool \<Rightarrow> event_bus \<Rightarrow> event_bus option" where
  "send_next ok b =
     (case sending b of
        None \<Rightarrow> None
      | Some (e, []) \<Rightarrow> Some (b\<lparr>sending := None\<rparr>)
      | Some (e, ws # wss) \<Rightarrow>
          Some (if ok then b\<lparr>sending := Some (e, wss), sent := sent b @ [(ws, e)]\<rparr>
                else b\<lparr>sending := Some (e, wss), connections := removeAll ws (connections b)\<rparr>))"

text \<open>\<open>emit\<close> stamps the event and publishes it (its log line is not modelled).\<close>

definition emit :: "real \<Rightarrow> string \<Rightarrow> (string \<times> jval) list \<Rightarrow> event_bus \<Rightarrow> event_bus" where
  "emit now ty data = publish \<lparr>e_type = ty, e_timestamp = now, e_data = data\<rparr>"

text \<open>
  The application's lifespan (app/main.py): starting attaches a fresh queue and starts the broadcast
  task; stopping cancels the task, which abandons the fan-out it was in, and detaches.
\<close>

definition cancel_broadcast :: "event_bus \<Rightarrow> event_bus" where
  "cancel_broadcast b = b\<lparr>sending := None\<rparr>"

definition lifespan_startup :: "settings \<Rightarrow> event_bus \<Rightarrow> event_bus" where
  "lifespan_startup cfg = attach (dashboard_event_queue_size cfg)"

definition lifespan_shutdown :: "event_bus \<Rightarrow> event_bus" where
  "lifespan_shutdown b = detach (cancel_broadcast b)"

text \<open>What a client's connection does to the bus: received texts are ignored.\<close>

datatype websocket_input = Accepted | TextReceived | Disconnected

fun websocket_endpoint :: "websocket \<Rightarrow> websocket_input \<Rightarrow> event_bus \<Rightarrow> event_bus" where
  "websocket_endpoint ws Accepted b = register ws b"
| "websocket_endpoint ws TextReceived b = b"
| "websocket_endpoint ws Disconnected b = unregister ws b"

section \<open>Steps and reachable states\<close>

inductive bus_step :: "event_bus \<Rightarrow> event_bus \<Rightarrow> bool" where
  attach: "bus_step b (attach n b)"
| detach: "bus_step b (detach b)"
| cancel: "bus_step b (cancel_broadcast b)"
| publish: "bus_step b (publish e b)"
| put: "bus_step b (put_nowait b)"
| websocket: "bus_step b (websocket_endpoint ws i b)"
| get: "broadcast_get b = Some b' \<Longrightarrow> bus_step b b'"
| send: "send_next ok b = Some b' \<Longrightarrow> bus_step b b'"

inductive bus_reachable :: "event_bus \<Rightarrow> bool" where
  start: "bus_reachable init_bus"
| step: "bus_reachable b \<Longrightarrow> bus_step b b' \<Longrightarrow> bus_reachable b'"

lemma reachable_register: "bus_reachable b \<Longrightarrow> bus_reachable (register ws b)"
  using bus_reachable.step [OF _ bus_step.websocket, of b ws Accepted] by simp

lemmas bus_ops = attach_def detach_def publish_def put_nowait_def register_def unregister_def
  broadcast_get_def send_next_def cancel_broadcast_def

definition current_queue :: "event_bus \<Rightarrow> event list" where
  "current_queue b = (case attached b of None \<Rightarrow> [] | Some (_, _, q) \<Rightarrow> q)"

definition in_flight :: "event_bus \<Rightarrow> event list" where
  "in_flight b =
     (case attached b of
        None \<Rightarrow> []
      | Some (g, _, _) \<Rightarrow> map snd (filter (\<lambda>p. fst p = g) (scheduled b)))"

text \<open>
  The invariant: the queue respects its bound; generations grow; and what was broadcast, then what
  waits in the current queue, then what is scheduled for it, is a subsequence of what was published.
\<close>

definition bus_inv :: "event_bus \<Rightarrow> bool" where
  "bus_inv b \<longleftrightarrow>
     (case attached b of
        None \<Rightarrow> True
      | Some (g, maxsize, q) \<Rightarrow> g = generation b \<and> (0 < maxsize \<longrightarrow> int (length q) \<le> maxsize))
   \<and> list_all (\<lambda>p. fst p \<le> generation b) (scheduled b)
   \<and> distinct (connections b)
   \<and> subseq (taken b @ current_queue b @ in_flight b) (published b)"

lemma subseq_drop_tail: "subseq (xs @ ys) ps \<Longrightarrow> subseq xs ps"
  by (rule subseq_order.trans [of xs "xs @ ys"]) auto

lemma subseq_drop_one: "subseq (xs @ ys @ z # zs) ps \<Longrightarrow> subseq (xs @ ys @ zs) ps"
  by (rule subseq_order.trans [of _ "xs @ ys @ z # zs"]) (auto simp: subseq_append')

lemma subseq_snoc: "subseq xs ps \<Longrightarrow> subseq (xs @ [e]) (ps @ [e])"
  by (rule list_emb_append_mono) auto

lemma bus_inv_init: "bus_inv init_bus"
  by (simp add: bus_inv_def init_bus_def current_queue_def in_flight_def)

lemma in_flight_new_generation:
  "list_all (\<lambda>p. fst p \<le> n) cbs \<Longrightarrow> filter (\<lambda>p. fst p = Suc n) cbs = []"
  by (induction cbs) auto

lemma attach_inv: "bus_inv b \<Longrightarrow> bus_inv (attach n b)"
  by (auto simp: bus_inv_def attach_def current_queue_def in_flight_def in_flight_new_generation
      intro: list.pred_mono_strong dest: subseq_drop_tail)

lemma detach_inv: "bus_inv b \<Longrightarrow> bus_inv (detach b)"
  by (auto simp: bus_inv_def detach_def current_queue_def in_flight_def dest: subseq_drop_tail)

lemma publish_inv: "bus_inv b \<Longrightarrow> bus_inv (publish e b)"
  using subseq_snoc [of "taken b @ current_queue b @ in_flight b" "published b" e]
  by (auto simp: bus_inv_def publish_def current_queue_def in_flight_def split: option.splits)

lemma put_inv: "bus_inv b \<Longrightarrow> bus_inv (put_nowait b)"
proof (cases "scheduled b")
  case Nil
  then show "bus_inv b \<Longrightarrow> ?thesis" by (simp add: put_nowait_def)
next
  case (Cons p cbs)
  then show "bus_inv b \<Longrightarrow> ?thesis"
    by (cases p; cases "attached b")
      (auto simp: bus_inv_def put_nowait_def current_queue_def in_flight_def queue_full_def
        split: if_splits dest: subseq_drop_one)
qed

lemma register_inv: "bus_inv b \<Longrightarrow> bus_inv (register ws b)"
  by (cases "attached b") (auto simp: bus_inv_def register_def current_queue_def in_flight_def)

lemma unregister_inv: "bus_inv b \<Longrightarrow> bus_inv (unregister ws b)"
  by (cases "attached b")
    (auto simp: bus_inv_def unregister_def current_queue_def in_flight_def distinct_removeAll)

lemma cancel_inv: "bus_inv b \<Longrightarrow> bus_inv (cancel_broadcast b)"
  by (cases "attached b") (auto simp: bus_inv_def cancel_broadcast_def current_queue_def in_flight_def)

lemma websocket_inv: "bus_inv b \<Longrightarrow> bus_inv (websocket_endpoint ws i b)"
  by (cases i) (auto intro: register_inv unregister_inv)

lemma broadcast_get_inv: "broadcast_get b = Some b' \<Longrightarrow> bus_inv b \<Longrightarrow> bus_inv b'"
  by (auto simp: bus_inv_def broadcast_get_def current_queue_def in_flight_def
      split: option.splits list.splits)

lemma send_next_inv: "send_next ok b = Some b' \<Longrightarrow> bus_inv b \<Longrightarrow> bus_inv b'"
  by (cases "attached b")
    (auto simp: bus_inv_def send_next_def current_queue_def in_flight_def distinct_removeAll
      split: option.splits list.splits if_splits)

lemmas bus_inv_steps = attach_inv detach_inv publish_inv put_inv cancel_inv websocket_inv
  broadcast_get_inv send_next_inv

lemma bus_step_inv: "bus_step b b' \<Longrightarrow> bus_inv b \<Longrightarrow> bus_inv b'"
  by (induction rule: bus_step.induct) (rule bus_inv_steps; assumption)+

lemma bus_reachable_inv: "bus_reachable b \<Longrightarrow> bus_inv b"
  by (induction rule: bus_reachable.induct) (auto intro: bus_inv_init bus_step_inv)

section \<open>Properties\<close>

text \<open>C25: in every reachable state, under any interleaving of publishers, callbacks, connections and
  the broadcast task, the queue stays within its bound, and the events broadcast so far are a
  subsequence of the published ones: dropped ones apart, in order and without duplicates.\<close>

theorem bus_bounded_and_in_order:
  assumes "bus_reachable b"
  shows "subseq (taken b) (published b)
    \<and> (\<forall>g maxsize q. attached b = Some (g, maxsize, q) \<longrightarrow> 0 < maxsize \<longrightarrow> int (length q) \<le> maxsize)"
  using bus_reachable_inv [OF assms] subseq_drop_tail [of "taken b"]
  by (auto simp: bus_inv_def)

text \<open>The witness: two events published into a queue of size one; the second is dropped.\<close>

definition bus_example :: event_bus where
  "bus_example =
     (let e1 = \<lparr>e_type = ''A'', e_timestamp = 1, e_data = []\<rparr>;
          e2 = \<lparr>e_type = ''B'', e_timestamp = 2, e_data = []\<rparr>
      in put_nowait (put_nowait (publish e2 (publish e1 (attach 1 init_bus)))))"

lemma bus_example_reachable: "bus_reachable bus_example"
  unfolding bus_example_def Let_def
  by (intro bus_reachable.step [OF _ bus_step.put] bus_reachable.step [OF _ bus_step.publish]
      bus_reachable.step [OF _ bus_step.attach] bus_reachable.start)

lemma bus_example_eval:
  "map e_type (published bus_example) = [''A'', ''B'']"
  "map e_type (current_queue bus_example) = [''A'']"
  by (simp_all add: bus_example_def init_bus_def bus_ops queue_full_def current_queue_def Let_def)

theorem bus_bounded_and_in_order_witness:
  "subseq (taken bus_example) (published bus_example) \<and> published bus_example \<noteq> []"
  using bus_bounded_and_in_order [OF bus_example_reachable] bus_example_eval by auto

text \<open>The fan-out of one event, with the outcome of each send given by \<open>ok\<close>.\<close>

fun fan_out :: "(websocket \<Rightarrow> bool) \<Rightarrow> event \<Rightarrow> websocket list \<Rightarrow> event_bus \<Rightarrow> event_bus option" where
  "fan_out ok e [] b = send_next True b"
| "fan_out ok e (ws # wss) b =
     (case send_next (ok ws) b of None \<Rightarrow> None | Some b' \<Rightarrow> fan_out ok e wss b')"

lemma fan_out_result:
  "sending b = Some (e, wss) \<Longrightarrow>
   \<exists>b'. fan_out ok e wss b = Some b' \<and> sending b' = None
      \<and> sent b' = sent b @ map (\<lambda>ws. (ws, e)) (filter ok wss)
      \<and> set (connections b') = set (connections b) - {ws \<in> set wss. \<not> ok ws}
      \<and> attached b' = attached b"
proof (induction wss arbitrary: b)
  case Nil
  then show ?case by (simp add: send_next_def)
next
  case (Cons ws wss)
  then obtain b1 where b1: "send_next (ok ws) b = Some b1" "sending b1 = Some (e, wss)"
    and eff: "sent b1 = sent b @ (if ok ws then [(ws, e)] else [])"
      "connections b1 = (if ok ws then connections b else removeAll ws (connections b))"
      "attached b1 = attached b"
    by (cases "ok ws") (simp_all add: send_next_def)
  from Cons.IH [OF b1(2)] b1(1) eff show ?case by (cases "ok ws") auto
qed

text \<open>C26: one broken client never stops the broadcast: once the task has taken an event, the fan-out
  over its snapshot of the connections always finishes, every connection whose send succeeds has
  received the event exactly once and in turn, and exactly the failing ones are dropped.\<close>

theorem broken_client_does_not_stop_broadcast:
  assumes "broadcast_get b = Some b1" and "bus_reachable b"
  shows "\<exists>e b'. current_queue b = e # current_queue b'
      \<and> fan_out ok e (connections b) b1 = Some b' \<and> sending b' = None
      \<and> sent b' = sent b @ map (\<lambda>ws. (ws, e)) (filter ok (connections b))
      \<and> set (connections b') = {ws \<in> set (connections b). ok ws}
      \<and> distinct (filter ok (connections b))"
proof -
  have "distinct (connections b)"
    using bus_reachable_inv [OF assms(2)] by (simp add: bus_inv_def)
  moreover obtain e where e: "sending b1 = Some (e, connections b)" "sent b1 = sent b"
      "connections b1 = connections b" "current_queue b = e # current_queue b1"
    using assms(1)
    by (auto simp: broadcast_get_def current_queue_def split: option.splits list.splits)
  moreover obtain b' where "fan_out ok e (connections b) b1 = Some b'" "sending b' = None"
      "sent b' = sent b1 @ map (\<lambda>ws. (ws, e)) (filter ok (connections b))"
      "set (connections b') = set (connections b1) - {ws \<in> set (connections b). \<not> ok ws}"
      "attached b' = attached b1"
    using fan_out_result [OF e(1), of ok] by blast
  ultimately show ?thesis by (auto simp: current_queue_def)
qed

definition fan_out_example :: event_bus where
  "fan_out_example =
     put_nowait (publish \<lparr>e_type = ''A'', e_timestamp = 1, e_data = []\<rparr>
       (register 2 (register 1 (attach 10 init_bus))))"

lemma fan_out_example_reachable: "bus_reachable fan_out_example"
  unfolding fan_out_example_def
  by (intro bus_reachable.step [OF _ bus_step.put] bus_reachable.step [OF _ bus_step.publish]
      reachable_register bus_reachable.step [OF _ bus_step.attach] bus_reachable.start)

theorem broken_client_does_not_stop_broadcast_witness:
  "\<exists>b1 e b'. broadcast_get fan_out_example = Some b1
     \<and> fan_out (\<lambda>ws. ws = 1) e (connections fan_out_example) b1 = Some b'
     \<and> set (connections b') = {1} \<and> map fst (sent b') = [1]"
proof -
  obtain b1 where b1: "broadcast_get fan_out_example = Some b1"
    by (simp add: fan_out_example_def init_bus_def bus_ops queue_full_def)
  have conns: "connections fan_out_example = [2, 1]" "sent fan_out_example = []"
    by (simp_all add: fan_out_example_def init_bus_def bus_ops queue_full_def)
  obtain e b' where "fan_out (\<lambda>ws. ws = 1) e (connections fan_out_example) b1 = Some b'"
      "sent b' = [(1, e)]" "set (connections b') = {1}"
    using broken_client_does_not_stop_broadcast [OF b1 fan_out_example_reachable, of "\<lambda>ws. ws = 1"]
    unfolding conns by auto
  with b1 show ?thesis by (intro exI [of _ b1] exI [of _ e] exI [of _ b']) simp
qed

text \<open>Publishing is a no-op while no lifespan is attached, and whatever was scheduled for an
  earlier lifespan's queue never reaches the queue of a later one.\<close>

theorem detached_bus_and_stale_callbacks:
  "(attached b = None \<longrightarrow> publish e b = b)
   \<and> (\<forall>g cbs g' maxsize q. scheduled b = (g, e) # cbs \<longrightarrow> attached b = Some (g', maxsize, q) \<longrightarrow>
        g \<noteq> g' \<longrightarrow> current_queue (put_nowait b) = current_queue b)"
  by (auto simp: publish_def put_nowait_def current_queue_def)

theorem detached_bus_and_stale_callbacks_witness:
  "publish \<lparr>e_type = ''A'', e_timestamp = 1, e_data = []\<rparr> init_bus = init_bus
   \<and> current_queue (put_nowait (attach 10 (detach
        (publish \<lparr>e_type = ''A'', e_timestamp = 1, e_data = []\<rparr> (attach 10 init_bus))))) = []"
proof -
  let ?e = "\<lparr>e_type = ''A'', e_timestamp = 1, e_data = []\<rparr>"
  let ?b = "attach 10 (detach (publish ?e (attach 10 init_bus)))"
  have "publish ?e init_bus = init_bus"
    using detached_bus_and_stale_callbacks [of init_bus ?e] by (simp add: init_bus_def)
  moreover have "scheduled ?b = [(1, ?e)]" "attached ?b = Some (2, 10, [])"
    by (simp_all add: bus_ops init_bus_def)
  then have "current_queue (put_nowait ?b) = current_queue ?b"
    using detached_bus_and_stale_callbacks [of ?b ?e] by simp
  moreover have "current_queue ?b = []" by (simp add: current_queue_def attach_def)
  ultimately show ?thesis by simp
qed

end
