(* ===== verification/Prog.thy ===== *)
theory Prog
  imports Errors Metrics EventBus
begin

text \<open>
  Handlers as programs. The code that is not under src/ (the SQLAlchemy session and PostgreSQL, the
  Redis server, clocks and UUIDs) and the process-wide objects the handlers share are reached through
  calls; a program is a tree of calls, branching on the reply. The translation of a handler therefore
  fixes no behaviour of those services: a property may quantify over every reply, or run the program
  against the platform of theory Platform.

  A reference to an object carries its primary key. Reading an attribute of an object that a commit or
  rollback has expired loads its row first: \<open>load_ride\<close> and \<open>load_driver\<close> are these reads.
\<close>

section \<open>Calls and replies\<close>

datatype ride_value = DriverId uuid | MatchedAt real

datatype call =
    SelectDrivers "driver \<Rightarrow> bool"
  | CountDrivers "driver \<Rightarrow> bool"
  | SelectRides "ride \<Rightarrow> bool"
  | CountRides "ride \<Rightarrow> bool"
  | SelectRideZones "ride \<Rightarrow> bool"
  | GetDriver uuid bool
  | GetRide uuid
  | GetRider uuid
  | InsertDriver real real string string driver_status
  | InsertRider real real
  | InsertRide uuid real real "string option" "string option" "real option"
  | SetDriverStatus uuid driver_status
  | SetDriverLocation uuid real real string string
  | SetRideStatus uuid ride_status
  | Flush
  | UpdateRide uuid "ride_status list" ride_status "ride_value list"
  | Commit
  | Rollback
  | RefreshDriver uuid
  | RefreshRide uuid
  | RefreshRider uuid
  | DbPing
  | RedisSetNxPx string string int
  | RedisRunRelease string string
  | RedisPing
  | Uuid4
  | UtcNow
  | PerfCounter
  | Emit string "(string \<times> jval) list"
  | RecordMatch outcome real
  | RecordLockContention
  | MetricsSnapshot
  | DbPercentiles

datatype reply =
    RUnit
  | RBool bool
  | RNat nat
  | RReal real
  | RStr string
  | RStrs "string list"
  | RDriver "driver option"
  | RDrivers "driver list"
  | RRide "ride option"
  | RRides "ride list"
  | RRider "rider option"
  | RSnapshot metrics_snapshot
  | RTriple real real real
  | RExn exn

section \<open>Programs\<close>

datatype 'a prog = Return 'a | Raise exn | Call call "reply \<Rightarrow> 'a prog"

text \<open>
  \<open>handle p f g\<close> runs \<open>p\<close> and continues with \<open>f\<close> on its result or with \<open>g\<close> on its exception. Python's
  sequencing, \<open>try ... except\<close>, \<open>try ... except ... else\<close> and \<open>try ... finally\<close> are instances.
\<close>

primrec handle :: "'a prog \<Rightarrow> ('a \<Rightarrow> 'b prog) \<Rightarrow> (exn \<Rightarrow> 'b prog) \<Rightarrow> 'b prog" where
  "handle (Return x) f g = f x"
| "handle (Raise e) f g = g e"
| "handle (Call c k) f g = Call c (\<lambda>r. handle (k r) f g)"

definition pbind :: "'a prog \<Rightarrow> ('a \<Rightarrow> 'b prog) \<Rightarrow> 'b prog" where
  "pbind p f = handle p f Raise"

definition try_except :: "'a prog \<Rightarrow> (exn \<Rightarrow> 'a prog) \<Rightarrow> 'a prog" where
  "try_except p g = handle p Return g"

definition try_finally :: "'a prog \<Rightarrow> 'b prog \<Rightarrow> 'a prog" where
  "try_finally p q = handle p (\<lambda>x. pbind q (\<lambda>_. Return x)) (\<lambda>e. pbind q (\<lambda>_. Raise e))"

lemma pbind_simps [simp]:
  "pbind (Return x) f = f x"
  "pbind (Raise e) f = Raise e"
  "pbind (Call c k) f = Call c (\<lambda>r. pbind (k r) f)"
  by (simp_all add: pbind_def)

lemma try_except_simps [simp]:
  "try_except (Return x) g = Return x"
  "try_except (Raise e) g = g e"
  "try_except (Call c k) g = Call c (\<lambda>r. try_except (k r) g)"
  by (simp_all add: try_except_def)

lemma try_finally_simps [simp]:
  "try_finally (Return x) q = pbind q (\<lambda>_. Return x)"
  "try_finally (Raise e) q = pbind q (\<lambda>_. Raise e)"
  "try_finally (Call c k) q = Call c (\<lambda>r. try_finally (k r) q)"
  by (simp_all add: try_finally_def)

lemma pbind_assoc: "pbind (pbind p f) g = pbind p (\<lambda>x. pbind (f x) g)"
  by (induction p) simp_all

lemma pbind_Return [simp]: "pbind p Return = p"
  by (induction p) simp_all

section \<open>Calls with typed results\<close>

text \<open>\<open>ask c proj\<close> makes the call, raises what the callee raised and projects its result; a reply of
  another type is what no service of the platform gives.\<close>

definition ask :: "call \<Rightarrow> (reply \<Rightarrow> 'a option) \<Rightarrow> 'a prog" where
  "ask c proj = Call c (\<lambda>r. case r of RExn e \<Rightarrow> Raise e
     | _ \<Rightarrow> (case proj r of Some x \<Rightarrow> Return x | None \<Rightarrow> Raise (ValueError ''ill-typed reply'')))"

fun un_unit :: "reply \<Rightarrow> unit option" where "un_unit RUnit = Some ()" | "un_unit _ = None"
fun un_bool :: "reply \<Rightarrow> bool option" where "un_bool (RBool b) = Some b" | "un_bool _ = None"
fun un_nat :: "reply \<Rightarrow> nat option" where "un_nat (RNat n) = Some n" | "un_nat _ = None"
fun un_real :: "reply \<Rightarrow> real option" where "un_real (RReal x) = Some x" | "un_real _ = None"
fun un_str :: "reply \<Rightarrow> string option" where "un_str (RStr s) = Some s" | "un_str _ = None"
fun un_strs :: "reply \<Rightarrow> string list option" where "un_strs (RStrs s) = Some s" | "un_strs _ = None"
fun un_driver :: "reply \<Rightarrow> driver option option" where "un_driver (RDriver d) = Some d" | "un_driver _ = None"
fun un_drivers :: "reply \<Rightarrow> driver list option" where "un_drivers (RDrivers d) = Some d" | "un_drivers _ = None"
fun un_ride :: "reply \<Rightarrow> ride option option" where "un_ride (RRide r) = Some r" | "un_ride _ = None"
fun un_rides :: "reply \<Rightarrow> ride list option" where "un_rides (RRides r) = Some r" | "un_rides _ = None"
fun un_rider :: "reply \<Rightarrow> rider option option" where "un_rider (RRider r) = Some r" | "un_rider _ = None"
fun un_snapshot :: "reply \<Rightarrow> metrics_snapshot option" where
  "un_snapshot (RSnapshot s) = Some s" | "un_snapshot _ = None"
fun un_triple :: "reply \<Rightarrow> (real \<times> real \<times> real) option" where
  "un_triple (RTriple a b c) = Some (a, b, c)" | "un_triple _ = None"

abbreviation "db_commit \<equiv> ask Commit un_unit"
abbreviation "db_rollback \<equiv> ask Rollback un_unit"
abbreviation "db_flush \<equiv> ask Flush un_unit"
abbreviation "utc_now \<equiv> ask UtcNow un_real"
abbreviation "perf_counter \<equiv> ask PerfCounter un_real"
abbreviation "uuid4 \<equiv> ask Uuid4 un_str"

text \<open>The result of a row lookup that must find the row (\<open>db.refresh\<close>, a reload of an attribute).\<close>

definition must_exist :: "'a option prog \<Rightarrow> 'a prog" where
  "must_exist p = pbind p (\<lambda>x. case x of Some v \<Rightarrow> Return v | None \<Rightarrow> Raise OtherSQLAlchemyError)"

abbreviation "refresh_ride i \<equiv> must_exist (ask (RefreshRide i) un_ride)"
abbreviation "refresh_driver i \<equiv> must_exist (ask (RefreshDriver i) un_driver)"
abbreviation "refresh_rider i \<equiv> must_exist (ask (RefreshRider i) un_rider)"
abbreviation "load_ride i \<equiv> must_exist (ask (GetRide i) un_ride)"
abbreviation "load_driver i \<equiv> must_exist (ask (GetDriver i False) un_driver)"

text \<open>Emitting an event and recording a metric never raise.\<close>

definition emit_event :: "string \<Rightarrow> (string \<times> jval) list \<Rightarrow> unit prog" where
  "emit_event ty data = Call (Emit ty data) (\<lambda>_. Return ())"

definition record_metric :: "outcome \<Rightarrow> real \<Rightarrow> unit prog" where
  "record_metric oc secs = Call (RecordMatch oc secs) (\<lambda>_. Return ())"

definition record_contention :: "unit prog" where
  "record_contention = Call RecordLockContention (\<lambda>_. Return ())"

section \<open>Traces: every exchange a program can have\<close>

inductive trace :: "'a prog \<Rightarrow> (call \<times> reply) list \<Rightarrow> exn + 'a \<Rightarrow> bool" where
  trace_return: "trace (Return x) [] (Inr x)"
| trace_raise: "trace (Raise e) [] (Inl e)"
| trace_call: "trace (k r) t res \<Longrightarrow> trace (Call c k) ((c, r) # t) res"

inductive_simps trace_Return [simp]: "trace (Return x) t res"
inductive_simps trace_Raise [simp]: "trace (Raise e) t res"
inductive_simps trace_Call: "trace (Call c k) t res"

text \<open>A trace of a composed program splits at the end of its first part.\<close>

definition split_trace ::
  "'a prog \<Rightarrow> ('a \<Rightarrow> 'b prog) \<Rightarrow> (exn \<Rightarrow> 'b prog) \<Rightarrow> (call \<times> reply) list \<Rightarrow> exn + 'b \<Rightarrow> bool" where
  "split_trace p f g t res \<longleftrightarrow>
     (\<exists>t1 t2. t = t1 @ t2 \<and>
        ((\<exists>x. trace p t1 (Inr x) \<and> trace (f x) t2 res) \<or> (\<exists>e. trace p t1 (Inl e) \<and> trace (g e) t2 res)))"

lemma trace_handle: "trace (handle p f g) t res \<longleftrightarrow> split_trace p f g t res"
proof
  show "trace (handle p f g) t res \<Longrightarrow> split_trace p f g t res"
  proof (induction p arbitrary: t)
    case (Call c k)
    then obtain r t' where t: "t = (c, r) # t'" and "trace (handle (k r) f g) t' res"
      by (auto simp: trace_Call)
    then have "split_trace (k r) f g t' res" using Call.IH by blast
    then show ?case unfolding split_trace_def t by (metis append_Cons trace_call)
  qed (auto simp: split_trace_def)
next
  assume "split_trace p f g t res"
  then obtain t1 t2 res1 where t: "t = t1 @ t2" and p: "trace p t1 res1"
    and cont: "case res1 of Inr x \<Rightarrow> trace (f x) t2 res | Inl e \<Rightarrow> trace (g e) t2 res"
    by (auto simp: split_trace_def)
  from p cont have "trace (handle p f g) (t1 @ t2) res"
    by (induction rule: trace.induct) (auto intro: trace.intros)
  then show "trace (handle p f g) t res" by (simp add: t)
qed

lemma trace_pbind:
  "trace (pbind p f) t res \<longleftrightarrow>
     (\<exists>t1 t2 x. t = t1 @ t2 \<and> trace p t1 (Inr x) \<and> trace (f x) t2 res) \<or>
     (\<exists>e. res = Inl e \<and> trace p t (Inl e))"
  unfolding pbind_def trace_handle split_trace_def by auto

lemma trace_pbindE:
  assumes "trace (pbind p f) t res"
  obtains (ok) t1 t2 x where "t = t1 @ t2" "trace p t1 (Inr x)" "trace (f x) t2 res"
    | (exn) e where "res = Inl e" "trace p t (Inl e)"
  using assms unfolding trace_pbind by blast

lemma trace_handleE:
  assumes "trace (handle p f g) t res"
  obtains (ok) t1 t2 x where "t = t1 @ t2" "trace p t1 (Inr x)" "trace (f x) t2 res"
    | (exn) t1 t2 e where "t = t1 @ t2" "trace p t1 (Inl e)" "trace (g e) t2 res"
  using assms unfolding trace_handle split_trace_def by blast

text \<open>One call, seen from its trace.\<close>

lemma trace_askE:
  assumes "trace (ask c proj) t res"
  obtains r where "t = [(c, r)]"
    "(\<exists>x. proj r = Some x \<and> res = Inr x \<and> (\<forall>e. r \<noteq> RExn e)) \<or> (\<exists>e. r = RExn e \<and> res = Inl e)
     \<or> (proj r = None \<and> res = Inl (ValueError ''ill-typed reply''))"
proof -
  from assms obtain r t' where t: "t = (c, r) # t'"
    and rest: "trace (case r of RExn e \<Rightarrow> Raise e
     | _ \<Rightarrow> (case proj r of Some x \<Rightarrow> Return x | None \<Rightarrow> Raise (ValueError ''ill-typed reply''))) t' res"
    unfolding ask_def by (auto simp: trace_Call)
  then show thesis by (cases r; cases "proj r") (auto intro!: that)
qed

text \<open>Properties of every call a program can make.\<close>

primrec all_calls :: "(call \<Rightarrow> bool) \<Rightarrow> 'a prog \<Rightarrow> bool" where
  "all_calls P (Return x) = True"
| "all_calls P (Raise e) = True"
| "all_calls P (Call c k) = (P c \<and> (\<forall>r. all_calls P (k r)))"

lemma all_calls_handle:
  "all_calls P p \<Longrightarrow> (\<And>x. all_calls P (f x)) \<Longrightarrow> (\<And>e. all_calls P (g e)) \<Longrightarrow> all_calls P (handle p f g)"
  by (induction p) auto

lemma all_calls_pbind:
  "all_calls P p \<Longrightarrow> (\<And>x. all_calls P (f x)) \<Longrightarrow> all_calls P (pbind p f)"
  unfolding pbind_def by (rule all_calls_handle) auto

lemma all_calls_ask [simp]: "all_calls P (ask c proj) \<longleftrightarrow> P c"
  by (auto simp: ask_def split: reply.splits option.splits)

lemma all_calls_trace: "trace p t res \<Longrightarrow> all_calls P p \<Longrightarrow> \<forall>(c, r) \<in> set t. P c"
  by (induction rule: trace.induct) auto

section \<open>Running a program against a service\<close>

text \<open>A service answers a call from its state; \<open>run\<close> is total because a program is a finite-depth tree.\<close>

primrec run :: "('s \<Rightarrow> call \<Rightarrow> reply \<times> 's) \<Rightarrow> 'a prog \<Rightarrow> 's \<Rightarrow> (exn + 'a) \<times> 's" where
  "run svc (Return x) s = (Inr x, s)"
| "run svc (Raise e) s = (Inl e, s)"
| "run svc (Call c k) s = (case svc s c of (r, s') \<Rightarrow> run svc (k r) s')"

lemma run_handle:
  "run svc (handle p f g) s =
     (case run svc p s of (Inr x, s') \<Rightarrow> run svc (f x) s' | (Inl e, s') \<Rightarrow> run svc (g e) s')"
  by (induction p arbitrary: s) (auto split: prod.splits)

lemma run_pbind:
  "run svc (pbind p f) s =
     (case run svc p s of (Inr x, s') \<Rightarrow> run svc (f x) s' | (Inl e, s') \<Rightarrow> (Inl e, s'))"
  by (auto simp: pbind_def run_handle split: prod.split sum.split)

text \<open>The exchange a run has, call by call.\<close>

primrec run_log :: "('s \<Rightarrow> call \<Rightarrow> reply \<times> 's) \<Rightarrow> 'a prog \<Rightarrow> 's \<Rightarrow> (call \<times> reply) list" where
  "run_log svc (Return x) s = []"
| "run_log svc (Raise e) s = []"
| "run_log svc (Call c k) s = (case svc s c of (r, s') \<Rightarrow> (c, r) # run_log svc (k r) s')"

lemma run_log_trace: "trace p (run_log svc p s) (fst (run svc p s))"
  by (induction p arbitrary: s) (auto intro: trace.intros split: prod.split)

end
