(* ===== verification/Repositories.thy ===== *)
theory Repositories
  imports Prog
begin

text \<open>
  The data-access layer (app/storage/repositories). Each method is the program of the session calls it
  makes; a query's WHERE clause is the predicate the call carries. \<open>db.add(x); db.flush()\<close> is the one
  call that inserts the row.
\<close>

section \<open>Sessions\<close>

text \<open>
  \<open>session_scope\<close> (app/storage/database.py): the body in a transaction, committed at its end, rolled back
  on an exception. Closing the session then ends nothing more. What \<open>get_db\<close> does for a request is the
  step \<open>close\<close> of theory Concurrency.
\<close>

definition session_scope :: "'a prog \<Rightarrow> 'a prog" where
  "session_scope body =
     handle (pbind body (\<lambda>x. pbind db_commit (\<lambda>_. Return x)))
       Return
       (\<lambda>e. pbind db_rollback (\<lambda>_. Raise e))"

lemma session_scope_ends_transaction:
  assumes "trace (session_scope body) t res"
  shows "t \<noteq> [] \<and> fst (last t) = (case res of Inl _ \<Rightarrow> Rollback | Inr _ \<Rightarrow> Commit)"
  using assms unfolding session_scope_def
  by (auto elim!: trace_handleE trace_pbindE trace_askE split: sum.split)

section \<open>DriverRepository\<close>

definition driver_create :: "real \<Rightarrow> real \<Rightarrow> string \<Rightarrow> string \<Rightarrow> driver_status \<Rightarrow> driver prog" where
  [repo_defs]: "driver_create lat lng h3_index zone_id status =
     must_exist (ask (InsertDriver lat lng h3_index zone_id status) un_driver)"

definition driver_get_by_id :: "uuid \<Rightarrow> bool \<Rightarrow> driver option prog" where
  [repo_defs]: "driver_get_by_id driver_id fresh = ask (GetDriver driver_id fresh) un_driver"

definition list_by_status :: "driver_status \<Rightarrow> driver list prog" where
  [repo_defs]: "list_by_status status = ask (SelectDrivers (\<lambda>d. d_status d = status)) un_drivers"

definition list_all_drivers :: "driver list prog" where
  [repo_defs]: "list_all_drivers = ask (SelectDrivers (\<lambda>d. True)) un_drivers"

definition list_available_in_cells :: "string set \<Rightarrow> driver list prog" where
  [repo_defs]: "list_available_in_cells cells =
     (if cells = {} then Return []
      else ask (SelectDrivers (\<lambda>d. d_status d = AVAILABLE \<and> d_h3_index d \<in> cells)) un_drivers)"

definition update_location :: "uuid \<Rightarrow> real \<Rightarrow> real \<Rightarrow> string \<Rightarrow> string \<Rightarrow> uuid option prog" where
  [repo_defs]: "update_location driver_id lat lng h3_index zone_id =
     pbind (driver_get_by_id driver_id False) (\<lambda>driver.
     case driver of
       None \<Rightarrow> Return None
     | Some d \<Rightarrow>
         pbind (ask (SetDriverLocation (d_id d) lat lng h3_index zone_id) un_unit) (\<lambda>_.
         pbind db_flush (\<lambda>_. Return (Some (d_id d)))))"

definition count_available_in_zone :: "string \<Rightarrow> nat prog" where
  [repo_defs]: "count_available_in_zone zone_id =
     ask (CountDrivers (\<lambda>d. d_status d = AVAILABLE \<and> d_zone_id d = zone_id)) un_nat"

definition driver_update_status :: "uuid \<Rightarrow> driver_status \<Rightarrow> uuid option prog" where
  [repo_defs]: "driver_update_status driver_id status =
     pbind (driver_get_by_id driver_id False) (\<lambda>driver.
     case driver of
       None \<Rightarrow> Return None
     | Some d \<Rightarrow>
         pbind (ask (SetDriverStatus (d_id d) status) un_unit) (\<lambda>_.
         pbind db_flush (\<lambda>_. Return (Some (d_id d)))))"

definition count_drivers_by_status :: "driver_status \<Rightarrow> nat prog" where
  [repo_defs]: "count_drivers_by_status status = ask (CountDrivers (\<lambda>d. d_status d = status)) un_nat"

section \<open>RideRepository\<close>

definition ride_create ::
  "uuid \<Rightarrow> real \<Rightarrow> real \<Rightarrow> string option \<Rightarrow> string option \<Rightarrow> real option \<Rightarrow> ride prog" where
  [repo_defs]: "ride_create rider_id lat lng key zone_id multiplier =
     must_exist (ask (InsertRide rider_id lat lng key zone_id multiplier) un_ride)"

definition ride_get_by_id :: "uuid \<Rightarrow> ride option prog" where
  [repo_defs]: "ride_get_by_id ride_id = ask (GetRide ride_id) un_ride"

definition get_by_idempotency_key :: "string \<Rightarrow> ride option prog" where
  [repo_defs]: "get_by_idempotency_key key =
     pbind (ask (SelectRides (\<lambda>r. idempotency_key r = Some key)) un_rides) (\<lambda>rs.
     Return (case rs of [] \<Rightarrow> None | r # _ \<Rightarrow> Some r))"

definition count_recent_active_in_zone :: "string \<Rightarrow> real \<Rightarrow> nat prog" where
  [repo_defs]: "count_recent_active_in_zone zone_id since =
     ask (CountRides (\<lambda>r. r_zone_id r = Some zone_id \<and> since \<le> created_at r
       \<and> r_status r \<in> set ACTIVE_RIDE_STATUSES)) un_nat"

definition list_active_for_driver :: "uuid \<Rightarrow> ride list prog" where
  [repo_defs]: "list_active_for_driver driver_id =
     ask (SelectRides (\<lambda>r. r_driver_id r = Some driver_id \<and> r_status r \<in> set ACTIVE_RIDE_STATUSES)) un_rides"

definition ride_update_status :: "uuid \<Rightarrow> ride_status \<Rightarrow> uuid option prog" where
  [repo_defs]: "ride_update_status ride_id status =
     pbind (ride_get_by_id ride_id) (\<lambda>ride.
     case ride of
       None \<Rightarrow> Return None
     | Some r \<Rightarrow>
         pbind (ask (SetRideStatus (r_id r) status) un_unit) (\<lambda>_.
         pbind db_flush (\<lambda>_. Return (Some (r_id r)))))"

text \<open>One conditional UPDATE; the reply tells whether a row was affected.\<close>

definition transition_status ::
  "uuid \<Rightarrow> ride_status list \<Rightarrow> ride_status \<Rightarrow> ride_value list \<Rightarrow> bool prog" where
  [repo_defs]: "transition_status ride_id from_statuses to_status extra_values =
     pbind (ask (UpdateRide ride_id from_statuses to_status extra_values) un_nat) (\<lambda>rowcount.
     Return (rowcount > 0))"

definition count_rides_by_status :: "ride_status \<Rightarrow> nat prog" where
  [repo_defs]: "count_rides_by_status status = ask (CountRides (\<lambda>r. r_status r = status)) un_nat"

definition list_recent_zone_ids :: "real \<Rightarrow> string list prog" where
  [repo_defs]: "list_recent_zone_ids since =
     ask (SelectRideZones (\<lambda>r. r_zone_id r \<noteq> None \<and> since \<le> created_at r)) un_strs"

section \<open>RiderRepository\<close>

definition rider_create :: "real \<Rightarrow> real \<Rightarrow> rider prog" where
  [repo_defs]: "rider_create lat lng = must_exist (ask (InsertRider lat lng) un_rider)"

definition rider_get_by_id :: "uuid \<Rightarrow> rider option prog" where
  [repo_defs]: "rider_get_by_id rider_id = ask (GetRider rider_id) un_rider"

end
