(* ===== verification/Geo.thy ===== *)
theory Geo
  imports Models Errors
begin

text \<open>
  H3 cell helpers and great-circle distance (app/matching/geo.py), the pure ranking of candidates
  (app/matching/ranking.py) and the surge zone of a point (app/pricing/zones.py). The h3 package is a
  parameter, the record \<open>h3_lib\<close>; what the code relies on is the predicate \<open>h3_documented\<close>. Distances
  are exact real arithmetic.
\<close>

section \<open>The h3 package\<close>

record h3_lib =
  latlng_to_cell :: "real \<Rightarrow> real \<Rightarrow> int \<Rightarrow> string"
  grid_disk :: "string \<Rightarrow> int \<Rightarrow> string list"

text \<open>
  \<open>grid_disk(c, k)\<close> is the filled disk of the cells at grid distance at most \<open>k\<close>: the disk of radius 0
  is the cell itself, and disks grow with the radius.
\<close>

definition h3_documented :: "h3_lib \<Rightarrow> bool" where
  "h3_documented h \<longleftrightarrow>
     (\<forall>c. set (grid_disk h c 0) = {c})
   \<and> (\<forall>c j k. 0 \<le> j \<longrightarrow> j \<le> k \<longrightarrow> set (grid_disk h c j) \<subseteq> set (grid_disk h c k))"

section \<open>geo.py\<close>

definition latlng_to_h3 :: "h3_lib \<Rightarrow> real \<Rightarrow> real \<Rightarrow> int \<Rightarrow> string" where
  "latlng_to_h3 h lat lng resolution = latlng_to_cell h lat lng resolution"

definition cells_within_ring :: "h3_lib \<Rightarrow> string \<Rightarrow> int \<Rightarrow> exn + string set" where
  "cells_within_ring h h3_index k =
     (if k < 0 then Inl (ValueError ''k must be >= 0'')
      else let outer = set (grid_disk h h3_index k)
           in if k = 0 then Inr outer
              else let inner = set (grid_disk h h3_index (k - 1)) in Inr (outer - inner))"

definition EARTH_RADIUS_KM :: real where
  "EARTH_RADIUS_KM = 6371.0088"

definition radians :: "real \<Rightarrow> real" where
  "radians x = x * pi / 180"

text \<open>\<open>math.atan2\<close>.\<close>

definition atan2 :: "real \<Rightarrow> real \<Rightarrow> real" where
  "atan2 y x =
     (if 0 < x then arctan (y / x)
      else if x < 0 then (if 0 \<le> y then arctan (y / x) + pi else arctan (y / x) - pi)
      else if 0 < y then pi / 2 else if y < 0 then - (pi / 2) else 0)"

definition haversine_a :: "real \<Rightarrow> real \<Rightarrow> real \<Rightarrow> real \<Rightarrow> real" where
  "haversine_a lat1 lng1 lat2 lng2 =
     (let phi1 = radians lat1; phi2 = radians lat2;
          d_phi = radians (lat2 - lat1); d_lambda = radians (lng2 - lng1)
      in sin (d_phi / 2) ^ 2 + cos phi1 * cos phi2 * sin (d_lambda / 2) ^ 2)"

definition haversine_km :: "real \<Rightarrow> real \<Rightarrow> real \<Rightarrow> real \<Rightarrow> real" where
  "haversine_km lat1 lng1 lat2 lng2 =
     (let a = haversine_a lat1 lng1 lat2 lng2;
          c = 2 * atan2 (sqrt a) (sqrt (1 - a))
      in EARTH_RADIUS_KM * c)"

definition zone_id_for_point :: "h3_lib \<Rightarrow> real \<Rightarrow> real \<Rightarrow> int \<Rightarrow> string" where
  "zone_id_for_point h lat lng resolution = latlng_to_h3 h lat lng resolution"

section \<open>Rings partition the disk\<close>

lemma cells_within_ring_eq:
  "0 \<le> k \<Longrightarrow> cells_within_ring h c k =
     Inr (set (grid_disk h c k) - (if k = 0 then {} else set (grid_disk h c (k - 1))))"
  by (simp add: cells_within_ring_def Let_def)

definition ring :: "h3_lib \<Rightarrow> string \<Rightarrow> int \<Rightarrow> string set" where
  "ring h c k = (case cells_within_ring h c k of Inl _ \<Rightarrow> {} | Inr cs \<Rightarrow> cs)"

lemma ring_eq:
  "0 \<le> k \<Longrightarrow> ring h c k = set (grid_disk h c k) - (if k = 0 then {} else set (grid_disk h c (k - 1)))"
  by (simp add: ring_def cells_within_ring_eq)

lemma disk_mono:
  "h3_documented h \<Longrightarrow> 0 \<le> j \<Longrightarrow> j \<le> k \<Longrightarrow> set (grid_disk h c j) \<subseteq> set (grid_disk h c k)"
  by (simp add: h3_documented_def)

lemma rings_union_disk:
  assumes "h3_documented h"
  shows "(\<Union>j \<in> {0..int n}. ring h c j) = set (grid_disk h c (int n))"
proof (induction n)
  case 0
  then show ?case by (simp add: ring_eq)
next
  case (Suc n)
  have "{0..int (Suc n)} = insert (int (Suc n)) {0..int n}" by auto
  then show ?case
    using Suc disk_mono [OF assms, of "int n" "int (Suc n)" c] by (auto simp: ring_eq)
qed

lemma rings_disjoint:
  assumes "h3_documented h" and "0 \<le> j" and "j < k"
  shows "ring h c j \<inter> ring h c k = {}"
  using disk_mono [OF assms(1), of j "k - 1" c] assms(2,3) by (auto simp: ring_eq split: if_splits)

text \<open>Subtracting consecutive disks gives rings that partition every disk, however irregular the
  disks are: the rings up to \<open>n\<close> cover exactly the disk of radius \<open>n\<close> and no cell is in two of them.\<close>

theorem rings_partition_disk:
  assumes "h3_documented h"
  shows "(\<Union>j \<in> {0..int n}. ring h c j) = set (grid_disk h c (int n))
    \<and> (\<forall>j k. 0 \<le> j \<longrightarrow> j < k \<longrightarrow> ring h c j \<inter> ring h c k = {})
    \<and> (\<forall>k < 0. cells_within_ring h c k = Inl (ValueError ''k must be >= 0''))"
  using rings_union_disk [OF assms] rings_disjoint [OF assms] by (simp add: cells_within_ring_def)

text \<open>A concrete grid: cells are unary numerals on a half line, a disk is an interval.\<close>

definition unary :: "nat \<Rightarrow> string" where
  "unary n = replicate n CHR ''c''"

definition line_h3 :: h3_lib where
  "line_h3 = \<lparr>latlng_to_cell = (\<lambda>lat lng res. unary (nat \<lfloor>lat\<rfloor>)),
     grid_disk = (\<lambda>c k. if k = 0 then [c]
       else c # map unary [length c - nat k ..< Suc (length c + nat k)])\<rparr>"

lemma line_h3_documented: "h3_documented line_h3"
  by (auto simp: h3_documented_def line_h3_def)

text \<open>A degenerate grid, whose disks are single cells.\<close>

definition point_h3 :: h3_lib where
  "point_h3 = \<lparr>latlng_to_cell = (\<lambda>lat lng res. unary (nat \<lfloor>lat\<rfloor>)), grid_disk = (\<lambda>c k. [c])\<rparr>"

lemma point_h3_documented: "h3_documented point_h3"
  by (simp add: h3_documented_def point_h3_def)

theorem rings_partition_disk_witness:
  "(\<Union>j \<in> {0..int 2}. ring line_h3 (unary 5) j) = set (grid_disk line_h3 (unary 5) (int 2))
   \<and> unary 7 \<in> ring line_h3 (unary 5) 2"
  using rings_partition_disk [OF line_h3_documented, of "unary 5" 2]
  by (auto simp: ring_eq line_h3_def unary_def)

section \<open>The haversine formula computes the great-circle distance\<close>

text \<open>The cosine of the central angle: the dot product of the two unit vectors.\<close>

definition unit_dot :: "real \<Rightarrow> real \<Rightarrow> real \<Rightarrow> real \<Rightarrow> real" where
  "unit_dot lat1 lng1 lat2 lng2 =
     sin (radians lat1) * sin (radians lat2)
     + cos (radians lat1) * cos (radians lat2) * cos (radians (lng2 - lng1))"

definition great_circle_km :: "real \<Rightarrow> real \<Rightarrow> real \<Rightarrow> real \<Rightarrow> real" where
  "great_circle_km lat1 lng1 lat2 lng2 = EARTH_RADIUS_KM * arccos (unit_dot lat1 lng1 lat2 lng2)"

lemma radians_diff: "radians (x - y) = radians x - radians y"
  by (simp add: radians_def field_simps)

lemma two_sin_half_sq: "2 * sin (x / 2) ^ 2 = 1 - cos (x::real)"
  using cos_double_sin [of "x / 2"] by simp

lemma haversine_a_dot: "1 - 2 * haversine_a lat1 lng1 lat2 lng2 = unit_dot lat1 lng1 lat2 lng2"
proof -
  let ?p = "radians lat1" and ?q = "radians lat2" and ?l = "radians (lng2 - lng1)"
  have "2 * haversine_a lat1 lng1 lat2 lng2
      = 2 * sin (radians (lat2 - lat1) / 2) ^ 2 + cos ?p * cos ?q * (2 * sin (?l / 2) ^ 2)"
    by (simp add: haversine_a_def Let_def algebra_simps)
  also have "\<dots> = 1 - cos (?q - ?p) + cos ?p * cos ?q * (1 - cos ?l)"
    by (simp add: two_sin_half_sq radians_diff)
  finally show ?thesis by (simp add: unit_dot_def cos_diff algebra_simps)
qed

lemma unit_dot_bounds: "- 1 \<le> unit_dot a b c d" "unit_dot a b c d \<le> 1"
proof -
  let ?p = "radians a" and ?q = "radians c" and ?l = "radians (d - b)"
  have p: "cos ?p ^ 2 = 1 - sin ?p ^ 2" and q: "cos ?q ^ 2 = 1 - sin ?q ^ 2"
    and l: "cos ?l ^ 2 = 1 - sin ?l ^ 2"
    by (simp_all add: cos_squared_eq)
  have "(cos ?p + s * (cos ?q * cos ?l))^2 + (cos ?q * sin ?l)^2 + (sin ?p + s * sin ?q)^2
      = 2 + 2 * (s * unit_dot a b c d)" if "s^2 = 1" for s :: real
  proof -
    have "(cos ?p + s * (cos ?q * cos ?l))^2 + (cos ?q * sin ?l)^2 + (sin ?p + s * sin ?q)^2
      = cos ?p^2 + sin ?p^2 + cos ?q^2 * (s^2 * cos ?l^2 + sin ?l^2) + s^2 * sin ?q^2
        + 2 * (s * unit_dot a b c d)"
      by (simp add: unit_dot_def power2_eq_square algebra_simps)
    also have "\<dots> = 2 + 2 * (s * unit_dot a b c d)"
      unfolding that by (simp add: distrib_left [symmetric] flip: add.assoc)
    finally show ?thesis .
  qed
  then have nonneg: "0 \<le> 2 + 2 * (s * unit_dot a b c d)" if "s^2 = 1" for s :: real
    using that by (metis add_nonneg_nonneg zero_le_power2)
  from nonneg [of 1] nonneg [of "- 1"]
  have "0 \<le> 2 + 2 * unit_dot a b c d" "0 \<le> 2 - 2 * unit_dot a b c d" by simp_all
  then show "- 1 \<le> unit_dot a b c d" "unit_dot a b c d \<le> 1" by simp_all
qed

lemma haversine_a_bounds: "0 \<le> haversine_a a b c d" "haversine_a a b c d \<le> 1"
  using unit_dot_bounds [of a b c d] haversine_a_dot [of a b c d] by linarith+

lemma atan2_sqrt:
  assumes "0 \<le> a" and "a \<le> 1"
  shows "cos (2 * atan2 (sqrt a) (sqrt (1 - a))) = 1 - 2 * a"
    and "0 \<le> atan2 (sqrt a) (sqrt (1 - a))" and "atan2 (sqrt a) (sqrt (1 - a)) \<le> pi / 2"
proof -
  define t where "t = atan2 (sqrt a) (sqrt (1 - a))"
  have "cos (2 * t) = 1 - 2 * a \<and> 0 \<le> t \<and> t \<le> pi / 2"
  proof (cases "a = 1")
    case True
    then show ?thesis by (simp add: t_def atan2_def)
  next
    case False
    with assms have lt: "a < 1" by simp
    then have t: "t = arctan (sqrt a / sqrt (1 - a))" by (simp add: t_def atan2_def)
    have "0 \<le> sqrt a / sqrt (1 - a)" using assms lt by simp
    then have "0 \<le> t" by (simp add: t)
    moreover have "t \<le> pi / 2" using arctan_ubound [of "sqrt a / sqrt (1 - a)"] by (simp add: t)
    moreover have "cos (2 * t) = 1 - 2 * a"
    proof -
      have "(sqrt a / sqrt (1 - a))\<^sup>2 = a / (1 - a)"
        using assms lt by (simp add: power_divide)
      then have "1 + (sqrt a / sqrt (1 - a))\<^sup>2 = 1 / (1 - a)"
        using lt by (simp add: field_simps)
      then have "cos t ^ 2 = 1 - a"
        using lt by (simp add: t cos_arctan power_divide)
      then show ?thesis by (simp add: cos_double_cos)
    qed
    ultimately show ?thesis by simp
  qed
  then show "cos (2 * atan2 (sqrt a) (sqrt (1 - a))) = 1 - 2 * a"
    "0 \<le> atan2 (sqrt a) (sqrt (1 - a))" "atan2 (sqrt a) (sqrt (1 - a)) \<le> pi / 2"
    by (simp_all add: t_def)
qed

lemma haversine_great_circle: "haversine_km a b c d = great_circle_km a b c d"
proof -
  let ?a = "haversine_a a b c d"
  let ?t = "atan2 (sqrt ?a) (sqrt (1 - ?a))"
  note t = atan2_sqrt [OF haversine_a_bounds [of a b c d]]
  have "arccos (unit_dot a b c d) = arccos (cos (2 * ?t))"
    by (simp only: t(1) haversine_a_dot)
  also have "\<dots> = 2 * ?t"
    using t(2,3) by (intro arccos_cos) auto
  finally show ?thesis by (simp add: haversine_km_def great_circle_km_def Let_def)
qed

text \<open>C27: \<open>haversine_km\<close> is the great-circle distance: the earth's radius times the angle between
  the two points' unit vectors, for all coordinates; in particular it is symmetric, zero on equal
  points, never negative and at most half the circumference, and both square roots it takes are of
  non-negative numbers.\<close>

theorem haversine_is_great_circle:
  "haversine_km lat1 lng1 lat2 lng2 = great_circle_km lat1 lng1 lat2 lng2
   \<and> haversine_km lat1 lng1 lat2 lng2 = haversine_km lat2 lng2 lat1 lng1
   \<and> haversine_km lat1 lng1 lat1 lng1 = 0
   \<and> 0 \<le> haversine_km lat1 lng1 lat2 lng2
   \<and> haversine_km lat1 lng1 lat2 lng2 \<le> EARTH_RADIUS_KM * pi
   \<and> 0 \<le> haversine_a lat1 lng1 lat2 lng2 \<and> haversine_a lat1 lng1 lat2 lng2 \<le> 1"
proof -
  have sym: "unit_dot lat1 lng1 lat2 lng2 = unit_dot lat2 lng2 lat1 lng1"
    using cos_minus [of "radians (lng2 - lng1)"]
    by (simp add: unit_dot_def radians_diff mult.commute mult.left_commute)
  have self: "unit_dot lat1 lng1 lat1 lng1 = 1"
    by (simp add: unit_dot_def radians_def flip: power2_eq_square)
  have "0 \<le> arccos (unit_dot lat1 lng1 lat2 lng2)" "arccos (unit_dot lat1 lng1 lat2 lng2) \<le> pi"
    by (intro arccos_lbound arccos_ubound unit_dot_bounds)+
  then show ?thesis
    using haversine_a_bounds [of lat1 lng1 lat2 lng2]
    by (simp add: haversine_great_circle great_circle_km_def sym self EARTH_RADIUS_KM_def)
qed

section \<open>Ranking\<close>

definition rank_candidates :: "real \<Rightarrow> real \<Rightarrow> driver list \<Rightarrow> (driver \<times> real) list" where
  "rank_candidates rider_lat rider_lng drivers =
     sort_key snd (map (\<lambda>d. (d, haversine_km rider_lat rider_lng (current_lat d) (current_lng d))) drivers)"

lemma set_rank_candidates:
  "set (rank_candidates lat lng ds) =
     (\<lambda>d. (d, haversine_km lat lng (current_lat d) (current_lng d))) ` set ds"
  by (simp add: rank_candidates_def)

lemma length_rank_candidates [simp]: "length (rank_candidates lat lng ds) = length ds"
  by (simp add: rank_candidates_def)

text \<open>Ranking returns every candidate exactly once with its great-circle distance, nearest first,
  and keeps the order of the input among candidates at equal distance.\<close>

lemma rank_candidates_correct:
  "mset (map fst (rank_candidates lat lng ds)) = mset ds
   \<and> (\<forall>(d, km) \<in> set (rank_candidates lat lng ds).
        km = great_circle_km lat lng (current_lat d) (current_lng d))
   \<and> sorted (map snd (rank_candidates lat lng ds))
   \<and> filter (\<lambda>p. snd p = km) (rank_candidates lat lng ds)
       = map (\<lambda>d. (d, km)) (filter (\<lambda>d. great_circle_km lat lng (current_lat d) (current_lng d) = km) ds)"
proof -
  let ?f = "\<lambda>d. (d, haversine_km lat lng (current_lat d) (current_lng d))"
  have "filter (\<lambda>p. snd p = km) (sort_key snd (map ?f ds)) = filter (\<lambda>p. snd p = km) (map ?f ds)"
    by (rule sort_key_stable)
  also have "\<dots> = map (\<lambda>d. (d, km)) (filter (\<lambda>d. great_circle_km lat lng (current_lat d) (current_lng d) = km) ds)"
    by (induction ds) (simp_all add: haversine_great_circle)
  moreover have "mset (map fst (sort_key snd (map ?f ds))) = mset ds"
    by (simp add: multiset.map_comp comp_def)
  ultimately show ?thesis
    by (auto simp: rank_candidates_def haversine_great_circle)
qed

definition at_point :: "string \<Rightarrow> real \<Rightarrow> real \<Rightarrow> driver" where
  "at_point i lat lng = \<lparr>d_id = i, current_lat = lat, current_lng = lng, d_h3_index = ''c'',
     d_zone_id = ''z'', d_status = AVAILABLE, last_updated_at = 0\<rparr>"

end
