(* ===== verification/CandidateSearch.thy ===== *)
theory CandidateSearch
  imports Repositories Geo Config
begin

text \<open>
  Candidate discovery (app/matching/candidate_search.py): rings of cells around the pickup cell are
  queried outwards until enough available drivers are found, and everything found is ranked by
  distance. The dict of candidates is an association list in insertion order.
\<close>

fun search_rings ::
  "h3_lib \<Rightarrow> string \<Rightarrow> int \<Rightarrow> int list \<Rightarrow> (uuid \<times> driver) list \<Rightarrow> (uuid \<times> driver) list prog" where
  "search_rings h rider_cell target [] candidates = Return candidates"
| "search_rings h rider_cell target (k # ks) candidates =
     (case cells_within_ring h rider_cell k of
        Inl e \<Rightarrow> Raise e
      | Inr ring_cells \<Rightarrow>
          pbind (list_available_in_cells ring_cells) (\<lambda>drivers.
          let candidates = fold (\<lambda>d. AList.update (d_id d) d) drivers candidates
          in if int (length candidates) \<ge> target then Return candidates
             else search_rings h rider_cell target ks candidates))"

definition find_ranked_candidates ::
  "h3_lib \<Rightarrow> settings \<Rightarrow> real \<Rightarrow> real \<Rightarrow> int \<Rightarrow> int \<Rightarrow> (driver \<times> real) list prog" where
  "find_ranked_candidates h cfg rider_lat rider_lng target_candidates max_ring =
     (let rider_cell = latlng_to_h3 h rider_lat rider_lng (h3_resolution cfg)
      in pbind (search_rings h rider_cell target_candidates [0..max_ring] []) (\<lambda>candidates.
         Return (rank_candidates rider_lat rider_lng (map snd candidates))))"

end
