(* ===== verification/Lock.thy ===== *)
theory Lock
  imports Prog
begin

text \<open>
  The distributed lock (app/redis/lock.py): the two Redis commands it is made of, acting on a
  keyspace of expiring entries, the Python functions as programs, and the contract of an expiring lock
  with the exclusion it gives. Times are milliseconds.
\<close>

section \<open>The commands on the keyspace\<close>

type_synonym keyspace = "(string \<times> (string \<times> real)) list"

text \<open>An entry is there until its expiry time.\<close>

definition live :: "real \<Rightarrow> ('v \<times> real) option \<Rightarrow> 'v option" where
  "live now e = (case e of None \<Rightarrow> None | Some (v, deadline) \<Rightarrow> if now < deadline then Some v else None)"

text \<open>\<open>SET key value NX PX ttl\<close>.\<close>

definition redis_set_nx_px :: "real \<Rightarrow> string \<Rightarrow> string \<Rightarrow> real \<Rightarrow> keyspace \<Rightarrow> bool \<times> keyspace" where
  "redis_set_nx_px now key value ttl ks =
     (case live now (map_of ks key) of
        None \<Rightarrow> (True, AList.update key (value, now + ttl) ks)
      | Some _ \<Rightarrow> (False, ks))"

text \<open>The Lua script: delete the key if it still holds the token, and return how many were deleted.\<close>

definition release_script :: "real \<Rightarrow> string \<Rightarrow> string \<Rightarrow> keyspace \<Rightarrow> nat \<times> keyspace" where
  "release_script now key token ks =
     (if live now (map_of ks key) = Some token then (1, AList.delete key ks) else (0, ks))"

section \<open>The Python functions\<close>

definition acquire_lock :: "string \<Rightarrow> int \<Rightarrow> string option prog" where
  "acquire_lock key ttl_ms =
     pbind uuid4 (\<lambda>token.
     pbind (ask (RedisSetNxPx key token ttl_ms) un_bool) (\<lambda>acquired.
     Return (if acquired then Some token else None)))"

definition release_lock :: "string \<Rightarrow> string \<Rightarrow> bool prog" where
  "release_lock key token =
     pbind (ask (RedisRunRelease key token) un_nat) (\<lambda>deleted. Return (deleted \<noteq> 0))"

definition lock_key :: "uuid \<Rightarrow> string" where
  "lock_key driver_id = ''lock:driver:'' @ driver_id"

lemma lock_key_inject [simp]: "lock_key a = lock_key b \<longleftrightarrow> a = b"
  by (simp add: lock_key_def)

section \<open>The contract of an expiring lock\<close>

datatype 'v lock_op = Acquire string 'v real | Release string 'v

text \<open>
  \<open>entry\<close> is the stored token of a key with its deadline. Acquiring succeeds exactly when no live
  token is stored; releasing removes the entry exactly when the caller's own token is live.
\<close>

locale expiring_lock =
  fixes entry :: "'s \<Rightarrow> string \<Rightarrow> ('v \<times> real) option"
    and acquire :: "real \<Rightarrow> string \<Rightarrow> 'v \<Rightarrow> real \<Rightarrow> 's \<Rightarrow> bool \<times> 's"
    and release :: "real \<Rightarrow> string \<Rightarrow> 'v \<Rightarrow> 's \<Rightarrow> bool \<times> 's"
  assumes acquire_result: "fst (acquire t k v ttl s) \<longleftrightarrow> live t (entry s k) = None"
    and acquire_entry: "entry (snd (acquire t k v ttl s)) =
          (if live t (entry s k) = None then (entry s)(k := Some (v, t + ttl)) else entry s)"
    and release_result: "fst (release t k v s) \<longleftrightarrow> live t (entry s k) = Some v"
    and release_entry: "entry (snd (release t k v s)) =
          (if live t (entry s k) = Some v then (entry s)(k := None) else entry s)"
begin

fun lock_step :: "real \<times> 'v lock_op \<Rightarrow> 's \<Rightarrow> bool \<times> 's" where
  "lock_step (t, Acquire k v ttl) s = acquire t k v ttl s"
| "lock_step (t, Release k v) s = release t k v s"

fun lock_run :: "(real \<times> 'v lock_op) list \<Rightarrow> 's \<Rightarrow> bool list \<times> 's" where
  "lock_run [] s = ([], s)"
| "lock_run (op # ops) s =
     (case lock_step op s of (b, s') \<Rightarrow> case lock_run ops s' of (bs, s'') \<Rightarrow> (b # bs, s''))"

lemma lock_step_keeps:
  assumes "entry s k = Some (v, d)" and "fst op < d" and "snd op \<noteq> Release k v"
  shows "entry (snd (lock_step op s)) k = Some (v, d)"
    and "\<forall>w ttl. snd op = Acquire k w ttl \<longrightarrow> \<not> fst (lock_step op s)"
    and "\<forall>w. snd op = Release k w \<longrightarrow> \<not> fst (lock_step op s)"
  using assms by (cases op; cases "snd op";
      auto simp: acquire_result acquire_entry release_result release_entry live_def)+

lemma lock_run_keeps:
  assumes "entry s k = Some (v, d)" and "\<forall>op \<in> set ops. fst op < d \<and> snd op \<noteq> Release k v"
  shows "entry (snd (lock_run ops s)) k = Some (v, d) \<and>
    (\<forall>i < length ops. (\<exists>w ttl. snd (ops ! i) = Acquire k w ttl) \<longrightarrow> \<not> fst (lock_run ops s) ! i)"
  using assms
proof (induction ops arbitrary: s)
  case (Cons op ops)
  obtain b s' where s': "lock_step op s = (b, s')" by fastforce
  obtain bs s'' where s'': "lock_run ops s' = (bs, s'')" by fastforce
  have "entry s' k = Some (v, d)" and b: "\<forall>w ttl. snd op = Acquire k w ttl \<longrightarrow> \<not> b"
    using lock_step_keeps [OF Cons.prems(1), of op] Cons.prems(2) s' by auto
  from Cons.IH [OF this(1)] Cons.prems(2) s''
  have "entry s'' k = Some (v, d)"
    "\<forall>i < length ops. (\<exists>w ttl. snd (ops ! i) = Acquire k w ttl) \<longrightarrow> \<not> bs ! i" by auto
  with b s' s'' show ?case by (auto simp: nth_Cons split: nat.splits)
qed simp

lemma length_lock_run [simp]: "length (fst (lock_run ops s)) = length ops"
  by (induction ops arbitrary: s) (auto split: prod.splits, metis fst_conv)

end

definition release_script_bool :: "real \<Rightarrow> string \<Rightarrow> string \<Rightarrow> keyspace \<Rightarrow> bool \<times> keyspace" where
  "release_script_bool now key token ks =
     (case release_script now key token ks of (n, ks') \<Rightarrow> (n \<noteq> 0, ks'))"

interpretation redis_lock: expiring_lock "\<lambda>ks. map_of ks" redis_set_nx_px release_script_bool
  by unfold_locales
    (auto simp: redis_set_nx_px_def release_script_bool_def release_script_def update_conv'
      delete_conv' fun_eq_iff split: option.splits)

section \<open>Properties\<close>



text \<open>Releasing is owner-checked: it deletes the key exactly when the caller's own token is live,
  and a holder whose lock expired and was taken over by another token changes nothing.\<close>

lemma release_only_own:
  "let (n, ks') = release_script now key token ks
   in (n = 1 \<and> live now (map_of ks key) = Some token \<and> map_of ks' key = None
        \<or> n = 0 \<and> live now (map_of ks key) \<noteq> Some token \<and> ks' = ks)
    \<and> (\<forall>key'. key' \<noteq> key \<longrightarrow> map_of ks' key' = map_of ks key')"
  by (simp add: release_script_def delete_conv' Let_def)

end
