(* ===== verification/Matcher.thy ===== *)
theory Matcher
  imports CandidateSearch Lock
begin

text \<open>
  The matcher (app/matching/matcher.py): unlocked discovery and ranking, then for each candidate the
  Redis lock, the re-check under the lock, the conditional UPDATE of the ride, the commit and the
  release. A loop iteration's \<open>continue\<close> is the result None of \<open>assign_candidate\<close>.
\<close>

definition ride_status_str :: "ride_status \<Rightarrow> string" where
  "ride_status_str st =
     ''RideStatus.'' @ (case st of REQUESTED \<Rightarrow> ''REQUESTED'' | MATCHED \<Rightarrow> ''MATCHED''
        | IN_PROGRESS \<Rightarrow> ''IN_PROGRESS'' | COMPLETED \<Rightarrow> ''COMPLETED'' | CANCELLED \<Rightarrow> ''CANCELLED'')"

text \<open>The body of the \<open>try ... finally\<close> that runs under a candidate's lock.\<close>

definition assign_candidate :: "ride \<Rightarrow> driver \<Rightarrow> ride option prog" where
  "assign_candidate ride candidate =
     pbind (driver_get_by_id (d_id candidate) True) (\<lambda>found.
     case found of
       None \<Rightarrow> Return None
     | Some driver \<Rightarrow>
        if d_status driver \<noteq> AVAILABLE then Return None
        else
          pbind (ask (SetDriverStatus (d_id driver) BUSY) un_unit) (\<lambda>_.
          pbind utc_now (\<lambda>now.
          pbind (transition_status (r_id ride) [REQUESTED] MATCHED
                   [DriverId (d_id driver), MatchedAt now]) (\<lambda>transitioned.
          if \<not> transitioned then
            pbind db_rollback (\<lambda>_.
            pbind (load_ride (r_id ride)) (\<lambda>ride'.
            Raise (InvalidRideStateError (''ride '' @ r_id ride' @
              '' is no longer REQUESTED (concurrently cancelled or completed?)''))))
          else
            handle db_commit
              (\<lambda>_. pbind (refresh_ride (r_id ride)) (\<lambda>ride'.
                   pbind (load_driver (d_id driver)) (\<lambda>driver'.
                   pbind (emit_event ''DRIVER_ASSIGNED''
                     [(''ride_id'', JStr (r_id ride')), (''driver_id'', JStr (d_id driver')),
                      (''pickup_lat'', JNum (pickup_lat ride')), (''pickup_lng'', JNum (pickup_lng ride'))]) (\<lambda>_.
                   Return (Some ride')))))
              (\<lambda>e. if e = IntegrityError
                   then pbind db_rollback (\<lambda>_. pbind (load_driver (d_id candidate)) (\<lambda>_. Return None))
                   else Raise e)))))"

definition acquire_driver_lock :: "settings \<Rightarrow> driver \<Rightarrow> string option prog" where
  "acquire_driver_lock cfg candidate =
     try_except (acquire_lock (lock_key (d_id candidate)) (lock_ttl_ms cfg))
       (\<lambda>e. if e = RedisConnectionError \<or> e = RedisTimeoutError
            then Raise (LockingUnavailableError (d_id candidate)) else Raise e)"

fun try_candidates :: "settings \<Rightarrow> ride \<Rightarrow> (driver \<times> real) list \<Rightarrow> ride prog" where
  "try_candidates cfg ride [] =
     pbind (emit_event ''NO_DRIVER_AVAILABLE''
       [(''ride_id'', JStr (r_id ride)), (''pickup_lat'', JNum (pickup_lat ride)),
        (''pickup_lng'', JNum (pickup_lng ride))]) (\<lambda>_.
     Raise (NoAvailableDriverError (r_id ride)))"
| "try_candidates cfg ride ((candidate, _) # rest) =
     pbind (acquire_driver_lock cfg candidate) (\<lambda>acquired.
     case acquired of
       None \<Rightarrow>
         pbind (emit_event ''LOCK_FAILED''
           [(''ride_id'', JStr (r_id ride)), (''driver_id'', JStr (d_id candidate))]) (\<lambda>_.
         pbind record_contention (\<lambda>_.
         try_candidates cfg ride rest))
     | Some token \<Rightarrow>
         pbind (emit_event ''LOCK_ACQUIRED''
           [(''ride_id'', JStr (r_id ride)), (''driver_id'', JStr (d_id candidate))]) (\<lambda>_.
         pbind (try_finally (assign_candidate ride candidate)
                  (release_lock (lock_key (d_id candidate)) token)) (\<lambda>outcome.
         case outcome of
           Some matched \<Rightarrow> Return matched
         | None \<Rightarrow> try_candidates cfg ride rest)))"

definition match_ride :: "h3_lib \<Rightarrow> settings \<Rightarrow> uuid \<Rightarrow> ride prog" where
  "match_ride h cfg ride_id =
     pbind (load_ride ride_id) (\<lambda>ride.
     if r_status ride \<noteq> REQUESTED then
       Raise (ValueError (''ride '' @ r_id ride @ '' is not in REQUESTED status (got '' @
         ride_status_str (r_status ride) @ '')''))
     else
       pbind (find_ranked_candidates h cfg (pickup_lat ride) (pickup_lng ride)
                (match_target_candidates cfg) (match_max_ring cfg)) (\<lambda>ranked.
       pbind (emit_event ''CANDIDATES_FOUND''
         [(''ride_id'', JStr (r_id ride)), (''candidate_count'', JInt (int (length ranked)))]) (\<lambda>_.
       try_candidates cfg ride ranked)))"

end
