(* ===== verification/Surge.thy ===== *)
theory Surge
  imports Repositories Config
begin

text \<open>
  Surge pricing (app/pricing/surge.py): the pure formula, and its evaluation from two unlocked counts.
\<close>

record surge_result =
  s_zone_id :: string
  s_demand :: nat
  s_supply :: nat
  multiplier :: real

definition surge_formula :: "settings \<Rightarrow> nat \<Rightarrow> nat \<Rightarrow> real" where
  "surge_formula cfg dem sply =
     (let ratio = real dem / real (max sply 1);
          raw = 1 + surge_sensitivity cfg * ratio
      in min (max raw 1) (surge_max_multiplier cfg))"

definition zone_surge :: "settings \<Rightarrow> string \<Rightarrow> real option \<Rightarrow> surge_result prog" where
  "zone_surge cfg zone_id now_arg =
     pbind (case now_arg of Some t \<Rightarrow> Return t | None \<Rightarrow> utc_now) (\<lambda>now.
     let since = now - real_of_int (surge_demand_window_seconds cfg) in
     pbind (count_recent_active_in_zone zone_id since) (\<lambda>dem.
     pbind (count_available_in_zone zone_id) (\<lambda>sply.
     Return \<lparr>s_zone_id = zone_id, s_demand = dem, s_supply = sply, multiplier = surge_formula cfg dem sply\<rparr>)))"

fun surge_of_zones :: "settings \<Rightarrow> real \<Rightarrow> string list \<Rightarrow> (string \<times> surge_result) list prog" where
  "surge_of_zones cfg now [] = Return []"
| "surge_of_zones cfg now (z # zs) =
     pbind (zone_surge cfg z (Some now)) (\<lambda>s.
     pbind (surge_of_zones cfg now zs) (\<lambda>rest. Return ((z, s) # rest)))"

definition surge_by_zone :: "settings \<Rightarrow> real option \<Rightarrow> (string \<times> surge_result) list prog" where
  "surge_by_zone cfg now_arg =
     pbind (case now_arg of Some t \<Rightarrow> Return t | None \<Rightarrow> utc_now) (\<lambda>now.
     let since = now - real_of_int (surge_demand_window_seconds cfg) in
     pbind (list_recent_zone_ids since) (\<lambda>zone_ids. surge_of_zones cfg now zone_ids))"

section \<open>The formula\<close>

text \<open>C28: the multiplier is always between 1.0 and the configured maximum; it is exactly 1.0 without
  demand; more demand never lowers it and more supply never raises it; no supply counts as one driver.\<close>

theorem surge_formula_correct:
  assumes "surge_settings_ok cfg"
  shows "1 \<le> surge_formula cfg dem sply \<and> surge_formula cfg dem sply \<le> surge_max_multiplier cfg
    \<and> surge_formula cfg 0 sply = 1
    \<and> (dem \<le> dem' \<longrightarrow> surge_formula cfg dem sply \<le> surge_formula cfg dem' sply)
    \<and> (sply \<le> sply' \<longrightarrow> surge_formula cfg dem sply' \<le> surge_formula cfg dem sply)
    \<and> surge_formula cfg dem 0 = surge_formula cfg dem 1"
proof -
  let ?r = "\<lambda>d s. surge_sensitivity cfg * (real d / real (max s 1))"
  from assms have s: "0 \<le> surge_sensitivity cfg" and m: "1 \<le> surge_max_multiplier cfg"
    by (simp_all add: surge_settings_ok_def)
  have dem: "dem \<le> dem' \<Longrightarrow> ?r dem sply \<le> ?r dem' sply"
    using s by (intro mult_left_mono divide_right_mono) auto
  have sply: "sply \<le> sply' \<Longrightarrow> ?r dem sply' \<le> ?r dem sply"
    using s by (intro mult_left_mono divide_left_mono) auto
  have "1 \<le> surge_formula cfg dem sply" "surge_formula cfg dem sply \<le> surge_max_multiplier cfg"
    "surge_formula cfg 0 sply = 1" "surge_formula cfg dem 0 = surge_formula cfg dem 1"
    using m by (simp_all add: surge_formula_def Let_def)
  moreover have "dem \<le> dem' \<Longrightarrow> surge_formula cfg dem sply \<le> surge_formula cfg dem' sply"
    using dem unfolding surge_formula_def Let_def by (intro min.mono max.mono add_left_mono) auto
  moreover have "sply \<le> sply' \<Longrightarrow> surge_formula cfg dem sply' \<le> surge_formula cfg dem sply"
    using sply unfolding surge_formula_def Let_def by (intro min.mono max.mono add_left_mono) auto
  ultimately show ?thesis by blast
qed

theorem surge_formula_correct_witness:
  "surge_formula default_settings 4 2 = 2 \<and> surge_formula default_settings 4 2 \<le> 3"
proof -
  have "surge_formula default_settings 4 2 \<le> surge_max_multiplier default_settings"
    using surge_formula_correct [OF default_surge_settings_ok] by blast
  then show ?thesis by (simp add: surge_formula_def default_settings_def)
qed

end
