(* ===== verification/RideService.thy ===== *)
theory RideService
  imports Surge Geo
begin

text \<open>
  Ride creation with idempotency keys and the two other status transitions
  (app/services/ride_service.py), as programs. A ride object is its primary key.
\<close>

definition ride_matches :: "ride \<Rightarrow> uuid \<Rightarrow> real \<Rightarrow> real \<Rightarrow> bool" where
  "ride_matches ride rider_id lat lng \<longleftrightarrow>
     r_rider_id ride = rider_id \<and> pickup_lat ride = lat \<and> pickup_lng ride = lng"

definition insert_ride :: "settings \<Rightarrow> uuid \<Rightarrow> real \<Rightarrow> real \<Rightarrow> string option \<Rightarrow> string \<Rightarrow> surge_result \<Rightarrow> uuid prog" where
  "insert_ride cfg rider_id lat lng key zone_id surge =
     handle
       (pbind (ride_create rider_id lat lng key (Some zone_id) (Some (multiplier surge))) (\<lambda>ride.
        pbind db_commit (\<lambda>_. Return (r_id ride))))
       (\<lambda>ride_id.
          pbind (load_ride ride_id) (\<lambda>_.
          pbind (emit_event ''RIDE_REQUESTED''
            [(''ride_id'', JStr ride_id), (''rider_id'', JStr rider_id), (''zone_id'', JStr zone_id),
             (''surge_multiplier'', JNum (multiplier surge)),
             (''pickup_lat'', JNum lat), (''pickup_lng'', JNum lng)]) (\<lambda>_.
          Return ride_id)))
       (\<lambda>e. if e = IntegrityError then
              pbind db_rollback (\<lambda>_.
              case key of
                None \<Rightarrow> Raise IntegrityError
              | Some k \<Rightarrow>
                  pbind (get_by_idempotency_key k) (\<lambda>winner.
                  case winner of
                    None \<Rightarrow> Raise IntegrityError
                  | Some w \<Rightarrow> Return (r_id w)))
            else Raise e)"

definition create_ride :: "h3_lib \<Rightarrow> settings \<Rightarrow> uuid \<Rightarrow> real \<Rightarrow> real \<Rightarrow> string option \<Rightarrow> uuid prog" where
  "create_ride h cfg rider_id lat lng key =
     pbind (case key of None \<Rightarrow> Return None | Some k \<Rightarrow> get_by_idempotency_key k) (\<lambda>existing.
     case existing of
       Some ride \<Rightarrow>
         if \<not> ride_matches ride rider_id lat lng
         then Raise (IdempotencyKeyConflictError (case key of Some k \<Rightarrow> k | None \<Rightarrow> []) (r_id ride))
         else Return (r_id ride)
     | None \<Rightarrow>
         let zone_id = zone_id_for_point h lat lng (surge_zone_resolution cfg) in
         pbind (zone_surge cfg zone_id None) (\<lambda>surge.
         insert_ride cfg rider_id lat lng key zone_id surge))"

definition transition_or_raise :: "uuid \<Rightarrow> ride_status list \<Rightarrow> ride_status \<Rightarrow> ride prog" where
  "transition_or_raise ride_id from_statuses to_status =
     pbind (ride_get_by_id ride_id) (\<lambda>ride.
     case ride of
       None \<Rightarrow> Raise (RideNotFoundError ride_id)
     | Some r \<Rightarrow>
         pbind (transition_status ride_id from_statuses to_status []) (\<lambda>transitioned.
         if \<not> transitioned then
           pbind db_rollback (\<lambda>_.
           pbind (ride_get_by_id ride_id) (\<lambda>current.
           let current_status = (case current of Some c \<Rightarrow> ride_status_value (r_status c) | None \<Rightarrow> ''unknown'')
           in Raise (InvalidRideStateError (''ride '' @ ride_id @ '' cannot transition to '' @
                ride_status_value to_status @ '' from its current status ('' @ current_status @ '')''))))
         else refresh_ride (r_id r)))"

definition free_driver :: "ride \<Rightarrow> unit prog" where
  "free_driver ride =
     (case r_driver_id ride of
        None \<Rightarrow> Return ()
      | Some driver_id \<Rightarrow>
          pbind (driver_get_by_id driver_id True) (\<lambda>driver.
          case driver of
            None \<Rightarrow> Return ()
          | Some d \<Rightarrow> ask (SetDriverStatus (d_id d) AVAILABLE) un_unit))"

definition finish_ride :: "ride_status list \<Rightarrow> ride_status \<Rightarrow> string \<Rightarrow> uuid \<Rightarrow> ride prog" where
  "finish_ride from_statuses to_status event_type ride_id =
     pbind (transition_or_raise ride_id from_statuses to_status) (\<lambda>ride.
     pbind (free_driver ride) (\<lambda>_.
     pbind db_commit (\<lambda>_.
     pbind (refresh_ride (r_id ride)) (\<lambda>ride.
     pbind (emit_event event_type
       [(''ride_id'', JStr (r_id ride)),
        (''driver_id'', case r_driver_id ride of Some d \<Rightarrow> JStr d | None \<Rightarrow> JNull)]) (\<lambda>_.
     Return ride)))))"

definition cancel_ride :: "uuid \<Rightarrow> ride prog" where
  "cancel_ride = finish_ride ACTIVE_RIDE_STATUSES CANCELLED ''RIDE_CANCELLED''"

definition complete_ride :: "uuid \<Rightarrow> ride prog" where
  "complete_ride = finish_ride COMPLETABLE_STATUSES COMPLETED ''RIDE_COMPLETED''"

end
