(* ===== verification/Api.thy ===== *)
theory Api
  imports Matcher RideService
begin

text \<open>
  The HTTP layer: request validation (app/schemas), the route functions (app/api), the mapping of
  exceptions to responses and the health check (app/main.py). \<open>serve\<close> is what the application does with
  one request: a program of platform calls that ends in an HTTP response.
\<close>

section \<open>Messages\<close>

text \<open>\<open>repr\<close> of a latin-1 string, which is what a header value is.\<close>

definition hex_digit :: "nat \<Rightarrow> char" where
  "hex_digit n = ''0123456789abcdef'' ! n"

definition py_repr_char :: "char \<Rightarrow> char \<Rightarrow> string" where
  "py_repr_char q c =
     (if c = q \<or> c = CHR 0x5C then [CHR 0x5C, c]
      else if c = CHR 0x09 then [CHR 0x5C, CHR ''t'']
      else if c = CHR 0x0A then [CHR 0x5C, CHR ''n'']
      else if c = CHR 0x0D then [CHR 0x5C, CHR ''r'']
      else if (of_char c :: nat) < 32 \<or> 127 \<le> (of_char c :: nat) \<and> (of_char c :: nat) \<le> 160 \<or> c = CHR 0xAD
      then [CHR 0x5C, CHR ''x'', hex_digit (of_char c div 16), hex_digit (of_char c mod 16)]
      else [c])"

definition py_repr :: "string \<Rightarrow> string" where
  "py_repr s =
     (let q = (if CHR 0x27 \<in> set s \<and> CHR 0x22 \<notin> set s then CHR 0x22 else CHR 0x27)
      in q # concat (map (py_repr_char q) s) @ [q])"

definition no_driver_message :: "uuid \<Rightarrow> string" where
  "no_driver_message ride_id = ''no available driver found for ride '' @ ride_id"

definition idempotency_message :: "string \<Rightarrow> uuid \<Rightarrow> string" where
  "idempotency_message key ride_id =
     ''idempotency key '' @ py_repr key @ '' was already used for a different ride ('' @ ride_id @
     '') with different parameters''"

section \<open>Responses\<close>

text \<open>
  The response models. Drivers and riders are returned with all their columns, surge results as they
  are; a ride without its idempotency key.
\<close>

record ride_response =
  rr_id :: uuid
  rr_rider_id :: uuid
  rr_driver_id :: "uuid option"
  rr_status :: ride_status
  rr_pickup_lat :: real
  rr_pickup_lng :: real
  rr_matched_at :: "real option"
  rr_fare :: "real option"
  rr_surge_multiplier :: "real option"
  rr_zone_id :: "string option"
  rr_created_at :: real
  rr_updated_at :: real

definition to_ride_response :: "ride \<Rightarrow> ride_response" where
  "to_ride_response r =
     \<lparr>rr_id = r_id r, rr_rider_id = r_rider_id r, rr_driver_id = r_driver_id r, rr_status = r_status r,
      rr_pickup_lat = pickup_lat r, rr_pickup_lng = pickup_lng r, rr_matched_at = matched_at r,
      rr_fare = fare r, rr_surge_multiplier = surge_multiplier r, rr_zone_id = r_zone_id r,
      rr_created_at = created_at r, rr_updated_at = updated_at r\<rparr>"

record stats_response =
  st_available_drivers :: nat
  st_busy_drivers :: nat
  st_active_rides :: nat
  st_completed_rides :: nat
  st_cancelled_rides :: nat
  st_failed_matches :: nat
  st_match_throughput_per_minute :: nat
  st_p50_latency_ms :: real
  st_p95_latency_ms :: real
  st_p99_latency_ms :: real
  st_surge_by_zone :: "(string \<times> surge_result) list"
  st_lock_contention_count :: nat
  st_db_p50_latency_ms :: real
  st_db_p95_latency_ms :: real
  st_db_p99_latency_ms :: real

datatype body =
    BDriver driver
  | BDrivers "driver list"
  | BRider rider
  | BRide ride_response
  | BSurge surge_result
  | BStats stats_response
  | BHealth string bool bool
  | BError string string

text \<open>An exception without a handler leaves the application: the server answers with a plain-text 500.\<close>

datatype http = Response int body | ServerError exn

definition error_response :: "int \<Rightarrow> string \<Rightarrow> string \<Rightarrow> http" where
  "error_response status code message = Response status (BError code message)"

fun handle_exception :: "exn \<Rightarrow> http" where
  "handle_exception (RequestValidationError text) = error_response 422 ''validation_error'' text"
| "handle_exception (HTTPException status (Some (code, message)) detail) = error_response status code message"
| "handle_exception (HTTPException status None detail) = error_response status ''http_error'' detail"
| "handle_exception (IdempotencyKeyConflictError key ride_id) =
     error_response 409 ''idempotency_key_conflict'' (idempotency_message key ride_id)"
| "handle_exception (RideNotFoundError ride_id) =
     error_response 404 ''ride_not_found'' (''ride '' @ ride_id @ '' not found'')"
| "handle_exception (InvalidRideStateError message) = error_response 409 ''invalid_ride_state'' message"
| "handle_exception (LockingUnavailableError driver_id) =
     error_response 503 ''locking_unavailable'' ''the matching coordination layer is temporarily unavailable''"
| "handle_exception IntegrityError =
     error_response 503 ''database_error'' ''a database error occurred, please retry''"
| "handle_exception OtherSQLAlchemyError =
     error_response 503 ''database_error'' ''a database error occurred, please retry''"
| "handle_exception e = ServerError e"

section \<open>Routes\<close>

definition driver_not_found :: "uuid \<Rightarrow> exn" where
  "driver_not_found driver_id =
     HTTPException 404 (Some (''driver_not_found'', ''driver '' @ driver_id @ '' not found'')) []"

definition list_drivers :: "driver_status option \<Rightarrow> driver list prog" where
  "list_drivers status = (case status of Some s \<Rightarrow> list_by_status s | None \<Rightarrow> list_all_drivers)"

definition create_driver :: "h3_lib \<Rightarrow> settings \<Rightarrow> real \<Rightarrow> real \<Rightarrow> driver prog" where
  "create_driver h cfg lat lng =
     (let h3_index = latlng_to_h3 h lat lng (h3_resolution cfg);
          zone_id = zone_id_for_point h lat lng (surge_zone_resolution cfg)
      in pbind (driver_create lat lng h3_index zone_id AVAILABLE) (\<lambda>driver.
         pbind db_commit (\<lambda>_.
         refresh_driver (d_id driver))))"

definition get_driver :: "uuid \<Rightarrow> driver prog" where
  "get_driver driver_id =
     pbind (driver_get_by_id driver_id False) (\<lambda>driver.
     case driver of None \<Rightarrow> Raise (driver_not_found driver_id) | Some d \<Rightarrow> Return d)"

definition update_driver_location :: "h3_lib \<Rightarrow> settings \<Rightarrow> uuid \<Rightarrow> real \<Rightarrow> real \<Rightarrow> driver prog" where
  "update_driver_location h cfg driver_id lat lng =
     (let h3_index = latlng_to_h3 h lat lng (h3_resolution cfg);
          zone_id = zone_id_for_point h lat lng (surge_zone_resolution cfg)
      in pbind (update_location driver_id lat lng h3_index zone_id) (\<lambda>driver.
         case driver of
           None \<Rightarrow> Raise (driver_not_found driver_id)
         | Some d \<Rightarrow> pbind db_commit (\<lambda>_. refresh_driver d)))"

definition create_rider :: "real \<Rightarrow> real \<Rightarrow> rider prog" where
  "create_rider lat lng =
     pbind (rider_create lat lng) (\<lambda>rider.
     pbind db_commit (\<lambda>_.
     refresh_rider (p_id rider)))"

definition request_ride :: "h3_lib \<Rightarrow> settings \<Rightarrow> uuid \<Rightarrow> real \<Rightarrow> real \<Rightarrow> string option \<Rightarrow> ride prog" where
  "request_ride h cfg rider_id lat lng idem_key =
     (let key = (if idem_key = Some [] then None else idem_key)
      in pbind (create_ride h cfg rider_id lat lng key) (\<lambda>ride_id.
         pbind (load_ride ride_id) (\<lambda>ride.
         if r_status ride = REQUESTED then
           pbind perf_counter (\<lambda>start.
           handle (match_ride h cfg ride_id)
             (\<lambda>matched. pbind perf_counter (\<lambda>t. pbind (record_metric OMatched (t - start)) (\<lambda>_. Return matched)))
             (\<lambda>e. case e of
                NoAvailableDriverError _ \<Rightarrow>
                  pbind perf_counter (\<lambda>t. pbind (record_metric OUnmatched (t - start)) (\<lambda>_. load_ride ride_id))
              | _ \<Rightarrow> pbind perf_counter (\<lambda>t. pbind (record_metric OError (t - start)) (\<lambda>_. Raise e))))
         else Return ride)))"

definition get_ride :: "uuid \<Rightarrow> ride prog" where
  "get_ride ride_id =
     pbind (ride_get_by_id ride_id) (\<lambda>ride.
     case ride of
       None \<Rightarrow> Raise (HTTPException 404 (Some (''ride_not_found'', ''ride '' @ ride_id @ '' not found'')) [])
     | Some r \<Rightarrow> Return r)"

definition get_zone_surge :: "settings \<Rightarrow> string \<Rightarrow> surge_result prog" where
  "get_zone_surge cfg zone_id = zone_surge cfg zone_id None"

fun sum_counts :: "ride_status list \<Rightarrow> nat prog" where
  "sum_counts [] = Return 0"
| "sum_counts (s # ss) = pbind (count_rides_by_status s) (\<lambda>n. pbind (sum_counts ss) (\<lambda>m. Return (n + m)))"

definition get_stats :: "settings \<Rightarrow> stats_response prog" where
  "get_stats cfg =
     pbind (sum_counts ACTIVE_RIDE_STATUSES) (\<lambda>active_rides.
     pbind (ask MetricsSnapshot un_snapshot) (\<lambda>metrics.
     pbind (ask DbPercentiles un_triple) (\<lambda>db_ms.
     pbind (surge_by_zone cfg None) (\<lambda>zones.
     pbind (count_drivers_by_status AVAILABLE) (\<lambda>available.
     pbind (count_drivers_by_status BUSY) (\<lambda>busy.
     pbind (count_rides_by_status COMPLETED) (\<lambda>completed.
     pbind (count_rides_by_status CANCELLED) (\<lambda>cancelled.
     Return \<lparr>st_available_drivers = available, st_busy_drivers = busy, st_active_rides = active_rides,
       st_completed_rides = completed, st_cancelled_rides = cancelled,
       st_failed_matches = failed_matches metrics,
       st_match_throughput_per_minute = match_throughput_per_minute metrics,
       st_p50_latency_ms = p50_latency_ms metrics, st_p95_latency_ms = p95_latency_ms metrics,
       st_p99_latency_ms = p99_latency_ms metrics, st_surge_by_zone = zones,
       st_lock_contention_count = lock_contention_count metrics,
       st_db_p50_latency_ms = fst db_ms, st_db_p95_latency_ms = fst (snd db_ms),
       st_db_p99_latency_ms = snd (snd db_ms)\<rparr>))))))))"

definition health :: "body prog" where
  "health =
     pbind (handle (ask DbPing un_unit) (\<lambda>_. Return True) (\<lambda>_. Return False)) (\<lambda>db_ok.
     pbind (handle (ask RedisPing un_bool) Return (\<lambda>_. Return False)) (\<lambda>redis_ok.
     Return (BHealth (if db_ok \<and> redis_ok then ''ok'' else ''degraded'') db_ok redis_ok)))"

section \<open>One request\<close>

datatype request =
    ListDrivers "driver_status option"
  | PostDriver real real
  | ReadDriver uuid
  | PatchDriverLocation uuid real real
  | PostRider real real
  | PostRide uuid real real "string option"
  | ReadRide uuid
  | CancelRide uuid
  | CompleteRide uuid
  | ReadZoneSurge string
  | ReadStats
  | ReadHealth

definition valid_point :: "real \<Rightarrow> real \<Rightarrow> bool" where
  "valid_point lat lng \<longleftrightarrow> - 90 \<le> lat \<and> lat \<le> 90 \<and> - 180 \<le> lng \<and> lng \<le> 180"

fun valid_request :: "request \<Rightarrow> bool" where
  "valid_request (PostDriver lat lng) = valid_point lat lng"
| "valid_request (PatchDriverLocation _ lat lng) = valid_point lat lng"
| "valid_request (PostRider lat lng) = valid_point lat lng"
| "valid_request (PostRide _ lat lng idem_key) =
     (valid_point lat lng \<and> (case idem_key of Some k \<Rightarrow> length k \<le> 255 | None \<Rightarrow> True))"
| "valid_request _ = True"

definition respond :: "int \<Rightarrow> ('a \<Rightarrow> body) \<Rightarrow> 'a prog \<Rightarrow> http prog" where
  "respond status f p = handle p (\<lambda>x. Return (Response status (f x))) (\<lambda>e. Return (handle_exception e))"

fun endpoint :: "h3_lib \<Rightarrow> settings \<Rightarrow> request \<Rightarrow> http prog" where
  "endpoint h cfg (ListDrivers status) = respond 200 BDrivers (list_drivers status)"
| "endpoint h cfg (PostDriver lat lng) = respond 201 BDriver (create_driver h cfg lat lng)"
| "endpoint h cfg (ReadDriver i) = respond 200 BDriver (get_driver i)"
| "endpoint h cfg (PatchDriverLocation i lat lng) = respond 200 BDriver (update_driver_location h cfg i lat lng)"
| "endpoint h cfg (PostRider lat lng) = respond 201 BRider (create_rider lat lng)"
| "endpoint h cfg (PostRide i lat lng idem_key) = respond 201 (\<lambda>r. BRide (to_ride_response r)) (request_ride h cfg i lat lng idem_key)"
| "endpoint h cfg (ReadRide i) = respond 200 (\<lambda>r. BRide (to_ride_response r)) (get_ride i)"
| "endpoint h cfg (CancelRide i) = respond 200 (\<lambda>r. BRide (to_ride_response r)) (cancel_ride i)"
| "endpoint h cfg (CompleteRide i) = respond 200 (\<lambda>r. BRide (to_ride_response r)) (complete_ride i)"
| "endpoint h cfg (ReadZoneSurge z) = respond 200 BSurge (get_zone_surge cfg z)"
| "endpoint h cfg ReadStats = respond 200 BStats (get_stats cfg)"
| "endpoint h cfg ReadHealth = respond 200 (\<lambda>b. b) health"

text \<open>The text of a validation error is the framework's: the argument \<open>vtext\<close>.\<close>

definition serve :: "h3_lib \<Rightarrow> settings \<Rightarrow> (request \<Rightarrow> string) \<Rightarrow> request \<Rightarrow> http prog" where
  "serve h cfg vtext req =
     (if valid_request req then endpoint h cfg req
      else Return (handle_exception (RequestValidationError (vtext req))))"

end
