(* ===== verification/Protocol.thy ===== *)
theory Protocol
  imports Api
begin

text \<open>
  Call protocols of the handlers. A protocol is an automaton over the calls a program makes and the
  replies it gets: \<open>allowed\<close> tells which call may be made in a state, \<open>next\<close> the state after a reply
  (None for a reply that cannot come). \<open>obeys\<close> is compositional in the program, so that a handler is
  checked from its parts. Two protocols are checked of every handler: the one of the database session,
  on which the invariants of theory Concurrency rest, and the one of the driver locks.
\<close>

section \<open>Obeying a protocol\<close>

primrec obeys ::
  "('s \<Rightarrow> call \<Rightarrow> bool) \<Rightarrow> ('s \<Rightarrow> call \<Rightarrow> reply \<Rightarrow> 's option) \<Rightarrow> 'a prog \<Rightarrow> (exn + 'a \<Rightarrow> 's \<Rightarrow> bool) \<Rightarrow> 's \<Rightarrow> bool" where
  "obeys allowed nxt (Return x) Q s = Q (Inr x) s"
| "obeys allowed nxt (Raise e) Q s = Q (Inl e) s"
| "obeys allowed nxt (Call c k) Q s =
     (allowed s c \<and> (\<forall>r. case nxt s c r of None \<Rightarrow> True | Some s' \<Rightarrow> obeys allowed nxt (k r) Q s'))"

lemma obeys_handle:
  "obeys A N (handle p f g) Q s \<longleftrightarrow>
     obeys A N p (\<lambda>res s'. case res of Inr x \<Rightarrow> obeys A N (f x) Q s' | Inl e \<Rightarrow> obeys A N (g e) Q s') s"
  by (induction p arbitrary: s) (auto split: option.split)

lemma obeys_mono:
  "obeys A N p Q s \<Longrightarrow> (\<And>res s'. Q res s' \<Longrightarrow> Q' res s') \<Longrightarrow> obeys A N p Q' s"
  by (induction p arbitrary: s) (auto split: option.split_asm option.split)

lemma obeys_pbindI:
  assumes "obeys A N p R s"
    and "\<And>x s'. R (Inr x) s' \<Longrightarrow> obeys A N (f x) Q s'"
    and "\<And>e s'. R (Inl e) s' \<Longrightarrow> Q (Inl e) s'"
  shows "obeys A N (pbind p f) Q s"
  unfolding pbind_def obeys_handle using assms(1) by (rule obeys_mono) (auto split: sum.split intro: assms)

lemma obeys_handleI:
  assumes "obeys A N p R s"
    and "\<And>x s'. R (Inr x) s' \<Longrightarrow> obeys A N (f x) Q s'"
    and "\<And>e s'. R (Inl e) s' \<Longrightarrow> obeys A N (g e) Q s'"
  shows "obeys A N (handle p f g) Q s"
  unfolding obeys_handle using assms(1) by (rule obeys_mono) (auto split: sum.split intro: assms)

lemma obeys_try_finallyI:
  assumes "obeys A N p R s"
    and "\<And>res s'. R res s' \<Longrightarrow> obeys A N q (\<lambda>fin s''. case fin of Inr _ \<Rightarrow> Q res s'' | Inl e \<Rightarrow> Q (Inl e) s'') s'"
  shows "obeys A N (try_finally p q) Q s"
  unfolding try_finally_def
  by (rule obeys_handleI [OF assms(1)];
      rule obeys_pbindI [OF assms(2)]; auto)

text \<open>A single call: its outcomes are the projected reply, what the callee raised, and the complaint
  about a reply of another type.\<close>

definition ask_result :: "(reply \<Rightarrow> 'a option) \<Rightarrow> reply \<Rightarrow> exn + 'a" where
  "ask_result proj r =
     (case r of RExn e \<Rightarrow> Inl e
      | _ \<Rightarrow> (case proj r of Some x \<Rightarrow> Inr x | None \<Rightarrow> Inl (ValueError ''ill-typed reply'')))"

lemma obeys_ask:
  "obeys A N (ask c proj) Q s \<longleftrightarrow>
     A s c \<and> (\<forall>r s'. N s c r = Some s' \<longrightarrow> Q (ask_result proj r) s')"
proof -
  have "obeys A N (case r of RExn e \<Rightarrow> Raise e
     | _ \<Rightarrow> (case proj r of Some x \<Rightarrow> Return x | None \<Rightarrow> Raise (ValueError ''ill-typed reply''))) Q s'
     = Q (ask_result proj r) s'" for r s'
    by (cases r; cases "proj r") (simp_all add: ask_result_def)
  then show ?thesis by (auto simp: ask_def split: option.split)
qed

lemma obeys_askI:
  assumes "A s c" and "\<And>r s'. N s c r = Some s' \<Longrightarrow> Q (ask_result proj r) s'"
  shows "obeys A N (ask c proj) Q s"
  using assms by (simp add: obeys_ask)

text \<open>What a protocol that the program obeys says of each of its traces.\<close>

fun protocol_run ::
  "('s \<Rightarrow> call \<Rightarrow> bool) \<Rightarrow> ('s \<Rightarrow> call \<Rightarrow> reply \<Rightarrow> 's option) \<Rightarrow> 's \<Rightarrow> (call \<times> reply) list \<Rightarrow> 's option" where
  "protocol_run allowed nxt s [] = Some s"
| "protocol_run allowed nxt s ((c, r) # t) =
     (if allowed s c then Option.bind (nxt s c r) (\<lambda>s'. protocol_run allowed nxt s' t) else None)"

lemma obeys_trace:
  assumes "trace p t res" and "obeys A N p Q s"
    and "\<And>c r s. (c, r) \<in> set t \<Longrightarrow> N s c r \<noteq> None"
  shows "\<exists>s'. protocol_run A N s t = Some s' \<and> Q res s'"
  using assms
proof (induction arbitrary: s rule: trace.induct)
  case (trace_call k r t res c)
  obtain s' where s': "N s c r = Some s'" using trace_call.prems(2) by fastforce
  with trace_call.prems(1) have "obeys A N (k r) Q s'" and A: "A s c" by (auto dest: spec [of _ r])
  from trace_call.IH [OF this(1)] show ?case using s' A trace_call.prems(2) by simp
qed simp_all

lemma protocol_run_append:
  "protocol_run A N s (t1 @ t2) = Option.bind (protocol_run A N s t1) (\<lambda>s'. protocol_run A N s' t2)"
  by (induction A N s t1 rule: protocol_run.induct) (auto split: bind_splits)

text \<open>Rows carry the key they were asked for.\<close>

definition keyed_reply :: "call \<Rightarrow> reply \<Rightarrow> bool" where
  "keyed_reply c r =
     (case (c, r) of
        (GetDriver d _, RDriver (Some x)) \<Rightarrow> d_id x = d
      | (GetRide i, RRide (Some x)) \<Rightarrow> r_id x = i
      | (RefreshRide i, RRide (Some x)) \<Rightarrow> r_id x = i
      | _ \<Rightarrow> True)"

definition keyed_trace :: "(call \<times> reply) list \<Rightarrow> bool" where
  "keyed_trace t \<longleftrightarrow> list_all (\<lambda>(c, r). keyed_reply c r) t"

lemma keyed_traceD: "keyed_trace t \<Longrightarrow> (c, r) \<in> set t \<Longrightarrow> keyed_reply c r"
  by (auto simp: keyed_trace_def list_all_iff)

fun database_call :: "call \<Rightarrow> bool" where
  "database_call (RedisSetNxPx _ _ _) = False"
| "database_call (RedisRunRelease _ _) = False"
| "database_call RedisPing = False"
| "database_call Uuid4 = False"
| "database_call UtcNow = False"
| "database_call PerfCounter = False"
| "database_call (Emit _ _) = False"
| "database_call (RecordMatch _ _) = False"
| "database_call RecordLockContention = False"
| "database_call MetricsSnapshot = False"
| "database_call DbPercentiles = False"
| "database_call _ = True"

fun is_redis_call :: "call \<Rightarrow> bool" where
  "is_redis_call (RedisSetNxPx _ _ _) = True"
| "is_redis_call (RedisRunRelease _ _) = True"
| "is_redis_call RedisPing = True"
| "is_redis_call _ = False"

text \<open>
  The replies a dependency can give: of the type of the call, with the key asked for; a database call
  raises an SQLAlchemy error, a Redis command a Redis error, and nothing else raises.
\<close>

fun typed_reply :: "call \<Rightarrow> reply \<Rightarrow> bool" where
  "typed_reply c (RExn e) =
     ((database_call c \<and> is_sqlalchemy_error e) \<or> (is_redis_call c \<and> is_redis_error e))"
| "typed_reply c r =
     (case c of
        SelectDrivers _ \<Rightarrow> un_drivers r \<noteq> None
      | CountDrivers _ \<Rightarrow> un_nat r \<noteq> None
      | SelectRides _ \<Rightarrow> un_rides r \<noteq> None
      | CountRides _ \<Rightarrow> un_nat r \<noteq> None
      | SelectRideZones _ \<Rightarrow> un_strs r \<noteq> None
      | GetDriver _ _ \<Rightarrow> un_driver r \<noteq> None
      | GetRide _ \<Rightarrow> un_ride r \<noteq> None
      | GetRider _ \<Rightarrow> un_rider r \<noteq> None
      | InsertDriver _ _ _ _ _ \<Rightarrow> (\<exists>x. r = RDriver (Some x))
      | InsertRider _ _ \<Rightarrow> (\<exists>x. r = RRider (Some x))
      | InsertRide _ _ _ _ _ _ \<Rightarrow> (\<exists>x. r = RRide (Some x))
      | UpdateRide _ _ _ _ \<Rightarrow> un_nat r \<noteq> None
      | RefreshDriver _ \<Rightarrow> un_driver r \<noteq> None
      | RefreshRide _ \<Rightarrow> un_ride r \<noteq> None
      | RefreshRider _ \<Rightarrow> un_rider r \<noteq> None
      | RedisSetNxPx _ _ _ \<Rightarrow> un_bool r \<noteq> None
      | RedisRunRelease _ _ \<Rightarrow> un_nat r \<noteq> None
      | RedisPing \<Rightarrow> un_bool r \<noteq> None
      | Uuid4 \<Rightarrow> un_str r \<noteq> None
      | UtcNow \<Rightarrow> un_real r \<noteq> None
      | PerfCounter \<Rightarrow> un_real r \<noteq> None
      | MetricsSnapshot \<Rightarrow> un_snapshot r \<noteq> None
      | DbPercentiles \<Rightarrow> un_triple r \<noteq> None
      | _ \<Rightarrow> r = RUnit)"

definition plausible :: "call \<Rightarrow> reply \<Rightarrow> bool" where
  "plausible c r \<longleftrightarrow> keyed_reply c r \<and> typed_reply c r"

definition plausible_trace :: "(call \<times> reply) list \<Rightarrow> bool" where
  "plausible_trace t \<longleftrightarrow> list_all (\<lambda>(c, r). plausible c r) t"

lemma plausible_keyed: "plausible_trace t \<Longrightarrow> keyed_trace t"
  by (auto simp: plausible_trace_def keyed_trace_def plausible_def list_all_iff)

section \<open>The protocol of a database session\<close>

text \<open>
  The phases of a request's transaction. \<open>Seen d\<close>: driver \<open>d\<close> was just read as AVAILABLE; \<open>Claimed d\<close>:
  it is set BUSY in the session; \<open>Assigned r d\<close>: ride \<open>r\<close> was also updated to MATCHED with \<open>d\<close>;
  \<open>Ended r\<close>: ride \<open>r\<close> was updated to a terminal status; \<open>Finished r x\<close>: and its driver column was read;
  \<open>Found r d\<close>: and that driver; \<open>Freeing r d\<close>: and set AVAILABLE.
\<close>

datatype phase =
    Idle
  | Seen uuid
  | Claimed uuid
  | Assigned uuid uuid
  | Ended uuid
  | Finished uuid "uuid option"
  | Found uuid uuid
  | Freeing uuid uuid
  | NewRide
  | NewDriver
  | NewRider
  | Moved uuid
  | Broken

definition ends_ride :: "ride_status list \<Rightarrow> ride_status \<Rightarrow> bool" where
  "ends_ride from_st to_st \<longleftrightarrow>
     (to_st = CANCELLED \<or> to_st = COMPLETED) \<and> (\<forall>st \<in> set from_st. lifecycle st to_st)"

fun is_match_values :: "uuid \<Rightarrow> ride_value list \<Rightarrow> bool" where
  "is_match_values d [DriverId d', MatchedAt _] = (d' = d)"
| "is_match_values d _ = False"

definition tx_allowed :: "phase \<Rightarrow> call \<Rightarrow> bool" where
  "tx_allowed p c =
     (p = Broken \<or>
      (case c of
         GetDriver d fresh \<Rightarrow> fresh \<longrightarrow> p = Idle \<or> (\<exists>d'. p = Seen d') \<or> (\<exists>r. p = Finished r (Some d))
       | SetDriverStatus d st \<Rightarrow>
           (st = BUSY \<and> p = Seen d) \<or> (st = AVAILABLE \<and> (\<exists>r. p = Found r d))
       | SetDriverLocation d _ _ _ _ \<Rightarrow> p = Idle
       | SetRideStatus _ _ \<Rightarrow> False
       | InsertDriver _ _ _ _ st \<Rightarrow> p = Idle \<and> st = AVAILABLE
       | InsertRider _ _ \<Rightarrow> p = Idle
       | InsertRide _ _ _ _ _ _ \<Rightarrow> p = Idle
       | Flush \<Rightarrow> p = Idle \<or> (\<exists>d. p = Moved d)
       | UpdateRide i from_st to_st vals \<Rightarrow>
           (\<exists>d. p = Claimed d \<and> from_st = [REQUESTED] \<and> to_st = MATCHED \<and> is_match_values d vals)
           \<or> (p = Idle \<and> ends_ride from_st to_st \<and> vals = [])
       | Commit \<Rightarrow>
           p = Idle \<or> (\<exists>r d. p = Assigned r d) \<or> (\<exists>r. p = Finished r None) \<or> (\<exists>r d. p = Freeing r d)
           \<or> p = NewRide \<or> p = NewDriver \<or> p = NewRider \<or> (\<exists>d. p = Moved d)
       | RefreshDriver _ \<Rightarrow> p = Idle
       | _ \<Rightarrow> True))"

text \<open>The phase after a reply that is no exception. Rows carry the key they were asked for, and the
  driver of an active ride is there.\<close>

definition tx_reply :: "phase \<Rightarrow> call \<Rightarrow> reply \<Rightarrow> phase option" where
  "tx_reply p c r =
     (case c of
        GetDriver d fresh \<Rightarrow>
          (case r of
             RDriver (Some x) \<Rightarrow>
               if d_id x \<noteq> d then None
               else if \<not> fresh then Some p
               else (case p of
                       Finished i (Some _) \<Rightarrow> Some (Found i d)
                     | _ \<Rightarrow> Some (if d_status x = AVAILABLE then Seen d else Idle))
           | _ \<Rightarrow> if \<not> fresh then Some p
                  else (case p of Finished i (Some _) \<Rightarrow> None | _ \<Rightarrow> Some Idle))
      | GetRide i \<Rightarrow>
          (case r of RRide (Some x) \<Rightarrow> if r_id x \<noteq> i then None else Some p | _ \<Rightarrow> Some p)
      | SetDriverStatus d st \<Rightarrow>
          (case p of Found i _ \<Rightarrow> Some (Freeing i d) | _ \<Rightarrow> Some (Claimed d))
      | SetDriverLocation d _ _ _ _ \<Rightarrow> Some (Moved d)
      | InsertDriver _ _ _ _ _ \<Rightarrow> Some NewDriver
      | InsertRider _ _ \<Rightarrow> Some NewRider
      | InsertRide _ _ _ _ _ _ \<Rightarrow> Some NewRide
      | UpdateRide i _ _ _ \<Rightarrow>
          (case r of
             RNat n \<Rightarrow> if n = 0 then Some p
                       else (case p of Claimed d \<Rightarrow> Some (Assigned i d) | _ \<Rightarrow> Some (Ended i))
           | _ \<Rightarrow> None)
      | RefreshRide i \<Rightarrow>
          (case r of
             RRide (Some x) \<Rightarrow>
               if r_id x \<noteq> i then None
               else (case p of Ended j \<Rightarrow> Some (if i = j then Finished j (r_driver_id x) else p) | _ \<Rightarrow> Some p)
           | _ \<Rightarrow> Some p)
      | Commit \<Rightarrow> Some Idle
      | Rollback \<Rightarrow> Some Idle
      | _ \<Rightarrow> Some p)"

definition tx_next :: "phase \<Rightarrow> call \<Rightarrow> reply \<Rightarrow> phase option" where
  "tx_next p c r =
     (if \<not> database_call c then Some p
      else if p = Broken
      then (case r of RExn _ \<Rightarrow> Some Broken | _ \<Rightarrow> if c = Rollback then Some Idle else None)
      else (case r of RExn _ \<Rightarrow> Some Broken | _ \<Rightarrow> tx_reply p c r))"

abbreviation tx :: "'a prog \<Rightarrow> (exn + 'a \<Rightarrow> phase \<Rightarrow> bool) \<Rightarrow> phase \<Rightarrow> bool" where
  "tx \<equiv> obeys tx_allowed tx_next"

section \<open>Programs that only read\<close>

fun is_reading :: "call \<Rightarrow> bool" where
  "is_reading (GetDriver _ fresh) = (\<not> fresh)"
| "is_reading (SelectDrivers _) = True"
| "is_reading (CountDrivers _) = True"
| "is_reading (SelectRides _) = True"
| "is_reading (CountRides _) = True"
| "is_reading (SelectRideZones _) = True"
| "is_reading (GetRide _) = True"
| "is_reading (GetRider _) = True"
| "is_reading (RefreshRider _) = True"
| "is_reading DbPing = True"
| "is_reading c = (\<not> database_call c)"

text \<open>A calm program leaves the phase as it was, except that a failed statement may break the session.\<close>

definition calm :: "'a prog \<Rightarrow> bool" where
  "calm p \<longleftrightarrow> (\<forall>s. tx p (\<lambda>res s'. s' = s \<or> (s' = Broken \<and> (\<exists>e. res = Inl e))) s)"

named_theorems calm_intros \<open>the programs that only read\<close>

lemma reading_next:
  assumes "is_reading c" "tx_next s c r = Some s'"
  shows "s' = s \<or> (s' = Broken \<and> (\<exists>e. r = RExn e))"
  using assms by (cases c) (auto simp: tx_next_def tx_reply_def split: if_splits reply.splits option.splits)

lemma reading_allowed: "is_reading c \<Longrightarrow> tx_allowed s c"
  by (cases c) (auto simp: tx_allowed_def)

lemma ask_result_exn [simp]: "ask_result proj (RExn e) = Inl e"
  by (simp add: ask_result_def)

lemma calm_ask [calm_intros]: "is_reading c \<Longrightarrow> calm (ask c proj)"
  unfolding calm_def
  by (intro allI obeys_askI reading_allowed) (assumption, auto dest: reading_next)

lemma calm_Return [calm_intros]: "calm (Return x)" and calm_Raise [calm_intros]: "calm (Raise e)"
  by (simp_all add: calm_def)

lemma calmD: "calm p \<Longrightarrow> tx p (\<lambda>res s'. s' = s \<or> (s' = Broken \<and> (\<exists>e. res = Inl e))) s"
  by (simp add: calm_def)

lemma calm_pbind [calm_intros]: "calm p \<Longrightarrow> (\<And>x. calm (f x)) \<Longrightarrow> calm (pbind p f)"
  unfolding calm_def by (fastforce intro: obeys_pbindI)

lemma calm_handle_Raise [calm_intros]:
  assumes p: "calm p" and f: "\<And>x. calm (f x)" and g: "\<And>e. \<exists>e'. g e = Raise e'"
  shows "calm (handle p f g)"
proof -
  have "tx (g e) (\<lambda>res s''. s'' = s \<or> (s'' = Broken \<and> (\<exists>e. res = Inl e))) s'"
    if "s' = s \<or> s' = Broken" for e s s'
    using g [of e] that by auto
  then show ?thesis
    unfolding calm_def using calmD [OF f]
    by (intro allI obeys_handleI [OF calmD [OF p]]) auto
qed

lemma calm_Call [calm_intros]: "\<not> database_call c \<Longrightarrow> (\<And>r. calm (k r)) \<Longrightarrow> calm (Call c k)"
  using reading_allowed [of c] by (cases c) (auto simp: calm_def tx_next_def tx_allowed_def)

lemma calm_must_exist [calm_intros]: "calm p \<Longrightarrow> calm (must_exist p)"
  unfolding must_exist_def by (auto intro!: calm_intros split: option.split)

lemma calm_emit [calm_intros]: "calm (emit_event ty data)"
  and calm_record_metric [calm_intros]: "calm (record_metric oc secs)"
  and calm_record_contention [calm_intros]: "calm record_contention"
  unfolding emit_event_def record_metric_def record_contention_def
  by (auto intro!: calm_intros)

lemma calm_queries [calm_intros]:
  "calm (driver_get_by_id i False)" "calm (ride_get_by_id i)" "calm (list_by_status st)"
  "calm list_all_drivers" "calm (list_available_in_cells cells)" "calm (count_available_in_zone z)"
  "calm (count_drivers_by_status st)" "calm (get_by_idempotency_key k)" "calm (count_recent_active_in_zone z since)"
  "calm (count_rides_by_status rst)" "calm (list_recent_zone_ids since)" "calm (rider_get_by_id i)"
  "calm (list_active_for_driver i)"
  unfolding repo_defs by (auto intro!: calm_intros split: list.split)

lemma calm_zone_surge [calm_intros]: "calm (zone_surge cfg z now)"
  unfolding zone_surge_def Let_def by (cases now) (auto intro!: calm_intros)

lemma calm_surge_of_zones [calm_intros]: "calm (surge_of_zones cfg now zs)"
  by (induction zs) (auto intro!: calm_intros)

lemma calm_surge_by_zone [calm_intros]: "calm (surge_by_zone cfg now)"
  unfolding surge_by_zone_def Let_def by (cases now) (auto intro!: calm_intros)

lemma calm_sum_counts [calm_intros]: "calm (sum_counts ss)"
  by (induction ss) (auto intro!: calm_intros)

lemma calm_search_rings [calm_intros]: "calm (search_rings h cell target ks found)"
  by (induction ks arbitrary: found) (auto simp: Let_def intro!: calm_intros split: sum.split)

lemma calm_find_ranked_candidates [calm_intros]: "calm (find_ranked_candidates h cfg lat lng target max_ring)"
  unfolding find_ranked_candidates_def Let_def by (intro calm_intros)

lemma calm_locks [calm_intros]:
  "calm (acquire_lock k ttl)" "calm (release_lock k token)" "calm (acquire_driver_lock cfg d)"
  unfolding acquire_lock_def release_lock_def acquire_driver_lock_def try_except_def
  by (auto intro!: calm_intros)

section \<open>The handlers obey the session protocol\<close>

text \<open>A program that ends its transaction: on a result the session is idle again.\<close>

definition ends_idle :: "exn + 'a \<Rightarrow> phase \<Rightarrow> bool" where
  "ends_idle res s \<longleftrightarrow> (case res of Inr _ \<Rightarrow> s = Idle | Inl _ \<Rightarrow> True)"

lemma ends_idle_simps [simp]: "ends_idle (Inr x) s \<longleftrightarrow> s = Idle" "ends_idle (Inl e) s"
  by (simp_all add: ends_idle_def)

lemma calm_idle: "calm p \<Longrightarrow> tx p ends_idle Idle"
  by (rule obeys_mono [OF calmD]) (auto simp: ends_idle_def split: sum.split)

lemma idle_pbind: "tx p ends_idle Idle \<Longrightarrow> (\<And>x. tx (f x) ends_idle Idle) \<Longrightarrow> tx (pbind p f) ends_idle Idle"
  by (erule obeys_pbindI) auto

text \<open>A calm step in the middle of a transaction.\<close>

lemma calm_then:
  assumes "calm p" and "\<And>x. tx (f x) ends_idle s"
  shows "tx (pbind p f) ends_idle s"
  by (rule obeys_pbindI [OF calmD [OF assms(1)]]) (use assms(2) in auto)

text \<open>A call in the middle of a transaction; what it raises may end it anyhow.\<close>

lemma ask_then:
  assumes "tx_allowed s c"
    and "\<And>r s' x. tx_next s c r = Some s' \<Longrightarrow> ask_result proj r = Inr x \<Longrightarrow> tx (f x) ends_idle s'"
  shows "tx (pbind (ask c proj) f) ends_idle s"
proof (rule obeys_pbindI)
  show "tx (ask c proj) (\<lambda>res s'. \<exists>r. tx_next s c r = Some s' \<and> ask_result proj r = res) s"
    using assms(1) by (auto intro: obeys_askI)
qed (use assms(2) in auto)

lemma commit_then:
  assumes "tx_allowed s Commit" and "tx (f ()) ends_idle Idle"
  shows "tx (pbind db_commit f) ends_idle s"
  by (rule ask_then [OF assms(1)])
    (use assms(2) in \<open>auto simp: tx_next_def tx_reply_def ask_result_def split: if_splits reply.splits option.splits\<close>)

lemma rollback_then:
  assumes "\<And>x. tx (f x) ends_idle Idle"
  shows "tx (pbind db_rollback f) ends_idle s"
  by (rule ask_then)
    (use assms in \<open>auto simp: tx_allowed_def tx_next_def tx_reply_def ask_result_def
       split: if_splits reply.splits option.splits\<close>)

lemma ask_result_Inr: "ask_result proj r = Inr x \<Longrightarrow> proj r = Some x \<and> (\<forall>e. r \<noteq> RExn e)"
  by (auto simp: ask_result_def split: reply.splits option.splits)

lemma un_reply_Some:
  "un_unit r = Some u \<Longrightarrow> r = RUnit" "un_nat r = Some n \<Longrightarrow> r = RNat n"
  "un_driver r = Some d \<Longrightarrow> r = RDriver d" "un_ride r = Some x \<Longrightarrow> r = RRide x"
  "un_rider r = Some y \<Longrightarrow> r = RRider y"
  by (cases r; simp)+

lemmas reply_simps = tx_allowed_def tx_next_def tx_reply_def

text \<open>Reading a driver under the lock, and its outcomes.\<close>

lemma fresh_driver_then:
  assumes "tx (f None) ends_idle Idle"
    and "\<And>x. d_id x = d \<Longrightarrow> d_status x \<noteq> AVAILABLE \<Longrightarrow> tx (f (Some x)) ends_idle Idle"
    and "\<And>x. d_id x = d \<Longrightarrow> d_status x = AVAILABLE \<Longrightarrow> tx (f (Some x)) ends_idle (Seen d)"
  shows "tx (pbind (driver_get_by_id d True) f) ends_idle Idle"
  unfolding driver_get_by_id_def
  by (rule ask_then)
    (use assms in \<open>auto simp: reply_simps dest!: ask_result_Inr un_reply_Some split: if_splits option.splits\<close>)

lemma claim_then:
  "tx (f ()) ends_idle (Claimed d) \<Longrightarrow> tx (pbind (ask (SetDriverStatus d BUSY) un_unit) f) ends_idle (Seen d)"
  by (rule ask_then) (auto simp: reply_simps dest!: ask_result_Inr un_reply_Some)

lemma match_then:
  assumes "tx (f False) ends_idle (Claimed d)" and "tx (f True) ends_idle (Assigned i d)"
  shows "tx (pbind (transition_status i [REQUESTED] MATCHED [DriverId d, MatchedAt now]) f) ends_idle (Claimed d)"
  unfolding transition_status_def pbind_assoc
  by (rule ask_then)
    (use assms in \<open>auto simp: reply_simps dest!: ask_result_Inr un_reply_Some split: if_splits\<close>)

lemma commit_handle:
  assumes ok: "tx_allowed s Commit" and "tx (f ()) ends_idle Idle" and "\<And>e s'. tx (g e) ends_idle s'"
  shows "tx (handle db_commit f g) ends_idle s"
proof (rule obeys_handleI)
  show "tx db_commit (\<lambda>res s'. (\<exists>u. res = Inr u) \<longrightarrow> s' = Idle) s"
    using ok by (auto intro!: obeys_askI simp: reply_simps dest!: ask_result_Inr un_reply_Some
        split: if_splits reply.splits)
qed (use assms(2,3) in auto)

lemma refresh_ride_then:
  assumes "\<And>x. tx (f x) ends_idle Idle"
  shows "tx (pbind (refresh_ride i) f) ends_idle Idle"
  unfolding must_exist_def pbind_assoc
  by (rule ask_then) (use assms in \<open>auto simp: reply_simps dest!: ask_result_Inr un_reply_Some
      split: if_splits option.splits\<close>)

lemma refresh_driver_idle: "tx (refresh_driver i) ends_idle Idle"
  unfolding must_exist_def
  by (rule ask_then) (auto simp: reply_simps split: option.splits if_splits reply.splits)

lemma tx_assign_candidate: "tx (assign_candidate ride cand) ends_idle Idle"
  unfolding assign_candidate_def
  apply (rule fresh_driver_then; simp)
  apply (rule claim_then)
  apply (rule calm_then, intro calm_intros, simp)
  apply (rule match_then; simp)
   apply (intro rollback_then)
   apply (rule calm_then, intro calm_intros; simp)
  apply (rule commit_handle)
    apply (simp add: tx_allowed_def)
   apply (intro refresh_ride_then calm_idle calm_intros; simp)
  apply (simp; intro impI rollback_then calm_idle calm_intros; simp)
  done

lemma tx_try_candidates: "tx (try_candidates cfg ride ranked) ends_idle Idle"
proof (induction ranked)
  case Nil
  show ?case unfolding try_candidates.simps by (intro calm_idle calm_intros)
next
  case (Cons c rest)
  obtain d x where c: "c = (d, x)" by fastforce
  have locked: "tx (try_finally (assign_candidate ride d) (release_lock (lock_key (d_id d)) token)) ends_idle Idle"
    for token
  proof (rule obeys_try_finallyI [OF tx_assign_candidate])
    fix res s' assume "ends_idle res s'"
    then show "tx (release_lock (lock_key (d_id d)) token)
        (\<lambda>fin s''. case fin of Inr _ \<Rightarrow> ends_idle res s'' | Inl e \<Rightarrow> ends_idle (Inl e) s'') s'"
      by (intro obeys_mono [OF calmD [OF calm_locks(2)]]) (auto split: sum.split)
  qed
  have matched: "tx (case outcome of Some matched \<Rightarrow> Return matched | None \<Rightarrow> try_candidates cfg ride rest)
      ends_idle Idle" for outcome
    using Cons by (simp split: option.split)
  have "tx (pbind (emit_event ''LOCK_FAILED'' data) (\<lambda>_. pbind record_contention (\<lambda>_.
      try_candidates cfg ride rest))) ends_idle Idle" for data
    by (intro calm_then calm_intros Cons)
  moreover have "tx (pbind (emit_event ''LOCK_ACQUIRED'' data) (\<lambda>_.
      pbind (try_finally (assign_candidate ride d) (release_lock (lock_key (d_id d)) token)) (\<lambda>outcome.
      case outcome of Some matched \<Rightarrow> Return matched | None \<Rightarrow> try_candidates cfg ride rest))) ends_idle Idle"
    for data token
    by (rule calm_then [OF calm_emit]) (intro idle_pbind locked matched)
  ultimately show ?case
    unfolding c try_candidates.simps by (intro calm_then [OF calm_locks(3)]) (simp split: option.split)
qed

lemma tx_match_ride: "tx (match_ride h cfg ride_id) ends_idle Idle"
  unfolding match_ride_def
  by (rule calm_then, intro calm_intros, simp)
    (auto intro!: calm_then [OF calm_find_ranked_candidates] calm_then [OF calm_emit] tx_try_candidates)

lemma insert_then:
  assumes "tx_allowed s c" and "\<And>r s'. tx_next s c r = Some s' \<Longrightarrow> (\<forall>e. r \<noteq> RExn e) \<Longrightarrow> s' = s''"
    and "\<And>x. tx (f x) ends_idle s''"
  shows "tx (pbind (must_exist (ask c proj)) f) ends_idle s"
  unfolding must_exist_def pbind_assoc
  by (rule ask_then [OF assms(1)]) (use assms(2,3) in \<open>auto dest: ask_result_Inr split: option.split\<close>)

lemma tx_insert_ride: "tx (insert_ride cfg rider lat lng key zone surge) ends_idle Idle"
  unfolding insert_ride_def
proof (rule obeys_handleI)
  show "tx (pbind (ride_create rider lat lng key (Some zone) (Some (multiplier surge)))
      (\<lambda>ride. pbind db_commit (\<lambda>_. Return (r_id ride)))) ends_idle Idle"
    unfolding ride_create_def
    by (rule insert_then [where s'' = NewRide])
      (auto simp: reply_simps split: reply.splits intro!: commit_then)
next
  fix e :: exn and s'
  show "tx (if e = IntegrityError then
              pbind db_rollback (\<lambda>_.
              case key of
                None \<Rightarrow> Raise IntegrityError
              | Some k \<Rightarrow>
                  pbind (get_by_idempotency_key k) (\<lambda>winner.
                  case winner of
                    None \<Rightarrow> Raise IntegrityError
                  | Some w \<Rightarrow> Return (r_id w)))
            else Raise e) ends_idle s'"
    by (auto intro!: rollback_then calm_then [OF calm_queries(8)] split: option.split)
qed (simp, intro calm_idle calm_intros, simp)

lemma tx_create_ride: "tx (create_ride h cfg rider lat lng key) ends_idle Idle"
  unfolding create_ride_def Let_def
  by (cases key)
    (auto intro!: calm_then [OF calm_queries(8)] calm_then [OF calm_zone_surge] tx_insert_ride split: option.split)

text \<open>Ending a ride: the refreshed row tells which driver the commit must free.\<close>

lemma ride_by_id_then:
  assumes "tx (f None) Q Idle" and "\<And>x. r_id x = i \<Longrightarrow> tx (f (Some x)) Q Idle" and "\<And>e s. Q (Inl e) s"
  shows "tx (pbind (ride_get_by_id i) f) Q Idle"
  unfolding ride_get_by_id_def
proof (rule obeys_pbindI)
  show "tx (ask (GetRide i) un_ride)
      (\<lambda>res s. case res of Inr None \<Rightarrow> s = Idle | Inr (Some x) \<Rightarrow> s = Idle \<and> r_id x = i | Inl _ \<Rightarrow> True) Idle"
    by (rule obeys_askI)
      (auto simp: reply_simps ask_result_def split: if_splits reply.splits option.splits)
next
  fix x :: "ride option" and s' assume "case Inr x of Inr None \<Rightarrow> s' = Idle | Inr (Some x) \<Rightarrow> s' = Idle \<and> r_id x = i | Inl _ \<Rightarrow> True"
  then show "tx (f x) Q s'" using assms(1,2) by (cases x) auto
qed (rule assms(3))

lemma tx_transition_or_raise:
  assumes "ends_ride from_st to_st"
  shows "tx (transition_or_raise ride_id from_st to_st)
    (\<lambda>res s. case res of Inr r \<Rightarrow> s = Finished ride_id (r_driver_id r) | Inl _ \<Rightarrow> True) Idle"
    (is "tx _ ?Q Idle")
proof -
  have refresh: "tx (refresh_ride ride_id) ?Q (Ended ride_id)"
    unfolding must_exist_def
    by (rule obeys_pbindI [where R = "\<lambda>res s. case res of Inr (Some r) \<Rightarrow> s = Finished ride_id (r_driver_id r) | _ \<Rightarrow> True"])
      (auto intro!: obeys_askI simp: reply_simps ask_result_def split: if_splits reply.splits option.splits)
  have rejected: "tx (pbind db_rollback (\<lambda>_. pbind (ride_get_by_id ride_id) (\<lambda>current.
      let current_status = (case current of Some c \<Rightarrow> ride_status_value (r_status c) | None \<Rightarrow> ''unknown'')
      in Raise (msg current_status)))) ?Q Idle" for msg
    by (rule obeys_pbindI [where R = "\<lambda>res s. True"]; (rule obeys_askI)?)
      (auto simp: tx_allowed_def ride_get_by_id_def Let_def intro!: obeys_pbindI obeys_askI)
  have update: "tx (pbind (transition_status ride_id from_st to_st []) (\<lambda>b. if \<not> b then f else refresh_ride ride_id))
      ?Q Idle" if "tx f ?Q Idle" for f
    unfolding transition_status_def pbind_assoc
  proof (rule obeys_pbindI)
    show "tx (ask (UpdateRide ride_id from_st to_st []) un_nat)
        (\<lambda>res s. case res of Inr n \<Rightarrow> s = (if n = 0 then Idle else Ended ride_id) | Inl _ \<Rightarrow> True) Idle"
      using assms by (auto intro!: obeys_askI simp: reply_simps ask_result_def split: if_splits reply.splits)
  qed (use that refresh in \<open>auto split: if_splits\<close>)
  show ?thesis
    unfolding transition_or_raise_def
    apply (rule ride_by_id_then)
      apply simp
     apply (simp only: option.case)
     apply (rule update [OF rejected])
    apply simp
    done
qed

lemma tx_finish_ride:
  assumes "ends_ride from_st to_st"
  shows "tx (finish_ride from_st to_st ev ride_id) ends_idle Idle"
proof -
  have freed: "tx (free_driver r) (\<lambda>res s. case res of Inr _ \<Rightarrow> tx_allowed s Commit | Inl _ \<Rightarrow> True)
      (Finished ride_id (r_driver_id r))" for r :: ride
    unfolding free_driver_def driver_get_by_id_def
    apply (cases "r_driver_id r"; simp)
     apply (simp add: tx_allowed_def)
    apply (rule obeys_pbindI [where R = "\<lambda>res s. case res of Inr (Some x) \<Rightarrow> s = Found ride_id (d_id x) | Inr None \<Rightarrow> False | Inl _ \<Rightarrow> True"])
      apply (auto intro!: obeys_askI simp: reply_simps ask_result_def split: if_splits reply.splits option.splits)
    done
  show ?thesis
    unfolding finish_ride_def
  proof (rule obeys_pbindI [OF tx_transition_or_raise [OF assms]])
    fix r :: ride and s assume "case Inr r of Inr r \<Rightarrow> s = Finished ride_id (r_driver_id r) | Inl _ \<Rightarrow> True"
    then have s: "s = Finished ride_id (r_driver_id r)" by simp
    show "tx (pbind (free_driver r) (\<lambda>_. pbind db_commit (\<lambda>_. pbind (refresh_ride (r_id r)) (\<lambda>ride.
       pbind (emit_event ev
         [(''ride_id'', JStr (r_id ride)),
          (''driver_id'', case r_driver_id ride of Some d \<Rightarrow> JStr d | None \<Rightarrow> JNull)]) (\<lambda>_. Return ride))))) ends_idle s"
      unfolding s by (rule obeys_pbindI [OF freed])
        (auto intro!: commit_then refresh_ride_then calm_then [OF calm_emit])
  qed simp
qed

lemma ends_ride_cancel: "ends_ride ACTIVE_RIDE_STATUSES CANCELLED"
  and ends_ride_complete: "ends_ride COMPLETABLE_STATUSES COMPLETED"
  by (auto simp: ends_ride_def intro: lifecycle.intros)

lemma tx_endings: "tx (cancel_ride i) ends_idle Idle" "tx (complete_ride i) ends_idle Idle"
  unfolding cancel_ride_def complete_ride_def
  by (rule tx_finish_ride [OF ends_ride_cancel] tx_finish_ride [OF ends_ride_complete])+

text \<open>The remaining routes, and one whole request.\<close>

lemma calm_any: "calm p \<Longrightarrow> tx p (\<lambda>_ _. True) s"
  by (rule obeys_mono [OF calmD]) auto

lemma idle_any: "tx p ends_idle Idle \<Longrightarrow> tx p (\<lambda>_ _. True) Idle"
  by (rule obeys_mono) auto

lemma tx_request_ride: "tx (request_ride h cfg rider lat lng key) (\<lambda>_ _. True) Idle"
proof -
  have recorded: "calm (pbind perf_counter (\<lambda>t. pbind (record_metric oc (t - start)) (\<lambda>_. p)))"
    if "calm p" for oc start and p :: "ride prog"
    using that by (intro calm_intros; simp)
  have load: "calm (load_ride i)" for i by (intro calm_intros; simp)
  have clock: "calm perf_counter" by (intro calm_intros; simp)
  have matching: "tx (handle (match_ride h cfg i)
       (\<lambda>matched. pbind perf_counter (\<lambda>t. pbind (record_metric OMatched (t - start)) (\<lambda>_. Return matched)))
       (\<lambda>e. case e of
          NoAvailableDriverError _ \<Rightarrow>
            pbind perf_counter (\<lambda>t. pbind (record_metric OUnmatched (t - start)) (\<lambda>_. load_ride i))
        | _ \<Rightarrow> pbind perf_counter (\<lambda>t. pbind (record_metric OError (t - start)) (\<lambda>_. Raise e))))
       (\<lambda>_ _. True) Idle" for i start
    by (rule obeys_handleI [OF tx_match_ride])
      (auto intro!: calm_any recorded load calm_Return calm_Raise split: exn.split)
  have after_create: "tx (pbind (load_ride i) (\<lambda>ride.
       if r_status ride = REQUESTED then pbind perf_counter (\<lambda>start. handle (match_ride h cfg i)
         (\<lambda>matched. pbind perf_counter (\<lambda>t. pbind (record_metric OMatched (t - start)) (\<lambda>_. Return matched)))
         (\<lambda>e. case e of
            NoAvailableDriverError _ \<Rightarrow>
              pbind perf_counter (\<lambda>t. pbind (record_metric OUnmatched (t - start)) (\<lambda>_. load_ride i))
          | _ \<Rightarrow> pbind perf_counter (\<lambda>t. pbind (record_metric OError (t - start)) (\<lambda>_. Raise e))))
       else Return ride)) (\<lambda>_ _. True) Idle" for i
    by (rule obeys_pbindI [OF calmD [OF load]])
      (auto intro!: obeys_pbindI [OF calmD [OF clock]] matching)
  show ?thesis
    unfolding request_ride_def Let_def
    by (rule obeys_pbindI [OF tx_create_ride]) (use after_create in auto)
qed

lemma tx_create_driver: "tx (create_driver h cfg lat lng) ends_idle Idle"
  unfolding create_driver_def Let_def driver_create_def
  by (rule insert_then [where s'' = NewDriver])
    (auto simp: reply_simps split: reply.splits intro!: commit_then refresh_driver_idle)

lemma tx_create_rider: "tx (create_rider lat lng) ends_idle Idle"
  unfolding create_rider_def rider_create_def
  by (rule insert_then [where s'' = NewRider])
    (auto simp: reply_simps split: reply.splits intro!: commit_then calm_idle calm_intros)

lemma tx_update_driver_location: "tx (update_driver_location h cfg i lat lng) ends_idle Idle"
proof -
  have moved: "tx (pbind db_flush (\<lambda>_. f)) ends_idle (Moved d)" if "tx f ends_idle (Moved d)" for f :: "driver prog" and d
    by (rule ask_then) (use that in \<open>auto simp: reply_simps dest!: ask_result_Inr un_reply_Some\<close>)
  have set_location: "tx (pbind (ask (SetDriverLocation d lat lng h3_index z) un_unit) (\<lambda>_. f)) ends_idle Idle"
    if "tx f ends_idle (Moved d)" for f :: "driver prog" and d h3_index z
    by (rule ask_then) (use that in \<open>auto simp: reply_simps dest!: ask_result_Inr un_reply_Some\<close>)
  show ?thesis
    unfolding update_driver_location_def update_location_def Let_def pbind_assoc
    by (rule calm_then [OF calm_queries(1)])
      (auto simp: pbind_assoc tx_allowed_def split: option.split
        intro!: set_location moved commit_then refresh_driver_idle)
qed

text \<open>Serving any request obeys the session protocol.\<close>

lemma tx_respond: "tx p (\<lambda>_ _. True) Idle \<Longrightarrow> tx (respond status f p) (\<lambda>_ _. True) Idle"
  unfolding respond_def by (erule obeys_handleI) auto

lemma tx_endpoint: "tx (endpoint h cfg req) (\<lambda>_ _. True) Idle"
proof -
  have reads: "calm (list_drivers st)" "calm (get_driver i)" "calm (get_ride i)" "calm (get_zone_surge cfg z)" for st i z
    unfolding list_drivers_def get_driver_def get_ride_def get_zone_surge_def
    by (auto intro!: calm_intros split: option.split)
  have stats: "calm (get_stats cfg)"
    unfolding get_stats_def by (intro calm_intros; simp)
  have health: "tx health (\<lambda>_ _. True) Idle"
    unfolding health_def
    by (intro obeys_pbindI [where R = "\<lambda>_ _. True"] obeys_handleI [where R = "\<lambda>_ _. True"] obeys_askI)
      (auto simp: tx_allowed_def)
  show ?thesis
    by (cases req; simp only: endpoint.simps; rule tx_respond)
      (rule calm_any, rule reads stats | rule health tx_request_ride
        | rule idle_any, rule tx_endings tx_create_driver tx_create_rider tx_update_driver_location)+
qed

lemma tx_serve: "tx (serve h cfg vtext req) (\<lambda>_ _. True) Idle"
  by (simp add: serve_def tx_endpoint)

end
