(* ===== verification/Contracts.thy ===== *)
theory Contracts
  imports Protocol
begin

text \<open>
  Contracts of the handlers: \<open>ensures p Q\<close> says that every exchange of \<open>p\<close> with dependencies that give
  plausible replies (of the right type and for the key asked for; database calls may raise SQLAlchemy
  errors, Redis commands Redis errors) ends in a result that \<open>Q\<close> accepts together with the exchange.
  The equations are a weakest-precondition calculus: simplification with them computes the contract of
  straight-line code, loops get a lemma by induction.
\<close>

definition ensures :: "'a prog \<Rightarrow> (exn + 'a \<Rightarrow> (call \<times> reply) list \<Rightarrow> bool) \<Rightarrow> bool" where
  "ensures p Q \<longleftrightarrow> (\<forall>t res. trace p t res \<longrightarrow> plausible_trace t \<longrightarrow> Q res t)"

lemma ensuresD: "ensures p Q \<Longrightarrow> trace p t res \<Longrightarrow> plausible_trace t \<Longrightarrow> Q res t"
  by (simp add: ensures_def)

lemma plausible_trace_simps [simp]:
  "plausible_trace []"
  "plausible_trace ((c, r) # t) \<longleftrightarrow> plausible c r \<and> plausible_trace t"
  "plausible_trace (t1 @ t2) \<longleftrightarrow> plausible_trace t1 \<and> plausible_trace t2"
  by (simp_all add: plausible_trace_def)

lemma ensures_mono:
  "ensures p Q \<Longrightarrow> (\<And>res t. Q res t \<Longrightarrow> Q' res t) \<Longrightarrow> ensures p Q'"
  by (simp add: ensures_def)

lemma ensures_conj: "ensures p Q \<Longrightarrow> ensures p Q' \<Longrightarrow> ensures p (\<lambda>res t. Q res t \<and> Q' res t)"
  by (simp add: ensures_def)

section \<open>Dependencies\<close>

text \<open>An exchange of a program with something that answers its calls and changes state as it does so.\<close>

inductive exchange ::
  "(call \<Rightarrow> 's \<Rightarrow> reply \<Rightarrow> 's \<Rightarrow> bool) \<Rightarrow> 'a prog \<Rightarrow> 's \<Rightarrow> (call \<times> reply) list \<Rightarrow> exn + 'a \<Rightarrow> 's \<Rightarrow> bool"
  for answers where
  returned: "exchange answers (Return x) s [] (Inr x) s"
| raised: "exchange answers (Raise e) s [] (Inl e) s"
| answered: "answers c s r s' \<Longrightarrow> exchange answers (k r) s' t res s'' \<Longrightarrow>
    exchange answers (Call c k) s ((c, r) # t) res s''"

text \<open>
  The interface between the handlers and what they call: from a sound state every answer is plausible, and
  leaves a sound state. Whoever keeps these laws gets what the contracts of the handlers promise.
\<close>

locale dependency =
  fixes answers :: "call \<Rightarrow> 's \<Rightarrow> reply \<Rightarrow> 's \<Rightarrow> bool" and sound :: "'s \<Rightarrow> bool"
  assumes answer_plausible: "sound s \<Longrightarrow> answers c s r s' \<Longrightarrow> plausible c r"
    and answer_sound: "sound s \<Longrightarrow> answers c s r s' \<Longrightarrow> sound s'"
begin

lemma exchange_plausible:
  "exchange answers p s t res s' \<Longrightarrow> sound s \<Longrightarrow> trace p t res \<and> plausible_trace t \<and> sound s'"
  by (induction rule: exchange.induct) (auto intro: trace.intros dest: answer_plausible answer_sound)

lemma contract:
  assumes "ensures p Q" and "exchange answers p s t res s'" and "sound s"
  shows "Q res t"
  using exchange_plausible [OF assms(2,3)] ensuresD [OF assms(1)] by blast

end

section \<open>The equations\<close>

named_theorems wp "equations that compute contracts"

lemma ensures_Return [wp]: "ensures (Return x) Q \<longleftrightarrow> Q (Inr x) []"
  by (simp add: ensures_def)

lemma ensures_Raise [wp]: "ensures (Raise e) Q \<longleftrightarrow> Q (Inl e) []"
  by (simp add: ensures_def)

lemma ensures_Call [wp]:
  "ensures (Call c k) Q \<longleftrightarrow> (\<forall>r. plausible c r \<longrightarrow> ensures (k r) (\<lambda>res t. Q res ((c, r) # t)))"
  by (auto simp: ensures_def trace_Call)

lemma ensures_handle [wp]:
  "ensures (handle p f g) Q \<longleftrightarrow>
     ensures p (\<lambda>res t1. case res of
        Inr x \<Rightarrow> ensures (f x) (\<lambda>res t2. Q res (t1 @ t2))
      | Inl e \<Rightarrow> ensures (g e) (\<lambda>res t2. Q res (t1 @ t2)))"
proof (induction p arbitrary: Q)
  case (Call c k)
  show ?case by (simp only: handle.simps ensures_Call Call.IH [OF rangeI] append_Cons)
qed (simp_all add: wp)

lemma ensures_pbind [wp]:
  "ensures (pbind p f) Q \<longleftrightarrow>
     ensures p (\<lambda>res t1. case res of Inr x \<Rightarrow> ensures (f x) (\<lambda>res t2. Q res (t1 @ t2)) | Inl e \<Rightarrow> Q (Inl e) t1)"
  unfolding pbind_def by (simp add: wp cong: sum.case_cong)

lemma ensures_try_except [wp]:
  "ensures (try_except p g) Q \<longleftrightarrow>
     ensures p (\<lambda>res t1. case res of Inr x \<Rightarrow> Q (Inr x) t1 | Inl e \<Rightarrow> ensures (g e) (\<lambda>res t2. Q res (t1 @ t2)))"
  unfolding try_except_def by (simp add: wp cong: sum.case_cong)

lemma ensures_try_finally [wp]:
  "ensures (try_finally p q) Q \<longleftrightarrow>
     ensures p (\<lambda>res t1. ensures q (\<lambda>fin t2. case fin of Inr _ \<Rightarrow> Q res (t1 @ t2) | Inl e \<Rightarrow> Q (Inl e) (t1 @ t2)))"
  unfolding try_finally_def ensures_handle ensures_pbind
  by (intro arg_cong2 [where f = ensures] refl ext) (auto simp: wp split: sum.split)

lemma ensures_ask:
  "ensures (ask c proj) Q \<longleftrightarrow> (\<forall>r. plausible c r \<longrightarrow> Q (ask_result proj r) [(c, r)])"
  unfolding ask_def ensures_Call ask_result_def
  by (intro all_cong1 imp_cong refl) (auto simp: wp split: reply.split option.split)

text \<open>Rules that fix the intermediate condition.\<close>

lemma ensures_pbindI:
  assumes "ensures p R"
    and "\<And>x t1. R (Inr x) t1 \<Longrightarrow> ensures (f x) (\<lambda>res t2. Q res (t1 @ t2))"
    and "\<And>e t1. R (Inl e) t1 \<Longrightarrow> Q (Inl e) t1"
  shows "ensures (pbind p f) Q"
  unfolding ensures_pbind by (rule ensures_mono [OF assms(1)]) (auto split: sum.split intro: assms)

lemma ensures_handleI:
  assumes "ensures p R"
    and "\<And>x t1. R (Inr x) t1 \<Longrightarrow> ensures (f x) (\<lambda>res t2. Q res (t1 @ t2))"
    and "\<And>e t1. R (Inl e) t1 \<Longrightarrow> ensures (g e) (\<lambda>res t2. Q res (t1 @ t2))"
  shows "ensures (handle p f g) Q"
  unfolding ensures_handle by (rule ensures_mono [OF assms(1)]) (auto split: sum.split intro: assms)

section \<open>Single calls\<close>

text \<open>What a plausible reply to each call can be: one of its type, or an error of the callee.\<close>

lemma db_errors: "is_sqlalchemy_error e \<longleftrightarrow> e = IntegrityError \<or> e = OtherSQLAlchemyError"
  by (cases e) simp_all

lemma redis_errors: "is_redis_error e \<longleftrightarrow> e = RedisConnectionError \<or> e = RedisTimeoutError \<or> e = OtherRedisError"
  by (cases e) simp_all

lemma all_replies:
  "(\<forall>r :: reply. P r) \<longleftrightarrow> P RUnit \<and> (\<forall>b. P (RBool b)) \<and> (\<forall>n. P (RNat n)) \<and> (\<forall>x. P (RReal x)) \<and> (\<forall>s. P (RStr s))
     \<and> (\<forall>s. P (RStrs s)) \<and> (\<forall>d. P (RDriver d)) \<and> (\<forall>d. P (RDrivers d)) \<and> (\<forall>d. P (RRide d))
     \<and> (\<forall>d. P (RRides d)) \<and> (\<forall>d. P (RRider d)) \<and> (\<forall>s. P (RSnapshot s)) \<and> (\<forall>a b c. P (RTriple a b c))
     \<and> (\<forall>e. P (RExn e))" (is "?lhs \<longleftrightarrow> ?rhs")
proof
  assume r: ?rhs
  show ?lhs
  proof
    fix r show "P r" using r by (cases r) simp_all
  qed
qed simp

lemmas ask_defs = ensures_ask all_replies plausible_def keyed_reply_def ask_result_def

lemma ensures_unit_call [wp]:
  "c \<in> {Commit, Rollback, Flush, DbPing} \<Longrightarrow>
   ensures (ask c un_unit) Q \<longleftrightarrow>
     Q (Inr ()) [(c, RUnit)] \<and> (\<forall>e. is_sqlalchemy_error e \<longrightarrow> Q (Inl e) [(c, RExn e)])"
  by (auto simp: ask_defs)

lemma ensures_set [wp]:
  "ensures (ask (SetDriverStatus d st) un_unit) Q \<longleftrightarrow>
     Q (Inr ()) [(SetDriverStatus d st, RUnit)]
     \<and> (\<forall>e. is_sqlalchemy_error e \<longrightarrow> Q (Inl e) [(SetDriverStatus d st, RExn e)])"
  "ensures (ask (SetDriverLocation d lat lng cell zone) un_unit) Q \<longleftrightarrow>
     Q (Inr ()) [(SetDriverLocation d lat lng cell zone, RUnit)]
     \<and> (\<forall>e. is_sqlalchemy_error e \<longrightarrow> Q (Inl e) [(SetDriverLocation d lat lng cell zone, RExn e)])"
  by (auto simp: ask_defs)

lemma ensures_select [wp]:
  "ensures (ask (SelectDrivers p) un_drivers) Q \<longleftrightarrow>
     (\<forall>ds. Q (Inr ds) [(SelectDrivers p, RDrivers ds)])
     \<and> (\<forall>e. is_sqlalchemy_error e \<longrightarrow> Q (Inl e) [(SelectDrivers p, RExn e)])"
  "ensures (ask (SelectRides q) un_rides) Q' \<longleftrightarrow>
     (\<forall>rs. Q' (Inr rs) [(SelectRides q, RRides rs)])
     \<and> (\<forall>e. is_sqlalchemy_error e \<longrightarrow> Q' (Inl e) [(SelectRides q, RExn e)])"
  "ensures (ask (SelectRideZones q) un_strs) Q'' \<longleftrightarrow>
     (\<forall>zs. Q'' (Inr zs) [(SelectRideZones q, RStrs zs)])
     \<and> (\<forall>e. is_sqlalchemy_error e \<longrightarrow> Q'' (Inl e) [(SelectRideZones q, RExn e)])"
  by (auto simp: ask_defs)

lemma ensures_count [wp]:
  "ensures (ask (CountDrivers p) un_nat) Q \<longleftrightarrow>
     (\<forall>n. Q (Inr n) [(CountDrivers p, RNat n)])
     \<and> (\<forall>e. is_sqlalchemy_error e \<longrightarrow> Q (Inl e) [(CountDrivers p, RExn e)])"
  "ensures (ask (CountRides q) un_nat) Q \<longleftrightarrow>
     (\<forall>n. Q (Inr n) [(CountRides q, RNat n)])
     \<and> (\<forall>e. is_sqlalchemy_error e \<longrightarrow> Q (Inl e) [(CountRides q, RExn e)])"
  "ensures (ask (UpdateRide i fr to vals) un_nat) Q \<longleftrightarrow>
     (\<forall>n. Q (Inr n) [(UpdateRide i fr to vals, RNat n)])
     \<and> (\<forall>e. is_sqlalchemy_error e \<longrightarrow> Q (Inl e) [(UpdateRide i fr to vals, RExn e)])"
  by (auto simp: ask_defs)

lemma ensures_get [wp]:
  "ensures (ask (GetDriver i fresh) un_driver) Q \<longleftrightarrow>
     Q (Inr None) [(GetDriver i fresh, RDriver None)]
     \<and> (\<forall>d. d_id d = i \<longrightarrow> Q (Inr (Some d)) [(GetDriver i fresh, RDriver (Some d))])
     \<and> (\<forall>e. is_sqlalchemy_error e \<longrightarrow> Q (Inl e) [(GetDriver i fresh, RExn e)])"
  "ensures (ask (GetRide i) un_ride) Q' \<longleftrightarrow>
     Q' (Inr None) [(GetRide i, RRide None)]
     \<and> (\<forall>r. r_id r = i \<longrightarrow> Q' (Inr (Some r)) [(GetRide i, RRide (Some r))])
     \<and> (\<forall>e. is_sqlalchemy_error e \<longrightarrow> Q' (Inl e) [(GetRide i, RExn e)])"
  "ensures (ask (RefreshRide i) un_ride) Q' \<longleftrightarrow>
     Q' (Inr None) [(RefreshRide i, RRide None)]
     \<and> (\<forall>r. r_id r = i \<longrightarrow> Q' (Inr (Some r)) [(RefreshRide i, RRide (Some r))])
     \<and> (\<forall>e. is_sqlalchemy_error e \<longrightarrow> Q' (Inl e) [(RefreshRide i, RExn e)])"
  "ensures (ask (RefreshDriver i) un_driver) Q \<longleftrightarrow>
     (\<forall>d. Q (Inr d) [(RefreshDriver i, RDriver d)])
     \<and> (\<forall>e. is_sqlalchemy_error e \<longrightarrow> Q (Inl e) [(RefreshDriver i, RExn e)])"
  "ensures (ask (RefreshRider i) un_rider) Q'' \<longleftrightarrow>
     (\<forall>p. Q'' (Inr p) [(RefreshRider i, RRider p)])
     \<and> (\<forall>e. is_sqlalchemy_error e \<longrightarrow> Q'' (Inl e) [(RefreshRider i, RExn e)])"
  by (auto simp: ask_defs split: option.splits)

lemma ensures_insert [wp]:
  "ensures (ask (InsertDriver lat lng cell zone st) un_driver) Q \<longleftrightarrow>
     (\<forall>d. Q (Inr (Some d)) [(InsertDriver lat lng cell zone st, RDriver (Some d))])
     \<and> (\<forall>e. is_sqlalchemy_error e \<longrightarrow> Q (Inl e) [(InsertDriver lat lng cell zone st, RExn e)])"
  "ensures (ask (InsertRider lat lng) un_rider) Q' \<longleftrightarrow>
     (\<forall>d. Q' (Inr (Some d)) [(InsertRider lat lng, RRider (Some d))])
     \<and> (\<forall>e. is_sqlalchemy_error e \<longrightarrow> Q' (Inl e) [(InsertRider lat lng, RExn e)])"
  "ensures (ask (InsertRide rider lat lng key zopt m) un_ride) Q'' \<longleftrightarrow>
     (\<forall>d. Q'' (Inr (Some d)) [(InsertRide rider lat lng key zopt m, RRide (Some d))])
     \<and> (\<forall>e. is_sqlalchemy_error e \<longrightarrow> Q'' (Inl e) [(InsertRide rider lat lng key zopt m, RExn e)])"
  by (auto simp: ask_defs)

lemma ensures_redis [wp]:
  "ensures (ask (RedisSetNxPx key token ttl) un_bool) Q \<longleftrightarrow>
     (\<forall>b. Q (Inr b) [(RedisSetNxPx key token ttl, RBool b)])
     \<and> (\<forall>e. is_redis_error e \<longrightarrow> Q (Inl e) [(RedisSetNxPx key token ttl, RExn e)])"
  "ensures (ask (RedisRunRelease key token) un_nat) Q' \<longleftrightarrow>
     (\<forall>n. Q' (Inr n) [(RedisRunRelease key token, RNat n)])
     \<and> (\<forall>e. is_redis_error e \<longrightarrow> Q' (Inl e) [(RedisRunRelease key token, RExn e)])"
  "ensures (ask RedisPing un_bool) Q \<longleftrightarrow>
     (\<forall>b. Q (Inr b) [(RedisPing, RBool b)])
     \<and> (\<forall>e. is_redis_error e \<longrightarrow> Q (Inl e) [(RedisPing, RExn e)])"
  by (auto simp: ask_defs)

lemma ensures_local [wp]:
  "ensures (ask Uuid4 un_str) Q1 \<longleftrightarrow> (\<forall>s. Q1 (Inr s) [(Uuid4, RStr s)])"
  "ensures (ask UtcNow un_real) Q2 \<longleftrightarrow> (\<forall>x. Q2 (Inr x) [(UtcNow, RReal x)])"
  "ensures (ask PerfCounter un_real) Q2 \<longleftrightarrow> (\<forall>x. Q2 (Inr x) [(PerfCounter, RReal x)])"
  "ensures (ask MetricsSnapshot un_snapshot) Q3 \<longleftrightarrow> (\<forall>s. Q3 (Inr s) [(MetricsSnapshot, RSnapshot s)])"
  "ensures (ask DbPercentiles un_triple) Q4 \<longleftrightarrow>
     (\<forall>a b c. Q4 (Inr (a, b, c)) [(DbPercentiles, RTriple a b c)])"
  by (auto simp: ask_defs)

lemma ensures_tell [wp]:
  "ensures (emit_event ty data) Q \<longleftrightarrow> Q (Inr ()) [(Emit ty data, RUnit)]"
  "ensures (record_metric oc secs) Q \<longleftrightarrow> Q (Inr ()) [(RecordMatch oc secs, RUnit)]"
  "ensures record_contention Q \<longleftrightarrow> Q (Inr ()) [(RecordLockContention, RUnit)]"
  by (auto simp: emit_event_def record_metric_def record_contention_def wp all_replies plausible_def keyed_reply_def)

lemma ensures_must_exist [wp]:
  "ensures (must_exist p) Q \<longleftrightarrow>
     ensures p (\<lambda>res t. case res of
        Inr (Some v) \<Rightarrow> Q (Inr v) t | Inr None \<Rightarrow> Q (Inl OtherSQLAlchemyError) t | Inl e \<Rightarrow> Q (Inl e) t)"
  unfolding must_exist_def ensures_pbind
  by (intro arg_cong2 [where f = ensures] refl ext) (auto simp: wp split: sum.split option.split)

end
