(* ===== verification/Canned.thy ===== *)
theory Canned
  imports Contracts
begin

text \<open>
  A dependency that always answers the same: one available driver, a free lock, a requested ride.
  \<open>over\<close> overrides single answers. It is the concrete exchange of the witnesses.
\<close>

definition canned_driver :: "uuid \<Rightarrow> driver" where
  "canned_driver d = \<lparr>d_id = d, current_lat = 3, current_lng = 0, d_h3_index = ''ccc'', d_zone_id = ''ccc'',
     d_status = AVAILABLE, last_updated_at = 0\<rparr>"

definition canned_ride :: "uuid \<Rightarrow> ride" where
  "canned_ride i = \<lparr>r_id = i, r_rider_id = ''p1'', r_driver_id = None, r_status = REQUESTED,
     pickup_lat = 3, pickup_lng = 0, matched_at = None, fare = None, surge_multiplier = Some 1,
     r_zone_id = Some ''ccc'', idempotency_key = None, created_at = 0, updated_at = 0\<rparr>"

definition canned_rider :: rider where
  "canned_rider = \<lparr>p_id = ''p1'', p_pickup_lat = 3, p_pickup_lng = 0, requested_at = 0\<rparr>"

fun canned :: "call \<Rightarrow> reply" where
  "canned (GetRide i) = RRide (Some (canned_ride i))"
| "canned (RefreshRide i) = RRide (Some ((canned_ride i)\<lparr>r_status := MATCHED, r_driver_id := Some ''d1''\<rparr>))"
| "canned (SelectDrivers p) = RDrivers (filter p [canned_driver ''d1''])"
| "canned (GetDriver d _) = RDriver (Some (canned_driver d))"
| "canned Uuid4 = RStr ''token''"
| "canned (RedisSetNxPx _ _ _) = RBool True"
| "canned (RedisRunRelease _ _) = RNat 1"
| "canned (UpdateRide _ _ _ _) = RNat 1"
| "canned (CountDrivers _) = RNat 2"
| "canned (CountRides _) = RNat 4"
| "canned (SelectRides _) = RRides []"
| "canned (SelectRideZones _) = RStrs []"
| "canned (GetRider i) = RRider None"
| "canned (InsertDriver _ _ _ _ _) = RDriver (Some (canned_driver ''d1''))"
| "canned (InsertRider _ _) = RRider (Some canned_rider)"
| "canned (InsertRide _ _ _ _ _ _) = RRide (Some (canned_ride ''r1''))"
| "canned (RefreshDriver d) = RDriver (Some (canned_driver d))"
| "canned (RefreshRider i) = RRider (Some canned_rider)"
| "canned RedisPing = RBool True"
| "canned UtcNow = RReal 0"
| "canned PerfCounter = RReal 0"
| "canned MetricsSnapshot = RSnapshot (snapshot 0 (init_tracker 500))"
| "canned DbPercentiles = RTriple 0 0 0"
| "canned _ = RUnit"

definition canned_service :: "(call \<Rightarrow> reply option) \<Rightarrow> unit \<Rightarrow> call \<Rightarrow> reply \<times> unit" where
  "canned_service over s c = (case over c of Some r \<Rightarrow> r | None \<Rightarrow> canned c, s)"

lemma plausible_canned: "plausible c (canned c)"
  by (cases c) (simp_all add: plausible_def keyed_reply_def canned_ride_def canned_driver_def)

abbreviation canned_log :: "(call \<Rightarrow> reply option) \<Rightarrow> 'a prog \<Rightarrow> (call \<times> reply) list" where
  "canned_log over p \<equiv> run_log (canned_service over) p ()"

interpretation canned: dependency "\<lambda>c s r s'. canned_service over s c = (r, s')"
    "\<lambda>_. \<forall>c r. over c = Some r \<longrightarrow> plausible c r" for over
  by unfold_locales (auto simp: canned_service_def plausible_canned split: option.splits)

lemma canned_exchange:
  "exchange (\<lambda>c s r s'. canned_service over s c = (r, s')) p s (run_log (canned_service over) p s)
     (fst (run (canned_service over) p s)) (snd (run (canned_service over) p s))"
  by (induction p arbitrary: s) (auto intro: exchange.intros split: prod.split)

lemma plausible_canned_over: "(\<And>c r. over c = Some r \<Longrightarrow> plausible c r) \<Longrightarrow> plausible_trace (canned_log over p)"
  using canned.exchange_plausible [OF canned_exchange] by blast

lemma plausible_canned_log: "plausible_trace (canned_log (\<lambda>_. None) p)"
  by (rule plausible_canned_over) simp

lemma canned_log_trace: "trace p (canned_log over p) (fst (run (canned_service over) p ()))"
  by (rule run_log_trace)

lemma unary_3: "replicate 3 c = [c, c, c]"
  by (simp add: eval_nat_numeral)

lemmas canned_run_defs = unary_3 canned_service_def canned_ride_def canned_driver_def match_ride_def must_exist_def
  ask_def find_ranked_candidates_def cells_within_ring_def latlng_to_h3_def point_h3_def unary_def
  rank_candidates_def repo_defs emit_event_def record_contention_def acquire_driver_lock_def
  acquire_lock_def release_lock_def try_except_def try_finally_def assign_candidate_def lock_key_def
  default_settings_def


end
