(* ===== verification/MatchingProps.thy ===== *)
theory MatchingProps
  imports Canned
begin

text \<open>
  Properties of the matcher over every exchange with its dependencies (no assumption on the replies):
  the lock discipline, and what a unique violation does.
\<close>

section \<open>The lock discipline\<close>

datatype lock_state = NoLock | Held string string

fun assigned_drivers :: "ride_value list \<Rightarrow> uuid list" where
  "assigned_drivers [] = []"
| "assigned_drivers (DriverId d # vs) = d # assigned_drivers vs"
| "assigned_drivers (MatchedAt _ # vs) = assigned_drivers vs"

definition holds_lock :: "lock_state \<Rightarrow> uuid \<Rightarrow> bool" where
  "holds_lock s d \<longleftrightarrow> (\<exists>token. s = Held (lock_key d) token)"

text \<open>
  One lock at a time, released with the token it was acquired with; a driver's status, an assignment to
  a driver and a commit only under a lock, the first two under that driver's.
\<close>

definition lock_allowed :: "lock_state \<Rightarrow> call \<Rightarrow> bool" where
  "lock_allowed s c =
     (case c of
        RedisSetNxPx _ _ _ \<Rightarrow> s = NoLock
      | RedisRunRelease k token \<Rightarrow> s = Held k token
      | SetDriverStatus d _ \<Rightarrow> holds_lock s d
      | UpdateRide _ _ _ vals \<Rightarrow> (\<forall>d \<in> set (assigned_drivers vals). holds_lock s d)
      | Commit \<Rightarrow> s \<noteq> NoLock
      | _ \<Rightarrow> True)"

definition lock_next :: "lock_state \<Rightarrow> call \<Rightarrow> reply \<Rightarrow> lock_state option" where
  "lock_next s c r =
     (if keyed_reply c r then
        Some (case c of
           RedisSetNxPx k token _ \<Rightarrow> (if r = RBool True then Held k token else NoLock)
         | RedisRunRelease _ _ \<Rightarrow> NoLock
         | _ \<Rightarrow> s)
      else None)"

abbreviation locking :: "'a prog \<Rightarrow> (exn + 'a \<Rightarrow> lock_state \<Rightarrow> bool) \<Rightarrow> lock_state \<Rightarrow> bool" where
  "locking \<equiv> obeys lock_allowed lock_next"

fun lock_neutral :: "call \<Rightarrow> bool" where
  "lock_neutral (RedisSetNxPx _ _ _) = False"
| "lock_neutral (RedisRunRelease _ _) = False"
| "lock_neutral (SetDriverStatus _ _) = False"
| "lock_neutral (UpdateRide _ _ _ _) = False"
| "lock_neutral Commit = False"
| "lock_neutral _ = True"

lemma neutral_allowed: "lock_neutral c \<Longrightarrow> lock_allowed s c"
  by (cases c) (simp_all add: lock_allowed_def)

lemma neutral_next: "lock_neutral c \<Longrightarrow> lock_next s c r = (if keyed_reply c r then Some s else None)"
  by (cases c) (simp_all add: lock_next_def)

lemma lock_neutral_calls: "all_calls lock_neutral p \<Longrightarrow> locking p (\<lambda>_ s'. s' = s) s"
  by (induction p) (auto simp: neutral_allowed neutral_next)

lemma neutral_must_exist: "all_calls P p \<Longrightarrow> all_calls P (must_exist p)"
  unfolding must_exist_def by (auto intro!: all_calls_pbind split: option.split)

lemma neutral_emit [simp]: "all_calls lock_neutral (emit_event ty data)" "all_calls lock_neutral record_contention"
  by (simp_all add: emit_event_def record_contention_def)

lemma neutral_search: "all_calls lock_neutral (search_rings h cell target ks found)"
  by (induction ks arbitrary: found)
    (auto simp: list_available_in_cells_def Let_def intro!: all_calls_pbind split: sum.split if_splits)

lemma neutral_find: "all_calls lock_neutral (find_ranked_candidates h cfg lat lng target max_ring)"
  unfolding find_ranked_candidates_def Let_def by (auto intro!: all_calls_pbind neutral_search)

lemma neutral_then:
  assumes "all_calls lock_neutral p" and "\<And>x. locking (f x) Q s" and "\<And>e. Q (Inl e) s"
  shows "locking (pbind p f) Q s"
  by (rule obeys_pbindI [OF lock_neutral_calls [OF assms(1)]]) (use assms(2,3) in auto)

fun lock_op :: "call \<Rightarrow> bool" where
  "lock_op (RedisSetNxPx _ _ _) = True"
| "lock_op (RedisRunRelease _ _) = True"
| "lock_op _ = False"

lemma no_lock_op_next: "\<not> lock_op c \<Longrightarrow> lock_next s c r = (if keyed_reply c r then Some s else None)"
  by (cases c) (simp_all add: lock_next_def)

lemma ask_keeps:
  assumes "lock_allowed s c" and "\<not> lock_op c"
    and "\<And>x. locking (f x) Q s" and "\<And>e. Q (Inl e) s"
  shows "locking (pbind (ask c proj) f) Q s"
  by (rule obeys_pbindI [where R = "\<lambda>_ s'. s' = s"])
    (use assms in \<open>auto intro!: obeys_askI simp: no_lock_op_next split: if_splits\<close>)

lemma fresh_driver_locking:
  assumes "locking (f None) (\<lambda>_ s'. s' = s) s"
    and "\<And>x. d_id x = d \<Longrightarrow> locking (f (Some x)) (\<lambda>_ s'. s' = s) s"
  shows "locking (pbind (driver_get_by_id d True) f) (\<lambda>_ s'. s' = s) s"
  unfolding driver_get_by_id_def
proof (rule obeys_pbindI)
  show "locking (ask (GetDriver d True) un_driver)
      (\<lambda>res s'. s' = s \<and> (case res of Inr (Some x) \<Rightarrow> d_id x = d | _ \<Rightarrow> True)) s"
    by (rule obeys_askI)
      (auto simp: lock_allowed_def no_lock_op_next keyed_reply_def ask_result_def split: if_splits reply.splits option.splits)
next
  fix x :: "driver option" and s'
  assume "s' = s \<and> (case Inr x of Inr (Some x) \<Rightarrow> d_id x = d | _ \<Rightarrow> True)"
  then show "locking (f x) (\<lambda>_ s'. s' = s) s'" using assms by (cases x) auto
qed simp

lemma commit_locking:
  assumes "s \<noteq> NoLock" and "locking (f ()) (\<lambda>_ s'. s' = s) s" and "\<And>e. locking (g e) (\<lambda>_ s'. s' = s) s"
  shows "locking (handle db_commit f g) (\<lambda>_ s'. s' = s) s"
proof (rule obeys_handleI [where R = "\<lambda>_ s'. s' = s"])
  show "locking db_commit (\<lambda>_ s'. s' = s) s"
    by (rule obeys_askI) (use assms(1) in \<open>auto simp: lock_allowed_def no_lock_op_next split: if_splits\<close>)
qed (use assms in auto)

text \<open>Under a driver's lock, the assignment keeps the lock, whatever happens.\<close>

lemma locking_assign:
  assumes "holds_lock s (d_id cand)"
  shows "locking (assign_candidate ride cand) (\<lambda>_ s'. s' = s) s"
proof -
  have ne: "s \<noteq> NoLock" using assms by (auto simp: holds_lock_def)
  show ?thesis
    unfolding assign_candidate_def transition_status_def pbind_assoc
    apply (rule fresh_driver_locking; simp)
    apply (intro impI ask_keeps; simp add: lock_allowed_def assms)
    apply (auto intro!: ask_keeps commit_locking ne neutral_then all_calls_pbind neutral_must_exist
        simp: lock_allowed_def)
    done
qed

lemma locking_acquire:
  "locking (acquire_driver_lock cfg d)
     (\<lambda>res s. case res of Inr (Some token) \<Rightarrow> s = Held (lock_key (d_id d)) token | _ \<Rightarrow> s = NoLock) NoLock"
    (is "locking _ ?Q NoLock")
proof -
  have set: "locking (pbind (ask (RedisSetNxPx k token ttl) un_bool)
       (\<lambda>acquired. Return (if acquired then Some token else None)))
      (\<lambda>res s. case res of Inr (Some token) \<Rightarrow> s = Held k token | _ \<Rightarrow> s = NoLock) NoLock" for k token ttl
    by (rule obeys_pbindI [where R = "\<lambda>res s. s = (case res of Inr True \<Rightarrow> Held k token | _ \<Rightarrow> NoLock)"])
      (auto intro!: obeys_askI simp: lock_allowed_def lock_next_def ask_result_def
        split: if_splits reply.splits bool.splits)
  have acq: "locking (acquire_lock k ttl)
      (\<lambda>res s. case res of Inr (Some token) \<Rightarrow> s = Held k token | _ \<Rightarrow> s = NoLock) NoLock" for k ttl
    unfolding acquire_lock_def
    by (rule neutral_then [OF _ set]) simp_all
  show ?thesis
    unfolding acquire_driver_lock_def try_except_def
    by (rule obeys_handleI [OF acq]) auto
qed

lemma locking_release:
  "locking (release_lock k token) (\<lambda>_ s. s = NoLock) (Held k token)"
  unfolding release_lock_def
  by (rule obeys_pbindI [where R = "\<lambda>_ s. s = NoLock"])
    (auto intro!: obeys_askI simp: lock_allowed_def lock_next_def split: if_splits)

lemma locking_try_candidates: "locking (try_candidates cfg ride ranked) (\<lambda>_ s. s = NoLock) NoLock"
proof (induction ranked)
  case Nil
  show ?case by (auto intro!: neutral_then)
next
  case (Cons c rest)
  obtain d x where c: "c = (d, x)" by fastforce
  have locked: "locking (try_finally (assign_candidate ride d) (release_lock (lock_key (d_id d)) token))
      (\<lambda>_ s. s = NoLock) (Held (lock_key (d_id d)) token)" for token
  proof (rule obeys_try_finallyI)
    show "locking (assign_candidate ride d) (\<lambda>_ s'. s' = Held (lock_key (d_id d)) token) (Held (lock_key (d_id d)) token)"
      by (rule locking_assign) (auto simp: holds_lock_def)
    fix res s' assume "s' = Held (lock_key (d_id d)) token"
    then show "locking (release_lock (lock_key (d_id d)) token)
        (\<lambda>fin s''. case fin of Inr _ \<Rightarrow> s'' = NoLock | Inl e \<Rightarrow> s'' = NoLock) s'"
      by (auto intro: obeys_mono [OF locking_release] split: sum.split)
  qed
  show ?case
    unfolding c try_candidates.simps
  proof (rule obeys_pbindI [OF locking_acquire])
    fix acquired s assume a: "case Inr acquired of Inr (Some token) \<Rightarrow> s = Held (lock_key (d_id d)) token | _ \<Rightarrow> s = NoLock"
    show "locking (case acquired of
       None \<Rightarrow>
         pbind (emit_event ''LOCK_FAILED''
           [(''ride_id'', JStr (r_id ride)), (''driver_id'', JStr (d_id d))]) (\<lambda>_.
         pbind record_contention (\<lambda>_.
         try_candidates cfg ride rest))
     | Some token \<Rightarrow>
         pbind (emit_event ''LOCK_ACQUIRED''
           [(''ride_id'', JStr (r_id ride)), (''driver_id'', JStr (d_id d))]) (\<lambda>_.
         pbind (try_finally (assign_candidate ride d)
                  (release_lock (lock_key (d_id d)) token)) (\<lambda>outcome.
         case outcome of
           Some matched \<Rightarrow> Return matched
         | None \<Rightarrow> try_candidates cfg ride rest))) (\<lambda>_ s. s = NoLock) s"
    proof (cases acquired)
      case None
      then show ?thesis using a Cons by (auto intro!: neutral_then)
    next
      case (Some token)
      have s: "s = Held (lock_key (d_id d)) token" using a Some by simp
      show ?thesis
        unfolding Some s option.case
        using obeys_pbindI [OF locked, of "\<lambda>outcome. case outcome of Some matched \<Rightarrow> Return matched
            | None \<Rightarrow> try_candidates cfg ride rest"] Cons
        by (simp add: emit_event_def neutral_allowed neutral_next split: option.split)
    qed
  qed (auto split: option.splits)
qed

lemma locking_match_ride: "locking (match_ride h cfg ride_id) (\<lambda>_ s. s = NoLock) NoLock"
  unfolding match_ride_def
  by (rule neutral_then)
    (auto intro!: neutral_then neutral_find locking_try_candidates neutral_must_exist)

text \<open>C14: in every exchange of \<open>match_ride\<close> with its dependencies, including every failure, at most one
  lock is held at a time; a driver is set BUSY, a ride assigned to it and the assignment committed only
  while that driver's lock is held; each lock taken is released, with the token it was taken with, before
  the next one is requested and before \<open>match_ride\<close> returns or raises.\<close>

theorem match_ride_lock_discipline:
  assumes "trace (match_ride h cfg ride_id) t res" and "keyed_trace t"
  shows "protocol_run lock_allowed lock_next NoLock t = Some NoLock"
proof -
  have "\<exists>s'. protocol_run lock_allowed lock_next NoLock t = Some s' \<and> s' = NoLock"
    by (rule obeys_trace [OF assms(1) locking_match_ride])
      (use keyed_traceD [OF assms(2)] in \<open>auto simp: lock_next_def\<close>)
  then show ?thesis by simp
qed

lemma canned_match:
  "fst (run (canned_service (\<lambda>_. None)) (match_ride point_h3 default_settings ''r1'') ()) =
     Inr ((canned_ride ''r1'')\<lparr>r_status := MATCHED, r_driver_id := Some ''d1''\<rparr>)"
  by (simp add: canned_run_defs upto.simps Let_def)

theorem match_ride_lock_discipline_witness:
  "\<exists>t r. trace (match_ride point_h3 default_settings ''r1'') t (Inr r) \<and> r_status r = MATCHED
     \<and> protocol_run lock_allowed lock_next NoLock t = Some NoLock"
proof -
  let ?t = "canned_log (\<lambda>_. None) (match_ride point_h3 default_settings ''r1'')"
  have "trace (match_ride point_h3 default_settings ''r1'') ?t
      (Inr ((canned_ride ''r1'')\<lparr>r_status := MATCHED, r_driver_id := Some ''d1''\<rparr>))"
    using run_log_trace [of "match_ride point_h3 default_settings ''r1''" "canned_service (\<lambda>_. None)" "()"]
    by (simp add: canned_match)
  from match_ride_lock_discipline [OF this plausible_keyed [OF plausible_canned_log]] this show ?thesis by fastforce
qed

section \<open>A unique violation\<close>

text \<open>
  The conditional UPDATE is the statement that can violate the index on active rides, and it is outside
  the \<open>try\<close> that catches \<open>IntegrityError\<close>. The protocol: after it has failed that way, the lock is
  released, and that is the last call.
\<close>

datatype violation = Clear | Violated | Closed reply

definition violation_allowed :: "violation \<Rightarrow> call \<Rightarrow> bool" where
  "violation_allowed s c =
     (case s of Clear \<Rightarrow> True | Violated \<Rightarrow> (case c of RedisRunRelease _ _ \<Rightarrow> True | _ \<Rightarrow> False) | Closed _ \<Rightarrow> False)"

fun is_update_ride :: "call \<Rightarrow> bool" where
  "is_update_ride (UpdateRide _ _ _ _) = True"
| "is_update_ride _ = False"

definition violation_next :: "violation \<Rightarrow> call \<Rightarrow> reply \<Rightarrow> violation option" where
  "violation_next s c r = Some
     (case s of Clear \<Rightarrow> (if is_update_ride c \<and> r = RExn IntegrityError then Violated else Clear)
      | Violated \<Rightarrow> Closed r | Closed r' \<Rightarrow> Closed r')"

abbreviation violating :: "'a prog \<Rightarrow> (exn + 'a \<Rightarrow> violation \<Rightarrow> bool) \<Rightarrow> violation \<Rightarrow> bool" where
  "violating \<equiv> obeys violation_allowed violation_next"

definition violation_result :: "exn + 'a \<Rightarrow> violation \<Rightarrow> bool" where
  "violation_result res s =
     (case s of Clear \<Rightarrow> True | Violated \<Rightarrow> False
      | Closed r \<Rightarrow> res = Inl (case ask_result un_nat r of Inl e \<Rightarrow> e | Inr _ \<Rightarrow> IntegrityError))"

lemma violation_result_simps [simp]:
  "violation_result res Clear" "\<not> violation_result res Violated"
  "violation_result res (Closed r) \<longleftrightarrow>
     res = Inl (case ask_result un_nat r of Inl e \<Rightarrow> e | Inr _ \<Rightarrow> IntegrityError)"
  by (simp_all add: violation_result_def)

lemma no_update_clear: "all_calls (\<lambda>c. \<not> is_update_ride c) p \<Longrightarrow> violating p (\<lambda>_ s. s = Clear) Clear"
  by (induction p) (auto simp: violation_allowed_def violation_next_def)

lemma clear_then:
  assumes "all_calls (\<lambda>c. \<not> is_update_ride c) p" and "\<And>x. violating (f x) Q Clear" and "\<And>e. Q (Inl e) Clear"
  shows "violating (pbind p f) Q Clear"
  by (rule obeys_pbindI [OF no_update_clear [OF assms(1)]]) (use assms(2,3) in auto)

lemma clear_handle:
  assumes "all_calls (\<lambda>c. \<not> is_update_ride c) p" and "\<And>x. violating (f x) Q Clear"
    and "\<And>e. violating (g e) Q Clear"
  shows "violating (handle p f g) Q Clear"
  by (rule obeys_handleI [OF no_update_clear [OF assms(1)]]) (use assms(2,3) in auto)

lemma no_update_search: "all_calls (\<lambda>c. \<not> is_update_ride c) (search_rings h cell target ks found)"
  by (induction ks arbitrary: found)
    (auto simp: list_available_in_cells_def Let_def intro!: all_calls_pbind split: sum.split if_splits)

lemma no_update_simps [simp]:
  "all_calls (\<lambda>c. \<not> is_update_ride c) (emit_event ty data)"
  "all_calls (\<lambda>c. \<not> is_update_ride c) record_contention"
  "all_calls (\<lambda>c. \<not> is_update_ride c) (find_ranked_candidates h cfg lat lng target max_ring)"
  "all_calls (\<lambda>c. \<not> is_update_ride c) (acquire_driver_lock cfg d)"
  unfolding find_ranked_candidates_def Let_def acquire_driver_lock_def acquire_lock_def try_except_def
  by (auto simp: emit_event_def record_contention_def intro!: all_calls_pbind all_calls_handle no_update_search)

lemma violating_assign:
  "violating (assign_candidate ride d)
     (\<lambda>res s. s = Clear \<or> s = Violated \<and> res = Inl IntegrityError) Clear" (is "violating _ ?Q Clear")
proof -
  have update: "violating (pbind (ask (UpdateRide i fr to vals) un_nat) f) ?Q Clear"
    if "\<And>n. violating (f n) ?Q Clear" for i fr to vals and f :: "nat \<Rightarrow> ride option prog"
    by (rule obeys_pbindI [where R = "\<lambda>res s. s = Clear \<or> s = Violated \<and> res = Inl IntegrityError"])
      (auto intro!: obeys_askI that simp: violation_allowed_def violation_next_def ask_result_def split: if_splits)
  show ?thesis
    unfolding assign_candidate_def transition_status_def pbind_assoc driver_get_by_id_def
    by (rule clear_then; (rule all_calls_ask [THEN iffD2])?; simp split: option.split)
      (auto intro!: clear_then clear_handle update all_calls_pbind neutral_must_exist)
qed

lemma violating_release:
  "violating (release_lock k token) (\<lambda>_ s. s = Clear) Clear"
  "violating (release_lock k token)
     (\<lambda>fin s. \<exists>r. s = Closed r \<and> (case fin of Inl e \<Rightarrow> ask_result un_nat r = Inl e
        | Inr _ \<Rightarrow> (\<exists>n. ask_result un_nat r = Inr n))) Violated"
  unfolding release_lock_def pbind_def obeys_handle
  by (auto simp: obeys_ask violation_allowed_def violation_next_def split: sum.split)

lemma violating_try_candidates: "violating (try_candidates cfg ride ranked) violation_result Clear"
proof (induction ranked)
  case Nil
  show ?case by (auto intro!: clear_then)
next
  case (Cons c rest)
  obtain d x where c: "c = (d, x)" by fastforce
  have locked: "violating (try_finally (assign_candidate ride d) (release_lock (lock_key (d_id d)) token))
      (\<lambda>res s. s = Clear \<or> (\<exists>r. s = Closed r \<and>
         res = Inl (case ask_result un_nat r of Inl e \<Rightarrow> e | Inr _ \<Rightarrow> IntegrityError))) Clear"
    for token
    by (rule obeys_try_finallyI [OF violating_assign];
      auto split: sum.split intro: obeys_mono [OF violating_release(1)]
        intro!: obeys_mono [OF violating_release(2)])
  have assign: "violating (pbind (try_finally (assign_candidate ride d) (release_lock (lock_key (d_id d)) token))
      (\<lambda>outcome. case outcome of Some matched \<Rightarrow> Return matched | None \<Rightarrow> try_candidates cfg ride rest))
      violation_result Clear" for token
    by (rule obeys_pbindI [OF locked]) (use Cons in \<open>auto split: option.split\<close>)
  show ?case
    unfolding c try_candidates.simps
    by (rule clear_then) (auto intro!: clear_then assign Cons split: option.split)
qed

lemma violating_match_ride: "violating (match_ride h cfg ride_id) violation_result Clear"
  unfolding match_ride_def
  by (rule clear_then)
    (auto intro!: clear_then violating_try_candidates neutral_must_exist)

text \<open>C22: when the database rejects an assignment because the driver already has an active ride, no
  further candidate is tried: the only call that follows is the release of the lock, and \<open>match_ride\<close>
  raises \<open>IntegrityError\<close> (or what the release raises), so the \<open>continue\<close> meant for this case
  is never reached.\<close>

theorem unique_violation_ends_match_ride:
  assumes "trace (match_ride h cfg ride_id) (t1 @ (UpdateRide i fr to vals, RExn IntegrityError) # t2) res"
  shows "\<exists>key token r. t2 = [(RedisRunRelease key token, r)]
    \<and> res = Inl (case ask_result un_nat r of Inl e \<Rightarrow> e | Inr _ \<Rightarrow> IntegrityError)"
proof -
  let ?run = "protocol_run violation_allowed violation_next"
  let ?x = "(UpdateRide i fr to vals, RExn IntegrityError)"
  obtain s' where run: "?run Clear (t1 @ ?x # t2) = Some s'" and res: "violation_result res s'"
    using obeys_trace [OF assms violating_match_ride] by (auto simp: violation_next_def)
  then obtain s1 where "?run Clear t1 = Some s1" and s1: "?run s1 (?x # t2) = Some s'"
    by (auto simp: protocol_run_append bind_eq_Some_conv)
  from s1 have "?run Violated t2 = Some s'"
    by (cases s1) (simp_all add: violation_allowed_def violation_next_def)
  with res obtain c r t3 where t2: "t2 = (c, r) # t3" and c: "violation_allowed Violated c"
    and t3: "?run (Closed r) t3 = Some s'"
    by (cases t2) (auto simp: violation_next_def split: if_splits)
  from c obtain key token where "c = RedisRunRelease key token"
    by (cases c) (simp_all add: violation_allowed_def)
  moreover from t3 have "t3 = []" "s' = Closed r"
    by (cases t3; auto simp: violation_allowed_def)+
  ultimately show ?thesis using t2 res by auto
qed

theorem unique_violation_ends_match_ride_witness:
  "\<exists>t. trace (match_ride point_h3 default_settings ''r1'') t (Inl IntegrityError)
     \<and> fst (last t) = RedisRunRelease (lock_key ''d1'') ''token''"
proof -
  let ?over = "\<lambda>c. if is_update_ride c then Some (RExn IntegrityError) else None"
  let ?p = "match_ride point_h3 default_settings ''r1''"
  let ?x = "(UpdateRide ''r1'' [REQUESTED] MATCHED [DriverId ''d1'', MatchedAt 0], RExn IntegrityError)"
  have t: "trace ?p (canned_log ?over ?p) (Inl IntegrityError)"
    using run_log_trace [of ?p "canned_service ?over" "()"] by (simp add: canned_run_defs upto.simps Let_def)
  have "?x \<in> set (canned_log ?over ?p)" "fst (last (canned_log ?over ?p)) = RedisRunRelease (lock_key ''d1'') ''token''"
    by (simp_all add: canned_run_defs upto.simps Let_def)
  then obtain t1 t2 where eq: "canned_log ?over ?p = t1 @ ?x # t2" by (auto dest: split_list)
  from unique_violation_ends_match_ride [OF t [unfolded eq]] t eq
    \<open>fst (last (canned_log ?over ?p)) = RedisRunRelease (lock_key ''d1'') ''token''\<close>
  show ?thesis by blast
qed

end
