(* ===== verification/SimGeo.thy ===== *)
theory SimGeo
  imports Geo "HOL-Library.State_Monad" "HOL-Library.Stream"
begin

text \<open>
  Synthetic points and driver movement of the simulation client (app/simulation/generators.py and
  movement.py). The random source is the stream of its draws from the unit interval; the functions
  thread it through the state monad in the order in which the code draws.
\<close>

section \<open>The random source\<close>

type_synonym random = "real stream"

definition random_unit :: "(random, real) state" where
  "random_unit = State (\<lambda>rng. (shd rng, stl rng))"

text \<open>\<open>rng.uniform(a, b)\<close>.\<close>

definition uniform :: "real \<Rightarrow> real \<Rightarrow> (random, real) state" where
  "uniform a b = do { u \<leftarrow> random_unit; State_Monad.return (a + (b - a) * u) }"

definition unit_draws :: "random \<Rightarrow> bool" where
  "unit_draws rng \<longleftrightarrow> (\<forall>u \<in> sset rng. 0 \<le> u \<and> u < 1)"

lemma run_random_unit [simp]: "run_state random_unit rng = (shd rng, stl rng)"
  by (simp add: random_unit_def)

lemma run_uniform [simp]: "run_state (uniform a b) rng = (a + (b - a) * shd rng, stl rng)"
  by (simp add: uniform_def)

lemma unit_draws_head: "unit_draws rng \<Longrightarrow> 0 \<le> shd rng \<and> shd rng < 1"
  by (simp add: unit_draws_def shd_sset)

lemma unit_draws_tail: "unit_draws rng \<Longrightarrow> unit_draws (stl rng)"
  using stl_sset [of _ rng] by (auto simp: unit_draws_def)

section \<open>generators.py\<close>

definition KM_PER_DEGREE_LAT :: real where
  "KM_PER_DEGREE_LAT = 111.32"

record point =
  pt_lat :: real
  pt_lng :: real

definition km_per_degree_lng :: "real \<Rightarrow> real" where
  "km_per_degree_lng lat = KM_PER_DEGREE_LAT * cos (radians lat)"

definition random_point_in_radius :: "point \<Rightarrow> real \<Rightarrow> (random, point) state" where
  "random_point_in_radius center radius_km =
     (if radius_km \<le> 0 then State_Monad.return center
      else do {
        angle \<leftarrow> uniform 0 (2 * pi);
        u \<leftarrow> uniform 0 1;
        let distance_km = radius_km * sqrt u;
            lat_offset = distance_km * cos angle / KM_PER_DEGREE_LAT;
            km_per_lng = km_per_degree_lng (pt_lat center);
            lng_offset = (if km_per_lng \<noteq> 0 then distance_km * sin angle / km_per_lng else 0)
        in State_Monad.return \<lparr>pt_lat = pt_lat center + lat_offset, pt_lng = pt_lng center + lng_offset\<rparr> })"

definition random_point_biased :: "point \<Rightarrow> real \<Rightarrow> point \<Rightarrow> real \<Rightarrow> real \<Rightarrow> (random, point) state" where
  "random_point_biased area_center area_radius_km hotspot_center hotspot_radius_km hotspot_fraction =
     do {
       u \<leftarrow> random_unit;
       if u < hotspot_fraction then random_point_in_radius hotspot_center hotspot_radius_km
       else random_point_in_radius area_center area_radius_km }"

primrec generate_points :: "point \<Rightarrow> real \<Rightarrow> nat \<Rightarrow> (random, point list) state" where
  "generate_points center radius_km 0 = State_Monad.return []"
| "generate_points center radius_km (Suc n) =
     do {
       p \<leftarrow> random_point_in_radius center radius_km;
       ps \<leftarrow> generate_points center radius_km n;
       State_Monad.return (p # ps) }"

section \<open>movement.py\<close>

definition clamp_to_area :: "point \<Rightarrow> point \<Rightarrow> real \<Rightarrow> point" where
  "clamp_to_area position area_center area_radius_km =
     (let km_per_lng = km_per_degree_lng (pt_lat area_center);
          dx_km = (pt_lng position - pt_lng area_center) * km_per_lng;
          dy_km = (pt_lat position - pt_lat area_center) * KM_PER_DEGREE_LAT;
          distance_from_center = sqrt (dx_km ^ 2 + dy_km ^ 2)
      in if distance_from_center \<le> area_radius_km \<or> distance_from_center = 0 then position
         else let scale = area_radius_km / distance_from_center
              in \<lparr>pt_lat = pt_lat area_center + dy_km * scale / KM_PER_DEGREE_LAT,
                  pt_lng = (if km_per_lng \<noteq> 0 then pt_lng area_center + dx_km * scale / km_per_lng
                            else pt_lng area_center)\<rparr>)"

definition movement_step :: "point \<Rightarrow> point \<Rightarrow> real \<Rightarrow> real \<Rightarrow> real \<Rightarrow> (random, point) state" where
  "movement_step position area_center area_radius_km speed_kmh interval_seconds =
     (let max_distance_km = speed_kmh * (interval_seconds / 3600)
      in do {
        distance_km \<leftarrow> uniform 0 max_distance_km;
        angle \<leftarrow> uniform 0 (2 * pi);
        let lat_offset = distance_km * cos angle / KM_PER_DEGREE_LAT;
            km_per_lng = km_per_degree_lng (pt_lat position);
            lng_offset = (if km_per_lng \<noteq> 0 then distance_km * sin angle / km_per_lng else 0);
            moved = \<lparr>pt_lat = pt_lat position + lat_offset, pt_lng = pt_lng position + lng_offset\<rparr>
        in State_Monad.return (clamp_to_area moved area_center area_radius_km) })"

section \<open>Distances on the flat map\<close>

text \<open>The local map at a center: kilometres east and north of it, and the distance.\<close>

definition east_km :: "point \<Rightarrow> point \<Rightarrow> real" where
  "east_km c p = (pt_lng p - pt_lng c) * km_per_degree_lng (pt_lat c)"

definition north_km :: "point \<Rightarrow> point \<Rightarrow> real" where
  "north_km c p = (pt_lat p - pt_lat c) * KM_PER_DEGREE_LAT"

definition flat_km :: "point \<Rightarrow> point \<Rightarrow> real" where
  "flat_km c p = sqrt (east_km c p ^ 2 + north_km c p ^ 2)"

definition displaced :: "point \<Rightarrow> real \<Rightarrow> real \<Rightarrow> point" where
  "displaced p distance_km angle =
     \<lparr>pt_lat = pt_lat p + distance_km * cos angle / KM_PER_DEGREE_LAT,
      pt_lng = pt_lng p + (if km_per_degree_lng (pt_lat p) \<noteq> 0
                 then distance_km * sin angle / km_per_degree_lng (pt_lat p) else 0)\<rparr>"

lemma km_lat_pos [simp]: "0 < KM_PER_DEGREE_LAT" "KM_PER_DEGREE_LAT \<noteq> 0"
  by (simp_all add: KM_PER_DEGREE_LAT_def)

lemma flat_km_displaced_le:
  assumes "0 \<le> r"
  shows "flat_km p (displaced p r angle) \<le> r"
proof -
  have n: "north_km p (displaced p r angle) = r * cos angle"
    by (simp add: north_km_def displaced_def)
  have e: "\<bar>east_km p (displaced p r angle)\<bar> \<le> \<bar>r * sin angle\<bar>"
    by (simp add: east_km_def displaced_def)
  have "east_km p (displaced p r angle) ^ 2 + north_km p (displaced p r angle) ^ 2
      \<le> (r * sin angle) ^ 2 + (r * cos angle) ^ 2"
    unfolding n using power_mono [OF e, of 2] by simp
  also have "\<dots> = r ^ 2"
    by (simp add: power_mult_distrib flip: distrib_left)
  finally show ?thesis unfolding flat_km_def using assms by (simp add: real_le_lsqrt)
qed

lemma flat_km_self [simp]: "flat_km c c = 0"
  by (simp add: flat_km_def east_km_def north_km_def)

lemma clamp_to_area_eq:
  "clamp_to_area p c r =
     (if flat_km c p \<le> r \<or> flat_km c p = 0 then p
      else \<lparr>pt_lat = pt_lat c + north_km c p * (r / flat_km c p) / KM_PER_DEGREE_LAT,
            pt_lng = (if km_per_degree_lng (pt_lat c) \<noteq> 0
              then pt_lng c + east_km c p * (r / flat_km c p) / km_per_degree_lng (pt_lat c) else pt_lng c)\<rparr>)"
  by (simp add: clamp_to_area_def Let_def flat_km_def east_km_def north_km_def)

text \<open>A point outside lands on the boundary, on the same bearing from the center.\<close>

lemma clamp_outside:
  assumes "0 \<le> r" and "r < flat_km c p"
  shows "east_km c (clamp_to_area p c r) = east_km c p * (r / flat_km c p)"
    and "north_km c (clamp_to_area p c r) = north_km c p * (r / flat_km c p)"
    and "flat_km c (clamp_to_area p c r) = r"
proof -
  let ?s = "r / flat_km c p"
  show e: "east_km c (clamp_to_area p c r) = east_km c p * ?s"
    using assms by (simp add: clamp_to_area_eq east_km_def)
  show n: "north_km c (clamp_to_area p c r) = north_km c p * ?s"
    using assms by (simp add: clamp_to_area_eq north_km_def)
  have "flat_km c (clamp_to_area p c r) = sqrt (?s ^ 2 * (east_km c p ^ 2 + north_km c p ^ 2))"
    unfolding flat_km_def [of c "clamp_to_area p c r"] e n
    by (simp add: power_mult_distrib power_divide add_divide_distrib algebra_simps)
  also have "\<dots> = \<bar>?s\<bar> * flat_km c p"
    by (simp add: real_sqrt_mult flat_km_def)
  also have "\<dots> = r" using assms by simp
  finally show "flat_km c (clamp_to_area p c r) = r" .
qed

lemma clamp_inside: "flat_km c p \<le> r \<Longrightarrow> clamp_to_area p c r = p"
  by (simp add: clamp_to_area_eq)

lemma clamp_in_area: "0 \<le> r \<Longrightarrow> flat_km c (clamp_to_area p c r) \<le> r"
  using clamp_outside(3) [of r c p] clamp_inside [of c p r] by (cases "flat_km c p \<le> r") auto

section \<open>Generated points\<close>

lemma run_random_point:
  "run_state (random_point_in_radius c r) rng =
     (if r \<le> 0 then (c, rng)
      else (displaced c (r * sqrt (shd (stl rng))) (2 * pi * shd rng), stl (stl rng)))"
  by (simp add: random_point_in_radius_def Let_def displaced_def)

lemma random_point_in_area:
  assumes "unit_draws rng" and "0 \<le> r"
  shows "flat_km c (fst (run_state (random_point_in_radius c r) rng)) \<le> r"
    and "unit_draws (snd (run_state (random_point_in_radius c r) rng))"
proof -
  let ?u = "shd (stl rng)"
  have u: "0 \<le> ?u" "?u < 1" using unit_draws_head [OF unit_draws_tail [OF assms(1)]] by auto
  then have "r * sqrt ?u \<le> r" "0 \<le> r * sqrt ?u"
    using assms(2) by (simp_all add: mult_left_le real_sqrt_le_1_iff)
  then have "flat_km c (displaced c (r * sqrt ?u) a) \<le> r" for a
    using flat_km_displaced_le [of "r * sqrt ?u" c a] by linarith
  then show "flat_km c (fst (run_state (random_point_in_radius c r) rng)) \<le> r"
    using assms(2) by (simp add: run_random_point)
  show "unit_draws (snd (run_state (random_point_in_radius c r) rng))"
    using assms(1) by (simp add: run_random_point unit_draws_tail)
qed

lemma generate_points_in_area:
  assumes "unit_draws rng" and "0 \<le> r"
  shows "length (fst (run_state (generate_points c r n) rng)) = n
    \<and> (\<forall>p \<in> set (fst (run_state (generate_points c r n) rng)). flat_km c p \<le> r)"
  using assms(1)
proof (induction n arbitrary: rng)
  case (Suc n)
  obtain p rng' where p: "run_state (random_point_in_radius c r) rng = (p, rng')" by fastforce
  obtain ps rng'' where ps: "run_state (generate_points c r n) rng' = (ps, rng'')" by fastforce
  from random_point_in_area [OF Suc.prems assms(2), of c] Suc.IH [of rng'] p ps
  show ?case by simp
qed simp

text \<open>A fleet is generated with the wanted number of drivers, all within the simulated area; a ride
  request starts in the hotspot or in the area, in the hotspot exactly when the first draw says so.\<close>

theorem generated_points_lie_in_area:
  assumes "unit_draws rng" and "0 \<le> area_km" and "0 \<le> hotspot_km"
  shows "length (fst (run_state (generate_points area area_km n) rng)) = n
    \<and> list_all (\<lambda>p. flat_km area p \<le> area_km) (fst (run_state (generate_points area area_km n) rng))
    \<and> (let p = fst (run_state (random_point_biased area area_km hotspot hotspot_km fraction) rng)
       in if shd rng < fraction then flat_km hotspot p \<le> hotspot_km else flat_km area p \<le> area_km)"
  using generate_points_in_area [OF assms(1,2), of area n]
    random_point_in_area(1) [OF unit_draws_tail [OF assms(1)] assms(2), of area]
    random_point_in_area(1) [OF unit_draws_tail [OF assms(1)] assms(3), of hotspot]
  by (simp add: random_point_biased_def list_all_iff)

lemma unit_draws_half: "unit_draws (sconst (1 / 2))"
  by (simp add: unit_draws_def)

theorem generated_points_lie_in_area_witness:
  "length (fst (run_state (generate_points \<lparr>pt_lat = 0, pt_lng = 0\<rparr> 5 50) (sconst (1 / 2)))) = 50
   \<and> flat_km \<lparr>pt_lat = 0, pt_lng = 0\<rparr>
       (fst (run_state (random_point_biased \<lparr>pt_lat = 0, pt_lng = 0\<rparr> 5 \<lparr>pt_lat = 0, pt_lng = 0\<rparr> 1 (7 / 10)) (sconst (1 / 2)))) \<le> 1"
  using generated_points_lie_in_area [OF unit_draws_half, of 5 1 "\<lparr>pt_lat = 0, pt_lng = 0\<rparr>" 50
      "\<lparr>pt_lat = 0, pt_lng = 0\<rparr>" "7 / 10"]
  by (simp add: Let_def)

section \<open>Movement\<close>

lemma run_movement_step:
  "run_state (movement_step p c r speed interval) rng =
     (clamp_to_area (displaced p (speed * (interval / 3600) * shd rng) (2 * pi * shd (stl rng))) c r, stl (stl rng))"
  by (simp add: movement_step_def Let_def displaced_def)

text \<open>C39: a move never leaves the simulated area: the driver is displaced by at most its speed times the
  interval, and when that would carry it outside, it is put on the boundary, at the same bearing from the
  center (clamped, not reflected back inside).\<close>

theorem movement_stays_in_area:
  assumes "unit_draws rng" and "0 \<le> r" and "0 \<le> speed * (interval / 3600)"
  shows "\<exists>moved q. fst (run_state (movement_step p c r speed interval) rng) = q
    \<and> flat_km p moved \<le> speed * (interval / 3600)
    \<and> flat_km c q \<le> r
    \<and> (if flat_km c moved \<le> r then q = moved
       else flat_km c q = r \<and> (\<exists>s \<ge> 0. east_km c q = s * east_km c moved \<and> north_km c q = s * north_km c moved))"
proof -
  let ?d = "speed * (interval / 3600) * shd rng"
  let ?moved = "displaced p ?d (2 * pi * shd (stl rng))"
  let ?q = "clamp_to_area ?moved c r"
  have "?d \<le> speed * (interval / 3600)" "0 \<le> ?d"
    using unit_draws_head [OF assms(1)] assms(3) by (simp_all add: mult_left_le)
  then have "flat_km p ?moved \<le> speed * (interval / 3600)"
    using flat_km_displaced_le [of ?d p "2 * pi * shd (stl rng)"] by linarith
  moreover have "east_km c ?q = (r / flat_km c ?moved) * east_km c ?moved"
    "north_km c ?q = (r / flat_km c ?moved) * north_km c ?moved" "flat_km c ?q = r" if "\<not> flat_km c ?moved \<le> r"
    using clamp_outside [of r c ?moved] assms(2) that by simp_all
  moreover have "0 \<le> r / flat_km c ?moved" using assms(2) by (simp add: flat_km_def)
  ultimately show ?thesis
    using clamp_in_area [OF assms(2), of c ?moved] clamp_inside [of c ?moved r]
    by (intro exI [of _ ?moved] exI [of _ ?q]) (auto simp: run_movement_step)
qed

theorem movement_stays_in_area_witness:
  "flat_km \<lparr>pt_lat = 0, pt_lng = 0\<rparr> (fst (run_state (movement_step \<lparr>pt_lat = 0, pt_lng = 0\<rparr> \<lparr>pt_lat = 0, pt_lng = 0\<rparr> 5 20 2)
     (sconst (1 / 2)))) \<le> 5"
  using movement_stays_in_area [OF unit_draws_half, of 5 20 2 "\<lparr>pt_lat = 0, pt_lng = 0\<rparr>" "\<lparr>pt_lat = 0, pt_lng = 0\<rparr>"]
  by auto

end
