(* ===== verification/Simulation.thy ===== *)
theory Simulation
  imports SimGeo Api
begin

text \<open>
  The simulation's configuration (app/simulation/config.py), its command line (__main__.py) and the
  methods of its HTTP client (client.py). An HTTP client is a function from requests to responses, None
  for an exchange that raised.
\<close>

section \<open>config.py\<close>

definition DEFAULT_AREA_CENTER_LAT :: real where "DEFAULT_AREA_CENTER_LAT = 37.7749"
definition DEFAULT_AREA_CENTER_LNG :: real where "DEFAULT_AREA_CENTER_LNG = - 122.4194"

record sim_config =
  api_url :: string
  num_drivers :: int
  num_riders :: int
  area_center_lat :: real
  area_center_lng :: real
  area_radius_km :: real
  hotspot_fraction :: real
  hotspot_center_lat :: "real option"
  hotspot_center_lng :: "real option"
  hotspot_radius_km :: "real option"
  request_rate :: real
  burst_size :: int
  duration_seconds :: real
  driver_speed_kmh :: real
  movement_interval_seconds :: real
  ride_duration_min_seconds :: real
  ride_duration_max_seconds :: real
  cancel_fraction :: real
  seed :: "int option"

definition default_sim_config :: sim_config where
  "default_sim_config = \<lparr>
     api_url = ''http://localhost:8000'', num_drivers = 50, num_riders = 500,
     area_center_lat = DEFAULT_AREA_CENTER_LAT, area_center_lng = DEFAULT_AREA_CENTER_LNG,
     area_radius_km = 5, hotspot_fraction = 0.7, hotspot_center_lat = None, hotspot_center_lng = None,
     hotspot_radius_km = None, request_rate = 5, burst_size = 5, duration_seconds = 60,
     driver_speed_kmh = 20, movement_interval_seconds = 2, ride_duration_min_seconds = 5,
     ride_duration_max_seconds = 15, cancel_fraction = 0.1, seed = None\<rparr>"

definition area_center :: "sim_config \<Rightarrow> point" where
  "area_center c = \<lparr>pt_lat = area_center_lat c, pt_lng = area_center_lng c\<rparr>"

definition resolved_hotspot_center :: "sim_config \<Rightarrow> point" where
  "resolved_hotspot_center c =
     \<lparr>pt_lat = (case hotspot_center_lat c of Some x \<Rightarrow> x | None \<Rightarrow> area_center_lat c),
      pt_lng = (case hotspot_center_lng c of Some x \<Rightarrow> x | None \<Rightarrow> area_center_lng c)\<rparr>"

text \<open>Python's \<open>round\<close>: to the nearest, ties to even.\<close>

definition round_half_even :: "real \<Rightarrow> int" where
  "round_half_even x =
     (let f = \<lfloor>x\<rfloor>; d = x - real_of_int f
      in if d < 1 / 2 then f else if d > 1 / 2 then f + 1 else if even f then f else f + 1)"

definition round_to :: "nat \<Rightarrow> real \<Rightarrow> real" where
  "round_to n x = real_of_int (round_half_even (x * 10 ^ n)) / 10 ^ n"

text \<open>\<open>h3.cell_to_latlng\<close> is a parameter, like the rest of the package.\<close>

definition default_hotspot_radius_km ::
  "h3_lib \<Rightarrow> (string \<Rightarrow> real \<times> real) \<Rightarrow> settings \<Rightarrow> real \<Rightarrow> real \<Rightarrow> exn + real" where
  "default_hotspot_radius_km h cell_to_latlng cfg center_lat center_lng =
     (let center_cell = latlng_to_h3 h center_lat center_lng (h3_resolution cfg)
      in case cells_within_ring h center_cell (match_max_ring cfg) of
           Inl e \<Rightarrow> Inl e
         | Inr outer_ring \<Rightarrow>
             if outer_ring = {} then Inr 1
             else let distances = (\<lambda>cell. case cell_to_latlng cell of (lat, lng) \<Rightarrow>
                        haversine_km center_lat center_lng lat lng) ` outer_ring
                  in Inr (round_to 2 (Max distances)))"

definition resolved_hotspot_radius_km ::
  "h3_lib \<Rightarrow> (string \<Rightarrow> real \<times> real) \<Rightarrow> settings \<Rightarrow> sim_config \<Rightarrow> exn + real" where
  "resolved_hotspot_radius_km h cell_to_latlng cfg c =
     (case hotspot_radius_km c of
        Some r \<Rightarrow> Inr r
      | None \<Rightarrow> default_hotspot_radius_km h cell_to_latlng cfg (area_center_lat c) (area_center_lng c))"

text \<open>None is the infinite interval.\<close>

definition tick_interval_seconds :: "sim_config \<Rightarrow> real option" where
  "tick_interval_seconds c =
     (if request_rate c \<le> 0 then None else Some (real_of_int (burst_size c) / request_rate c))"

section \<open>The hotspot radius\<close>

lemma round_half_even_error: "\<bar>real_of_int (round_half_even x) - x\<bar> \<le> 1 / 2"
  unfolding round_half_even_def Let_def by (auto split: if_splits)

lemma round_to_2_error: "\<bar>round_to 2 x - x\<bar> \<le> 1 / 200"
  using round_half_even_error [of "x * 10 ^ 2"] by (simp add: round_to_def abs_le_iff field_simps)

text \<open>Without an explicit radius the hotspot reaches as far as the matcher searches: every cell of the
  outermost ring lies within the radius, and one lies no nearer, up to the rounding to 10 metres; an empty
  ring gives 1 km.\<close>

lemma hotspot_matches_search_radius:
  assumes "0 \<le> match_max_ring cfg"
  shows "\<exists>r outer. default_hotspot_radius_km h cell_to_latlng cfg lat lng = Inr r
    \<and> cells_within_ring h (latlng_to_h3 h lat lng (h3_resolution cfg)) (match_max_ring cfg) = Inr outer
    \<and> (outer = {} \<longrightarrow> r = 1)
    \<and> (\<forall>cell \<in> outer. haversine_km lat lng (fst (cell_to_latlng cell)) (snd (cell_to_latlng cell)) \<le> r + 1 / 200)
    \<and> (outer \<noteq> {} \<longrightarrow> (\<exists>cell \<in> outer.
         r \<le> haversine_km lat lng (fst (cell_to_latlng cell)) (snd (cell_to_latlng cell)) + 1 / 200))"
proof -
  obtain outer where outer: "cells_within_ring h (latlng_to_h3 h lat lng (h3_resolution cfg)) (match_max_ring cfg) = Inr outer"
    using assms by (simp add: cells_within_ring_eq)
  then have fin: "finite outer" using assms by (auto simp: cells_within_ring_eq)
  let ?d = "\<lambda>cell. haversine_km lat lng (fst (cell_to_latlng cell)) (snd (cell_to_latlng cell))"
  show ?thesis
  proof (cases "outer = {}")
    case True
    then show ?thesis using outer by (simp add: default_hotspot_radius_km_def)
  next
    case False
    let ?r = "round_to 2 (Max (?d ` outer))"
    have "default_hotspot_radius_km h cell_to_latlng cfg lat lng = Inr ?r"
      using outer False by (simp add: default_hotspot_radius_km_def case_prod_unfold)
    moreover have "?d cell \<le> ?r + 1 / 200" if "cell \<in> outer" for cell
    proof -
      have "?d cell \<le> Max (?d ` outer)" using fin that by (intro Max_ge) auto
      then show ?thesis using round_to_2_error [of "Max (?d ` outer)"] by linarith
    qed
    moreover have "\<exists>cell \<in> outer. ?r \<le> ?d cell + 1 / 200"
    proof -
      have "Max (?d ` outer) \<in> ?d ` outer" using fin False by (intro Max_in) auto
      then obtain cell where "cell \<in> outer" "?d cell = Max (?d ` outer)" by auto
      moreover from this have "?r \<le> ?d cell + 1 / 200"
        using round_to_2_error [of "Max (?d ` outer)"] by linarith
      ultimately show ?thesis by blast
    qed
    ultimately show ?thesis using outer False by auto
  qed
qed

section \<open>The command line\<close>

text \<open>The parsed arguments, with the parser's defaults; options given on the command line replace them.\<close>

datatype cli_option =
    Api_url string | Num_drivers int | Num_riders int | Hotspot_fraction real
  | Area_center_lat real | Area_center_lng real | Area_radius_km real | Hotspot_radius_km real
  | Request_rate real | Burst_size int | Duration_seconds real | Driver_speed_kmh real
  | Movement_interval_seconds real | Ride_duration_min_seconds real | Ride_duration_max_seconds real
  | Cancel_fraction real | Seed int | Log_level string

record cli_args =
  parsed :: sim_config
  log_level :: string

definition default_args :: cli_args where
  "default_args = \<lparr>parsed = default_sim_config\<lparr>hotspot_radius_km := None, seed := None\<rparr>, log_level = ''WARNING''\<rparr>"

fun add_argument :: "cli_option \<Rightarrow> cli_args \<Rightarrow> cli_args" where
  "add_argument (Log_level l) a = a\<lparr>log_level := l\<rparr>"
| "add_argument opt a = a\<lparr>parsed := (case opt of
     Api_url x \<Rightarrow> (parsed a)\<lparr>api_url := x\<rparr>
   | Num_drivers x \<Rightarrow> (parsed a)\<lparr>num_drivers := x\<rparr>
   | Num_riders x \<Rightarrow> (parsed a)\<lparr>num_riders := x\<rparr>
   | Hotspot_fraction x \<Rightarrow> (parsed a)\<lparr>hotspot_fraction := x\<rparr>
   | Area_center_lat x \<Rightarrow> (parsed a)\<lparr>area_center_lat := x\<rparr>
   | Area_center_lng x \<Rightarrow> (parsed a)\<lparr>area_center_lng := x\<rparr>
   | Area_radius_km x \<Rightarrow> (parsed a)\<lparr>area_radius_km := x\<rparr>
   | Hotspot_radius_km x \<Rightarrow> (parsed a)\<lparr>hotspot_radius_km := Some x\<rparr>
   | Request_rate x \<Rightarrow> (parsed a)\<lparr>request_rate := x\<rparr>
   | Burst_size x \<Rightarrow> (parsed a)\<lparr>burst_size := x\<rparr>
   | Duration_seconds x \<Rightarrow> (parsed a)\<lparr>duration_seconds := x\<rparr>
   | Driver_speed_kmh x \<Rightarrow> (parsed a)\<lparr>driver_speed_kmh := x\<rparr>
   | Movement_interval_seconds x \<Rightarrow> (parsed a)\<lparr>movement_interval_seconds := x\<rparr>
   | Ride_duration_min_seconds x \<Rightarrow> (parsed a)\<lparr>ride_duration_min_seconds := x\<rparr>
   | Ride_duration_max_seconds x \<Rightarrow> (parsed a)\<lparr>ride_duration_max_seconds := x\<rparr>
   | Cancel_fraction x \<Rightarrow> (parsed a)\<lparr>cancel_fraction := x\<rparr>
   | Seed x \<Rightarrow> (parsed a)\<lparr>seed := Some x\<rparr>
   | Log_level l \<Rightarrow> parsed a)\<rparr>"

definition parse_args :: "cli_option list \<Rightarrow> cli_args" where
  "parse_args opts = fold add_argument opts default_args"

text \<open>Every field but the hotspot's center is copied; the center keeps its default.\<close>

definition config_from_args :: "cli_args \<Rightarrow> sim_config" where
  "config_from_args a = default_sim_config\<lparr>
     api_url := api_url (parsed a), num_drivers := num_drivers (parsed a), num_riders := num_riders (parsed a),
     hotspot_fraction := hotspot_fraction (parsed a), area_center_lat := area_center_lat (parsed a),
     area_center_lng := area_center_lng (parsed a), area_radius_km := area_radius_km (parsed a),
     hotspot_radius_km := hotspot_radius_km (parsed a), request_rate := request_rate (parsed a),
     burst_size := burst_size (parsed a), duration_seconds := duration_seconds (parsed a),
     driver_speed_kmh := driver_speed_kmh (parsed a),
     movement_interval_seconds := movement_interval_seconds (parsed a),
     ride_duration_min_seconds := ride_duration_min_seconds (parsed a),
     ride_duration_max_seconds := ride_duration_max_seconds (parsed a),
     cancel_fraction := cancel_fraction (parsed a), seed := seed (parsed a)\<rparr>"

section \<open>client.py\<close>

text \<open>An HTTP exchange ends in a response or in a transport exception (None). \<open>raise_for_status\<close> raises
  unless the response is a success; the other methods return its body.\<close>

definition raise_for_status :: "http option \<Rightarrow> body option" where
  "raise_for_status resp =
     (case resp of Some (Response status b) \<Rightarrow> if 200 \<le> status \<and> status < 300 then Some b else None
      | _ \<Rightarrow> None)"

type_synonym http_client = "request \<Rightarrow> http option"

definition client_create_driver :: "http_client \<Rightarrow> real \<Rightarrow> real \<Rightarrow> body option" where
  "client_create_driver send lat lng = raise_for_status (send (PostDriver lat lng))"

definition client_update_driver_location :: "http_client \<Rightarrow> uuid \<Rightarrow> real \<Rightarrow> real \<Rightarrow> body option" where
  "client_update_driver_location send i lat lng = raise_for_status (send (PatchDriverLocation i lat lng))"

definition client_create_rider :: "http_client \<Rightarrow> real \<Rightarrow> real \<Rightarrow> body option" where
  "client_create_rider send lat lng = raise_for_status (send (PostRider lat lng))"

text \<open>A ride request returns the status and the JSON body, empty when the response is not JSON.\<close>

definition client_request_ride :: "http_client \<Rightarrow> uuid \<Rightarrow> real \<Rightarrow> real \<Rightarrow> (int \<times> body option) option" where
  "client_request_ride send rider lat lng =
     (case send (PostRide rider lat lng None) of
        None \<Rightarrow> None
      | Some (Response status b) \<Rightarrow> Some (status, Some b)
      | Some (ServerError e) \<Rightarrow> Some (500, None))"

definition client_get_ride :: "http_client \<Rightarrow> uuid \<Rightarrow> body option" where
  "client_get_ride send i = raise_for_status (send (ReadRide i))"

definition client_cancel_ride :: "http_client \<Rightarrow> uuid \<Rightarrow> body option" where
  "client_cancel_ride send i = raise_for_status (send (CancelRide i))"

definition client_complete_ride :: "http_client \<Rightarrow> uuid \<Rightarrow> body option" where
  "client_complete_ride send i = raise_for_status (send (CompleteRide i))"

definition client_get_stats :: "http_client \<Rightarrow> body option" where
  "client_get_stats send = raise_for_status (send ReadStats)"

definition client_get_zone_surge :: "http_client \<Rightarrow> string \<Rightarrow> body option" where
  "client_get_zone_surge send z = raise_for_status (send (ReadZoneSurge z))"

end
