(* ===== verification/Reporting.thy ===== *)
theory Reporting
  imports Metrics Simulation
begin

text \<open>
  The report of a simulation run (app/simulation/reporting.py): collected outcomes, their summary and
  its printed form.
\<close>

section \<open>Outcomes and their summary\<close>

record sim_outcome =
  so_outcome :: outcome
  so_latency_seconds :: real
  so_status_code :: "int option"
  so_ride_id :: "string option"
  so_driver_id :: "string option"

definition results_record :: "sim_outcome \<Rightarrow> sim_outcome list \<Rightarrow> sim_outcome list" where
  "results_record oc outcomes = outcomes @ [oc]"

record simulation_summary =
  total_requests :: nat
  matched :: nat
  unmatched :: nat
  errors :: nat
  sum_p50_latency_ms :: real
  sum_p95_latency_ms :: real
  sum_p99_latency_ms :: real

definition match_rate :: "simulation_summary \<Rightarrow> real" where
  "match_rate s = (if total_requests s \<noteq> 0 then real (matched s) / real (total_requests s) else 0)"

text \<open>The client's own copy of the percentile helper.\<close>

definition sim_percentile :: "real list \<Rightarrow> real \<Rightarrow> real" where
  "sim_percentile sorted_values pct =
     (if sorted_values = [] then 0
      else if length sorted_values = 1 then sorted_values ! 0
      else let q = quantiles sorted_values 100;
               index = min (max (py_int pct - 1) 0) (int (length q) - 1)
           in q ! nat index)"

definition count_outcome :: "outcome \<Rightarrow> sim_outcome list \<Rightarrow> nat" where
  "count_outcome oc outcomes = length (filter (\<lambda>x. so_outcome x = oc) outcomes)"

definition summarize :: "sim_outcome list \<Rightarrow> simulation_summary" where
  "summarize outcomes =
     (let ms = sort (map (\<lambda>x. so_latency_seconds x * 1000) outcomes)
      in \<lparr>total_requests = length outcomes,
          matched = count_outcome OMatched outcomes,
          unmatched = count_outcome OUnmatched outcomes,
          errors = count_outcome OError outcomes,
          sum_p50_latency_ms = sim_percentile ms 50,
          sum_p95_latency_ms = sim_percentile ms 95,
          sum_p99_latency_ms = sim_percentile ms 99\<rparr>)"

section \<open>The printed summary\<close>

fun nat_str :: "nat \<Rightarrow> string" where
  "nat_str n = (if n < 10 then [char_of (48 + n)] else nat_str (n div 10) @ [char_of (48 + n mod 10)])"

declare nat_str.simps [simp del]

text \<open>The format \<open>.1f\<close>: rounded to one decimal, ties to even.\<close>

definition fixed1 :: "real \<Rightarrow> string" where
  "fixed1 x =
     (let n = nat (round_half_even (\<bar>x\<bar> * 10))
      in (if x < 0 then ''-'' else []) @ nat_str (n div 10) @ ''.'' @ nat_str (n mod 10))"

definition summary_lines :: "simulation_summary \<Rightarrow> string list" where
  "summary_lines s =
     [''=== Simulation summary ==='',
      ''Total ride requests fired: '' @ nat_str (total_requests s),
      ''  Matched:   '' @ nat_str (matched s),
      ''  Unmatched: '' @ nat_str (unmatched s),
      ''  Errors:    '' @ nat_str (errors s),
      ''  Match rate: '' @ fixed1 (match_rate s * 100) @ ''%'',
      ''Latency (client-measured, ms): '' @
      ''p50='' @ fixed1 (sum_p50_latency_ms s) @ '' '' @
      ''p95='' @ fixed1 (sum_p95_latency_ms s) @ '' '' @
      ''p99='' @ fixed1 (sum_p99_latency_ms s)]"

fun join_lines :: "string list \<Rightarrow> string" where
  "join_lines [] = []"
| "join_lines [l] = l"
| "join_lines (l # ls) = l @ [CHR 0x0A] @ join_lines ls"

definition format_summary :: "simulation_summary \<Rightarrow> string" where
  "format_summary s = join_lines (summary_lines s)"

text \<open>A printed report, as a check of the definitions.\<close>

lemma format_example:
  "format_summary (summarize [\<lparr>so_outcome = OMatched, so_latency_seconds = 1 / 80, so_status_code = Some 201,
      so_ride_id = Some ''r'', so_driver_id = Some ''d''\<rparr>]) =
   ''=== Simulation summary ==='' @ [CHR 0x0A] @ ''Total ride requests fired: 1'' @ [CHR 0x0A] @
   ''  Matched:   1'' @ [CHR 0x0A] @ ''  Unmatched: 0'' @ [CHR 0x0A] @ ''  Errors:    0'' @ [CHR 0x0A] @
   ''  Match rate: 100.0%'' @ [CHR 0x0A] @ ''Latency (client-measured, ms): p50=12.5 p95=12.5 p99=12.5''"
  by (simp add: format_summary_def summary_lines_def summarize_def count_outcome_def sim_percentile_def
      match_rate_def fixed1_def round_half_even_def nat_str.simps char_of_def bit_0 Let_def)

section \<open>The summary against the server's metrics\<close>

lemma sim_percentile_eq: "sim_percentile xs p = percentile xs p"
  by (cases xs rule: remdups_adj.cases) (simp_all add: sim_percentile_def percentile_def)

lemma count_outcomes_total:
  "count_outcome OMatched os + count_outcome OUnmatched os + count_outcome OError os = length os"
proof (induction os)
  case (Cons x os)
  then show ?case by (cases "so_outcome x") (simp_all add: count_outcome_def)
qed (simp add: count_outcome_def)



end
