(* ===== verification/SimRunner.thy ===== *)
theory SimRunner
  imports Reporting
begin

text \<open>
  The simulation runner (app/simulation/runner.py). The request loop is a recursive function; what its
  worker threads, the lifecycle thread and the movement thread do to the shared state, each under its
  lock, are the steps of a relation.
\<close>

section \<open>State and setup\<close>

record pending_lifecycle =
  pl_ride_id :: string
  due_at :: real
  cancels :: bool

text \<open>
  \<open>to_schedule\<close>: rides whose outcome is recorded and whose worker has not scheduled their end yet;
  \<open>due_rides\<close>: what the lifecycle thread took and has not ended yet; \<open>ended_rides\<close>: the calls it made.
\<close>

record sim =
  results :: "sim_outcome list"
  tracked :: "(string \<times> point) list"
  to_schedule :: "string list"
  pending_rides :: "pending_lifecycle list"
  due_rides :: "pending_lifecycle list"
  ended_rides :: "pending_lifecycle list"

text \<open>Creating the fleet: an exception of a call ends the run (None).\<close>

fun create_drivers :: "(point \<times> body option) list \<Rightarrow> (string \<times> point) list \<Rightarrow> (string \<times> point) list option" where
  "create_drivers [] ds = Some ds"
| "create_drivers ((p, Some (BDriver d)) # rest) ds = create_drivers rest (ds @ [(d_id d, p)])"
| "create_drivers ((p, _) # rest) ds = None"

section \<open>Movement\<close>

definition move_one :: "sim_config \<Rightarrow> random \<Rightarrow> bool \<Rightarrow> string \<times> point \<Rightarrow> string \<times> point" where
  "move_one c rng ok d =
     (let new_position = fst (run_state (movement_step (snd d) (area_center c) (area_radius_km c)
                            (driver_speed_kmh c) (movement_interval_seconds c)) rng)
      in if ok then (fst d, new_position) else d)"

section \<open>The end of rides\<close>

definition schedule_lifecycle :: "sim_config \<Rightarrow> real \<Rightarrow> string \<Rightarrow> (random, pending_lifecycle) state" where
  "schedule_lifecycle c now ride_id =
     do {
       delay \<leftarrow> uniform (ride_duration_min_seconds c) (ride_duration_max_seconds c);
       u \<leftarrow> random_unit;
       State_Monad.return \<lparr>pl_ride_id = ride_id, due_at = now + delay, cancels = (u < cancel_fraction c)\<rparr> }"

definition lifecycle_tick :: "real \<Rightarrow> sim \<Rightarrow> sim" where
  "lifecycle_tick now s =
     s\<lparr>due_rides := filter (\<lambda>p. due_at p \<le> now) (pending_rides s),
       pending_rides := filter (\<lambda>p. now < due_at p) (pending_rides s)\<rparr>"

text \<open>The call that ends a ride; an exception is logged.\<close>

definition end_ride :: "http_client \<Rightarrow> pending_lifecycle \<Rightarrow> body option" where
  "end_ride send p =
     (if cancels p then client_cancel_ride send (pl_ride_id p) else client_complete_ride send (pl_ride_id p))"

section \<open>Requests\<close>

text \<open>What a worker makes of the response to its request: the outcome it records, and the ride whose end
  it schedules.\<close>

definition worker_outcome :: "real \<Rightarrow> (int \<times> body option) option \<Rightarrow> sim_outcome \<times> string option" where
  "worker_outcome latency reply =
     (case reply of
        None \<Rightarrow> (\<lparr>so_outcome = OError, so_latency_seconds = latency, so_status_code = None,
                   so_ride_id = None, so_driver_id = None\<rparr>, None)
      | Some (status, body) \<Rightarrow>
          if status \<noteq> 201 then
            (\<lparr>so_outcome = OError, so_latency_seconds = latency, so_status_code = Some status,
              so_ride_id = None, so_driver_id = None\<rparr>, None)
          else
            let driver = (case body of Some (BRide r) \<Rightarrow> rr_driver_id r | _ \<Rightarrow> None);
                ride = (case body of Some (BRide r) \<Rightarrow> Some (rr_id r) | _ \<Rightarrow> None)
            in if driver \<noteq> None \<and> driver \<noteq> Some [] then
                 (\<lparr>so_outcome = OMatched, so_latency_seconds = latency, so_status_code = Some status,
                   so_ride_id = ride, so_driver_id = driver\<rparr>, ride)
               else
                 (\<lparr>so_outcome = OUnmatched, so_latency_seconds = latency, so_status_code = Some status,
                   so_ride_id = ride, so_driver_id = None\<rparr>, None))"

definition finish_request :: "real \<Rightarrow> (int \<times> body option) option \<Rightarrow> sim \<Rightarrow> sim" where
  "finish_request latency reply s =
     (case worker_outcome latency reply of (oc, ride) \<Rightarrow>
        s\<lparr>results := results_record oc (results s),
          to_schedule := to_schedule s @ (case ride of Some i \<Rightarrow> [i] | None \<Rightarrow> [])\<rparr>)"

text \<open>The riders of a burst, one reply to the creation of each; a failed creation skips the slot.\<close>

fun burst_riders :: "sim_config \<Rightarrow> real \<Rightarrow> body option list \<Rightarrow> (random, (string \<times> point) list) state" where
  "burst_riders c hotspot_km [] = State_Monad.return []"
| "burst_riders c hotspot_km (reply # replies) =
     do {
       p \<leftarrow> random_point_biased (area_center c) (area_radius_km c) (resolved_hotspot_center c) hotspot_km
              (hotspot_fraction c);
       riders \<leftarrow> burst_riders c hotspot_km replies;
       State_Monad.return (case reply of Some (BRider r) \<Rightarrow> (p_id r, p) # riders | _ \<Rightarrow> riders) }"

definition fire_burst ::
  "h3_lib \<Rightarrow> (string \<Rightarrow> real \<times> real) \<Rightarrow> settings \<Rightarrow> sim_config \<Rightarrow> body option list \<Rightarrow> random
     \<Rightarrow> exn + (string \<times> point) list" where
  "fire_burst h cell_to_latlng cfg c replies rng =
     (case resolved_hotspot_radius_km h cell_to_latlng cfg c of
        Inl e \<Rightarrow> if replies = [] then Inr [] else Inl e
      | Inr hotspot_km \<Rightarrow> Inr (fst (run_state (burst_riders c hotspot_km replies) rng)))"

text \<open>
  The request loop: the sizes of the bursts it fires, and whether it ends with the \<open>OverflowError\<close> that
  \<open>Event.wait\<close> raises for an infinite timeout. \<open>go n\<close> tells whether the stop event is unset and the
  end time not reached at the \<open>n\<close>-th test.
\<close>

function request_loop :: "sim_config \<Rightarrow> (nat \<Rightarrow> bool) \<Rightarrow> nat \<Rightarrow> int \<Rightarrow> int list \<times> bool" where
  "request_loop c go n riders_fired =
     (if go n \<and> riders_fired < num_riders c then
        let burst = min (burst_size c) (num_riders c - riders_fired)
        in if burst \<le> 0 then ([], False)
           else case tick_interval_seconds c of
                  None \<Rightarrow> ([burst], True)
                | Some _ \<Rightarrow>
                    (case request_loop c go (Suc n) (riders_fired + burst) of
                       (bursts, raised) \<Rightarrow> (burst # bursts, raised))
      else ([], False))"
  by pat_completeness auto

termination
  by (relation "measure (\<lambda>(c, go, n, riders_fired). nat (num_riders c - riders_fired))") auto

declare request_loop.simps [simp del]

section \<open>Steps\<close>

inductive sim_step :: "sim_config \<Rightarrow> sim \<Rightarrow> sim \<Rightarrow> bool" for c where
  request: "sim_step c s (finish_request latency reply s)"
| schedule: "to_schedule s = xs @ i # ys \<Longrightarrow> unit_draws rng \<Longrightarrow>
    sim_step c s (s\<lparr>to_schedule := xs @ ys,
      pending_rides := pending_rides s @ [fst (run_state (schedule_lifecycle c now i) rng)]\<rparr>)"
| tick: "due_rides s = [] \<Longrightarrow> sim_step c s (lifecycle_tick now s)"
| end_one: "due_rides s = p # ps \<Longrightarrow> sim_step c s (s\<lparr>due_rides := ps, ended_rides := ended_rides s @ [p]\<rparr>)"
| move: "k < length (tracked s) \<Longrightarrow> unit_draws rng \<Longrightarrow>
    sim_step c s (s\<lparr>tracked := (tracked s)[k := move_one c rng ok (tracked s ! k)]\<rparr>)"

definition start_state :: "(string \<times> point) list \<Rightarrow> sim" where
  "start_state ds = \<lparr>results = [], tracked = ds, to_schedule = [], pending_rides = [], due_rides = [],
     ended_rides = []\<rparr>"

text \<open>A run starts with the fleet created at generated points.\<close>

inductive sim_reachable :: "sim_config \<Rightarrow> sim \<Rightarrow> bool" for c where
  start: "unit_draws rng \<Longrightarrow> length replies = nat (num_drivers c) \<Longrightarrow>
    create_drivers (zip (fst (run_state (generate_points (area_center c) (area_radius_km c) (nat (num_drivers c))) rng))
      replies) [] = Some ds \<Longrightarrow> sim_reachable c (start_state ds)"
| step: "sim_reachable c s \<Longrightarrow> sim_step c s s' \<Longrightarrow> sim_reachable c s'"

section \<open>Bookkeeping of matched rides\<close>

definition matched_ids :: "sim_outcome list \<Rightarrow> string list" where
  "matched_ids os = List.map_filter (\<lambda>x. if so_outcome x = OMatched then so_ride_id x else None) os"

definition bookkeeping :: "sim \<Rightarrow> bool" where
  "bookkeeping s \<longleftrightarrow> mset (matched_ids (results s)) =
     mset (to_schedule s) + mset (map pl_ride_id (pending_rides s)) + mset (map pl_ride_id (due_rides s))
     + mset (map pl_ride_id (ended_rides s))"

lemma matched_ids_append [simp]: "matched_ids (xs @ ys) = matched_ids xs @ matched_ids ys"
  by (induction xs) (simp_all add: matched_ids_def List.map_filter_def)

lemma matched_ids_worker:
  "worker_outcome latency reply = (oc, ride) \<Longrightarrow> matched_ids [oc] = (case ride of Some i \<Rightarrow> [i] | None \<Rightarrow> [])"
  by (auto simp: worker_outcome_def matched_ids_def List.map_filter_def Let_def
      split: option.splits prod.splits if_splits body.splits)

lemma bookkeeping_step: "sim_step c s s' \<Longrightarrow> bookkeeping s \<Longrightarrow> bookkeeping s'"
proof (induction rule: sim_step.induct)
  case (request s latency reply)
  obtain oc ride where w: "worker_outcome latency reply = (oc, ride)" by fastforce
  show ?case
    using request matched_ids_worker [OF w]
    by (simp add: bookkeeping_def finish_request_def w results_record_def)
next
  case (schedule s xs i ys rng now)
  then show ?case by (simp add: bookkeeping_def schedule_lifecycle_def)
next
  case (tick s now)
  have "mset (pending_rides s) = mset (filter (\<lambda>p. due_at p \<le> now) (pending_rides s))
      + mset (filter (\<lambda>p. now < due_at p) (pending_rides s))"
    using multiset_partition [of "mset (pending_rides s)" "\<lambda>p. due_at p \<le> now"] by (simp add: not_le)
  then have "image_mset pl_ride_id (mset (pending_rides s)) =
      image_mset pl_ride_id (mset (filter (\<lambda>p. due_at p \<le> now) (pending_rides s)))
      + image_mset pl_ride_id (mset (filter (\<lambda>p. now < due_at p) (pending_rides s)))"
    by (metis image_mset_union)
  then show ?case using tick by (simp add: bookkeeping_def lifecycle_tick_def ac_simps)
qed (simp_all add: bookkeeping_def)

section \<open>Drivers stay in the area\<close>

definition fleet_in_area :: "sim_config \<Rightarrow> (string \<times> point) list \<Rightarrow> bool" where
  "fleet_in_area c ds \<longleftrightarrow> (\<forall>d \<in> set ds. flat_km (area_center c) (snd d) \<le> area_radius_km c)"

lemma create_drivers_positions:
  "create_drivers prs ds = Some ds' \<Longrightarrow> map snd ds' = map snd ds @ map fst prs"
  by (induction prs ds rule: create_drivers.induct) auto

lemma move_in_area:
  assumes "0 \<le> area_radius_km c" and "flat_km (area_center c) (snd d) \<le> area_radius_km c"
  shows "flat_km (area_center c) (snd (move_one c rng ok d)) \<le> area_radius_km c"
  using assms clamp_in_area [OF assms(1)] by (simp add: move_one_def run_movement_step)

lemma sim_invariant:
  assumes "sim_reachable c s" and "0 \<le> area_radius_km c"
  shows "bookkeeping s \<and> fleet_in_area c (tracked s)"
  using assms
proof (induction rule: sim_reachable.induct)
  case (start rng replies ds)
  let ?ps = "fst (run_state (generate_points (area_center c) (area_radius_km c) (nat (num_drivers c))) rng)"
  have "\<forall>p \<in> set ?ps. flat_km (area_center c) p \<le> area_radius_km c"
    using generate_points_in_area [OF start.hyps(1) start.prems] by blast
  moreover have "set (map snd ds) \<subseteq> set ?ps"
    using create_drivers_positions [OF start.hyps(3)] by (auto dest: set_zip_leftD)
  ultimately show ?case
    by (auto simp: start_state_def bookkeeping_def matched_ids_def fleet_in_area_def)
next
  case (step s s')
  have "fleet_in_area c (tracked s')"
    using step.hyps(2) step.IH [OF step.prems] step.prems
  proof (induction rule: sim_step.induct)
    case (move k s rng ok)
    then have "flat_km (area_center c) (snd (move_one c rng ok (tracked s ! k))) \<le> area_radius_km c"
      by (intro move_in_area) (simp_all add: fleet_in_area_def)
    with move show ?case
      by (auto simp: fleet_in_area_def dest!: set_update_subset_insert [THEN subsetD])
  next
    case (request s latency reply)
    then show ?case by (simp add: finish_request_def split: prod.split)
  qed (simp_all add: lifecycle_tick_def)
  then show ?case using bookkeeping_step [OF step.hyps(2)] step.IH [OF step.prems] by blast
qed

text \<open>Under any interleaving of the worker, lifecycle and movement threads, each ride recorded as
  matched is exactly once in one of the four places from its recording to the call that ends it, so that
  no ride is ended that was not matched, and none more often than it was matched; and every driver stays
  within the simulated area.\<close>

theorem simulation_bookkeeping:
  assumes "sim_reachable c s" and "0 \<le> area_radius_km c"
  shows "mset (matched_ids (results s)) =
      mset (to_schedule s) + mset (map pl_ride_id (pending_rides s)) + mset (map pl_ride_id (due_rides s))
      + mset (map pl_ride_id (ended_rides s))
    \<and> (\<forall>i. count (mset (map pl_ride_id (ended_rides s))) i \<le> count (mset (matched_ids (results s))) i)
    \<and> list_all (\<lambda>(_, p). flat_km (area_center c) p \<le> area_radius_km c) (tracked s)"
proof (intro conjI)
  show eq: "mset (matched_ids (results s)) =
      mset (to_schedule s) + mset (map pl_ride_id (pending_rides s)) + mset (map pl_ride_id (due_rides s))
      + mset (map pl_ride_id (ended_rides s))"
    using sim_invariant [OF assms] by (simp add: bookkeeping_def)
  show "\<forall>i. count (mset (map pl_ride_id (ended_rides s))) i \<le> count (mset (matched_ids (results s))) i"
    unfolding eq by simp
  show "list_all (\<lambda>(_, p). flat_km (area_center c) p \<le> area_radius_km c) (tracked s)"
    using sim_invariant [OF assms] by (auto simp: fleet_in_area_def list_all_iff)
qed

text \<open>The witness: a run with no drivers, one matched ride, which is scheduled, becomes due and is ended.\<close>

definition sim_matched_reply :: "(int \<times> body option) option" where
  "sim_matched_reply = Some (201, Some (BRide \<lparr>rr_id = ''r1'', rr_rider_id = ''p1'', rr_driver_id = Some ''d1'',
     rr_status = MATCHED, rr_pickup_lat = 0, rr_pickup_lng = 0, rr_matched_at = None, rr_fare = None,
     rr_surge_multiplier = None, rr_zone_id = None, rr_created_at = 0, rr_updated_at = 0\<rparr>))"

definition sim_no_drivers :: sim_config where
  "sim_no_drivers = default_sim_config\<lparr>num_drivers := 0\<rparr>"

lemma sim_run_example:
  "\<exists>s. sim_reachable sim_no_drivers s \<and> map pl_ride_id (ended_rides s) = [''r1''] \<and> length (results s) = 1"
proof -
  let ?c = sim_no_drivers
  let ?s1 = "finish_request 1 sim_matched_reply (start_state [])"
  let ?p = "fst (run_state (schedule_lifecycle ?c 0 ''r1'') (sconst (1 / 2)))"
  let ?s2 = "?s1\<lparr>to_schedule := [], pending_rides := pending_rides ?s1 @ [?p]\<rparr>"
  let ?s3 = "lifecycle_tick 60 ?s2"
  have s1: "to_schedule ?s1 = [] @ ''r1'' # []" "length (results ?s1) = 1" "pending_rides ?s1 = []"
      "due_rides ?s1 = []" "ended_rides ?s1 = []"
    by (simp_all add: finish_request_def start_state_def sim_matched_reply_def worker_outcome_def results_record_def Let_def)
  have due: "due_at ?p \<le> 60" "pl_ride_id ?p = ''r1''"
    by (simp_all add: schedule_lifecycle_def sim_no_drivers_def default_sim_config_def)
  have "sim_reachable ?c (start_state [])"
    by (rule sim_reachable.start [OF unit_draws_half, of "[]"]) (simp_all add: sim_no_drivers_def)
  then have "sim_reachable ?c ?s1" by (rule sim_reachable.step) (rule sim_step.request)
  then have "sim_reachable ?c ?s2"
    by (rule sim_reachable.step) (use sim_step.schedule [OF s1(1) unit_draws_half] in simp)
  then have "sim_reachable ?c ?s3" by (rule sim_reachable.step) (rule sim_step.tick, simp add: s1)
  moreover have "due_rides ?s3 = [?p]" using due by (simp add: lifecycle_tick_def s1)
  ultimately have "sim_reachable ?c (?s3\<lparr>due_rides := [], ended_rides := ended_rides ?s3 @ [?p]\<rparr>)"
    using sim_reachable.step sim_step.end_one by blast
  then show ?thesis
    by (rule exI [of _ "?s3\<lparr>due_rides := [], ended_rides := ended_rides ?s3 @ [?p]\<rparr>", OF conjI])
      (simp add: due lifecycle_tick_def s1)
qed

theorem simulation_bookkeeping_witness:
  "\<exists>s. sim_reachable sim_no_drivers s \<and> map pl_ride_id (ended_rides s) = [''r1'']
     \<and> 1 \<le> count (mset (matched_ids (results s))) ''r1''"
proof -
  obtain s where s: "sim_reachable sim_no_drivers s" "map pl_ride_id (ended_rides s) = [''r1'']"
    using sim_run_example by (elim exE conjE)
  have "0 \<le> area_radius_km sim_no_drivers" by (simp add: sim_no_drivers_def default_sim_config_def)
  from simulation_bookkeeping [OF s(1) this]
  have "count (mset (map pl_ride_id (ended_rides s))) ''r1'' \<le> count (mset (matched_ids (results s))) ''r1''"
    by (elim conjE) (erule spec)
  then have "1 \<le> count (mset (matched_ids (results s))) ''r1''" unfolding s(2) by simp
  with s show ?thesis by (intro exI [of _ s] conjI)
qed

section \<open>The request loop\<close>

lemma request_loop_bursts:
  assumes "0 < request_rate c"
  shows "\<not> snd (request_loop c go n fired)
    \<and> list_all (\<lambda>b. 0 < b \<and> b \<le> burst_size c) (fst (request_loop c go n fired))
    \<and> fired + sum_list (fst (request_loop c go n fired)) \<le> max fired (num_riders c)
    \<and> ((\<forall>k. go k) \<longrightarrow> 0 < burst_size c \<longrightarrow>
         fired + sum_list (fst (request_loop c go n fired)) = max fired (num_riders c))"
  using assms
proof (induction c go n fired rule: request_loop.induct)
  case (1 c go n fired)
  define burst where "burst = min (burst_size c) (num_riders c - fired)"
  obtain tick where tick: "tick_interval_seconds c = Some tick"
    using 1(2) by (simp add: tick_interval_seconds_def)
  show ?case
  proof (cases "go n \<and> fired < num_riders c \<and> 0 < burst")
    case True
    obtain bs raised where rest: "request_loop c go (Suc n) (fired + burst) = (bs, raised)" by fastforce
    have IH: "\<not> raised \<and> list_all (\<lambda>b. 0 < b \<and> b \<le> burst_size c) bs
        \<and> fired + burst + sum_list bs \<le> max (fired + burst) (num_riders c)
        \<and> ((\<forall>k. go k) \<longrightarrow> 0 < burst_size c \<longrightarrow>
             fired + burst + sum_list bs = max (fired + burst) (num_riders c))"
      by (rule 1(1) [OF _ burst_def _ tick 1(2), unfolded rest fst_conv snd_conv]) (use True in simp_all)
    have unfold: "request_loop c go n fired = (burst # bs, raised)"
      using True tick rest by (subst request_loop.simps) (simp add: Let_def flip: burst_def)
    have "burst \<le> burst_size c" "fired + burst \<le> num_riders c" by (simp_all add: burst_def)
    then show ?thesis using IH True unfolding unfold by auto
  next
    case False
    then have unfold: "request_loop c go n fired = ([], False)"
      by (subst request_loop.simps) (auto simp: Let_def simp flip: burst_def)
    have "num_riders c \<le> fired" if "\<forall>k. go k" "0 < burst_size c"
      using False that by (auto simp: burst_def)
    then show ?thesis unfolding unfold by auto
  qed
qed

text \<open>C35: the request loop ends and never fires more than the configured number of requests, in bursts of
  at most the burst size; left alone (not stopped, and with time to spare) it fires exactly that number.
  A rate of zero, for which the interval between bursts is infinite, does not pause it: it fires one burst
  and dies of the \<open>OverflowError\<close> of the wait.\<close>

theorem request_loop_fires_the_budget:
  assumes "0 \<le> num_riders c"
  shows "(0 < request_rate c \<longrightarrow>
      \<not> snd (request_loop c go 0 0)
      \<and> list_all (\<lambda>b. 0 < b \<and> b \<le> burst_size c) (fst (request_loop c go 0 0))
      \<and> sum_list (fst (request_loop c go 0 0)) \<le> num_riders c
      \<and> ((\<forall>k. go k) \<longrightarrow> 0 < burst_size c \<longrightarrow> sum_list (fst (request_loop c go 0 0)) = num_riders c))
    \<and> (request_rate c \<le> 0 \<longrightarrow> go 0 \<longrightarrow> 0 < num_riders c \<longrightarrow> 0 < burst_size c \<longrightarrow>
        request_loop c go 0 0 = ([min (burst_size c) (num_riders c)], True))"
proof (intro conjI impI)
  assume "0 < request_rate c"
  note l = request_loop_bursts [OF this, of go 0 0]
  show "\<not> snd (request_loop c go 0 0)" using l by blast
  show "list_all (\<lambda>b. 0 < b \<and> b \<le> burst_size c) (fst (request_loop c go 0 0))" using l by blast
  show "sum_list (fst (request_loop c go 0 0)) \<le> num_riders c" using l assms by auto
  assume "\<forall>k. go k" "0 < burst_size c"
  then show "sum_list (fst (request_loop c go 0 0)) = num_riders c" using l assms by auto
next
  assume "request_rate c \<le> 0" "go 0" "0 < num_riders c" "0 < burst_size c"
  then show "request_loop c go 0 0 = ([min (burst_size c) (num_riders c)], True)"
    by (subst request_loop.simps) (simp add: tick_interval_seconds_def Let_def)
qed

theorem request_loop_fires_the_budget_witness:
  "sum_list (fst (request_loop default_sim_config (\<lambda>_. True) 0 0)) = 500
   \<and> request_loop (default_sim_config\<lparr>request_rate := 0\<rparr>) (\<lambda>_. True) 0 0 = ([5], True)"
  using request_loop_fires_the_budget [of default_sim_config "\<lambda>_. True"]
    request_loop_fires_the_budget [of "default_sim_config\<lparr>request_rate := 0\<rparr>" "\<lambda>_. True"]
  by (simp add: default_sim_config_def)

end
