(* ===== verification/Outcomes.thy ===== *)
theory Outcomes
  imports Canned
begin

text \<open>
  What each handler can answer, error paths included, over every exchange with plausible dependencies:
  the search, one attempt at a candidate, the matcher with the order in which it tries candidates, and
  the creation of rides with idempotency keys.
\<close>

section \<open>Candidate search\<close>

definition dict_of_drivers :: "(uuid \<times> driver) list \<Rightarrow> bool" where
  "dict_of_drivers cs \<longleftrightarrow> distinct (map fst cs) \<and> (\<forall>(i, d) \<in> set cs. d_id d = i)"

lemma dict_update: "dict_of_drivers cs \<Longrightarrow> dict_of_drivers (AList.update (d_id d) d cs)"
  using set_update_subset [of "d_id d" d cs] by (auto simp: dict_of_drivers_def distinct_update)

text \<open>The drivers that the queries of a trace returned.\<close>

fun selected :: "(call \<times> reply) list \<Rightarrow> driver set" where
  "selected [] = {}"
| "selected ((SelectDrivers _, RDrivers ds) # t) = set ds \<union> selected t"
| "selected (_ # t) = selected t"

lemma selected_append [simp]: "selected (t1 @ t2) = selected t1 \<union> selected t2"
  by (induction t1 rule: selected.induct) auto

definition only_selects :: "(call \<times> reply) list \<Rightarrow> bool" where
  "only_selects t \<longleftrightarrow> list_all (\<lambda>(c, _). case c of SelectDrivers _ \<Rightarrow> True | _ \<Rightarrow> False) t"

lemma only_selects_simps [simp]:
  "only_selects []" "only_selects ((SelectDrivers p, r) # t) = only_selects t"
  "only_selects (t1 @ t2) \<longleftrightarrow> only_selects t1 \<and> only_selects t2"
  by (simp_all add: only_selects_def)

text \<open>A dict that holds the selected drivers: each from a query, and each id that a query returned.\<close>

definition collects :: "(uuid \<times> driver) list \<Rightarrow> driver set \<Rightarrow> bool" where
  "collects cs D \<longleftrightarrow> dict_of_drivers cs \<and> snd ` set cs \<subseteq> D \<and> d_id ` D \<subseteq> fst ` set cs"

lemma collects_update:
  "collects cs D \<Longrightarrow> collects (AList.update (d_id d) d cs) (insert d D)"
  using set_update_subset [of "d_id d" d cs] dict_update [of cs d] dom_update [of "d_id d" d cs]
  by (force simp: collects_def dom_map_of_conv_image_fst)

lemma collects_fold: "collects cs D \<Longrightarrow> collects (fold (\<lambda>d. AList.update (d_id d) d) ds cs) (set ds \<union> D)"
proof (induction ds arbitrary: cs D)
  case (Cons d ds)
  from Cons.IH [OF collects_update [OF Cons.prems]] show ?case by simp
qed simp

lemma ensures_search_rings:
  assumes "\<forall>k \<in> set ks. 0 \<le> k" and "collects found D"
  shows "ensures (search_rings h cell target ks found) (\<lambda>res t. only_selects t \<and>
    (case res of Inr cs \<Rightarrow> collects cs (selected t \<union> D) | Inl e \<Rightarrow> is_sqlalchemy_error e))"
  using assms
proof (induction ks arbitrary: found D)
  case Nil
  then show ?case by (simp add: wp)
next
  case (Cons k ks)
  obtain cells where cells: "cells_within_ring h cell k = Inr cells"
    using Cons.prems(1) by (auto simp: cells_within_ring_eq)
  have found': "collects (fold (\<lambda>d. AList.update (d_id d) d) ds found) (set ds \<union> D)" for ds
    using Cons.prems(2) by (rule collects_fold)
  have rest: "ensures (search_rings h cell target ks (fold (\<lambda>d. AList.update (d_id d) d) ds found))
      (\<lambda>res t. only_selects t \<and> (case res of Inr cs \<Rightarrow> collects cs (set ds \<union> selected t \<union> D)
         | Inl e \<Rightarrow> is_sqlalchemy_error e))" for ds
    using Cons.IH [of "fold (\<lambda>d. AList.update (d_id d) d) ds found" "set ds \<union> D"] Cons.prems(1) found' [of ds]
    by (simp add: Un_ac cong: sum.case_cong)
  show ?case
    using found' found' [of "[]"] rest rest [of "[]"] by (simp add: cells list_available_in_cells_def wp Let_def Un_ac cong: sum.case_cong)
qed

text \<open>Ranking a dict: every selected id once, nearest first.\<close>

definition ranking_of :: "real \<Rightarrow> real \<Rightarrow> driver set \<Rightarrow> (driver \<times> real) list \<Rightarrow> bool" where
  "ranking_of lat lng D ranked \<longleftrightarrow> (\<exists>ds. ranked = rank_candidates lat lng ds
     \<and> distinct (map d_id ds) \<and> set ds \<subseteq> D \<and> d_id ` set ds = d_id ` D)"

lemma ranking_of_dict:
  assumes "collects cs D"
  shows "ranking_of lat lng D (rank_candidates lat lng (map snd cs))"
proof -
  have ids: "map d_id (map snd cs) = map fst cs"
    using assms by (auto simp: collects_def dict_of_drivers_def)
  with assms have "distinct (map d_id (map snd cs))" unfolding collects_def dict_of_drivers_def by metis
  moreover have "d_id ` set (map snd cs) = fst ` set cs" using arg_cong [OF ids, of set] by (simp add: image_image)
  moreover from this have "d_id ` set (map snd cs) = d_id ` D"
    using assms image_mono [of "snd ` set cs" D d_id] by (simp add: collects_def subset_antisym)
  ultimately show ?thesis
    unfolding ranking_of_def
    by (intro exI [of _ "map snd cs"]) (use assms in \<open>simp add: collects_def\<close>)
qed

lemma ensures_find:
  "ensures (find_ranked_candidates h cfg lat lng target max_ring) (\<lambda>res t. only_selects t \<and>
    (case res of Inr ranked \<Rightarrow> ranking_of lat lng (selected t) ranked | Inl e \<Rightarrow> is_sqlalchemy_error e))"
  unfolding find_ranked_candidates_def Let_def
  by (rule ensures_pbindI [OF ensures_search_rings [where D = "{}"]])
    (auto simp: wp ranking_of_dict collects_def dict_of_drivers_def)

section \<open>Trying the candidates\<close>

text \<open>The keys a trace tries to lock, in order.\<close>

fun lock_attempts :: "(call \<times> reply) list \<Rightarrow> string list" where
  "lock_attempts [] = []"
| "lock_attempts ((RedisSetNxPx key _ _, _) # t) = key # lock_attempts t"
| "lock_attempts (_ # t) = lock_attempts t"

lemma lock_attempts_append [simp]: "lock_attempts (t1 @ t2) = lock_attempts t1 @ lock_attempts t2"
  by (induction t1 rule: lock_attempts.induct) simp_all

lemma only_selects_attempts: "only_selects t \<Longrightarrow> lock_attempts t = []"
  by (induction t rule: lock_attempts.induct) (simp_all add: only_selects_def)

text \<open>The error with which a matching attempt may end early.\<close>

definition match_error :: "(call \<times> reply) list \<Rightarrow> exn \<Rightarrow> bool" where
  "match_error t e \<longleftrightarrow> is_sqlalchemy_error e \<or> (\<exists>msg. e = InvalidRideStateError msg)
     \<or> (\<exists>d. e = LockingUnavailableError d) \<or> e = OtherRedisError
     \<or> is_redis_error e \<and> (\<exists>key token. (RedisRunRelease key token, RExn e) \<in> set t)"

text \<open>What a trace shows of an assignment of ride \<open>i\<close> to driver \<open>d\<close>: the conditional UPDATE affected
  the row and was committed, after a read of the driver as AVAILABLE.\<close>

definition assigned_in :: "uuid \<Rightarrow> uuid \<Rightarrow> (call \<times> reply) list \<Rightarrow> bool" where
  "assigned_in i d t \<longleftrightarrow> (\<exists>x now n. d_id x = d \<and> d_status x = AVAILABLE
     \<and> (GetDriver d True, RDriver (Some x)) \<in> set t
     \<and> (UpdateRide i [REQUESTED] MATCHED [DriverId d, MatchedAt now], RNat n) \<in> set t \<and> 0 < n
     \<and> (Commit, RUnit) \<in> set t)"

lemma assigned_in_append: "assigned_in i d t1 \<or> assigned_in i d t2 \<Longrightarrow> assigned_in i d (t1 @ t2)"
  unfolding assigned_in_def by auto

lemma assigned_in_Cons: "assigned_in i d t \<Longrightarrow> assigned_in i d (x # t)"
  unfolding assigned_in_def by auto

lemma match_error_append: "match_error t1 e \<or> match_error t2 e \<Longrightarrow> match_error (t1 @ t2) e"
  unfolding match_error_def by auto

lemma match_error_Cons: "match_error t e \<Longrightarrow> match_error (x # t) e"
  unfolding match_error_def by auto

lemma ensures_assign:
  "ensures (assign_candidate ride c) (\<lambda>res t. lock_attempts t = [] \<and>
     (case res of Inr None \<Rightarrow> True | Inr (Some r) \<Rightarrow> r_id r = r_id ride \<and> assigned_in (r_id ride) (d_id c) t
      | Inl e \<Rightarrow> is_sqlalchemy_error e \<or> (\<exists>msg. e = InvalidRideStateError msg)))"
  unfolding assign_candidate_def driver_get_by_id_def transition_status_def
  by (auto simp: wp assigned_in_def db_errors)

text \<open>
  The first \<open>n\<close> candidates of the ranking were tried, in order; a matched ride is assigned to the last of
  them, and giving up means that all were tried.
\<close>

definition tried :: "uuid \<Rightarrow> (driver \<times> real) list \<Rightarrow> exn + ride \<Rightarrow> (call \<times> reply) list \<Rightarrow> bool" where
  "tried i ranked res t \<longleftrightarrow> (\<exists>n \<le> length ranked.
     lock_attempts t = map (\<lambda>c. lock_key (d_id (fst c))) (take n ranked) \<and>
     (case res of
        Inr r \<Rightarrow> 0 < n \<and> r_id r = i \<and> assigned_in i (d_id (fst (ranked ! (n - 1)))) t
      | Inl e \<Rightarrow> e = NoAvailableDriverError i \<and> n = length ranked \<or> match_error t e))"

lemma tried_later:
  assumes "lock_attempts t1 = [lock_key (d_id (fst c))]" and "tried i rest res t2"
  shows "tried i (c # rest) res (t1 @ t2)"
proof -
  obtain n where n: "n \<le> length rest" "lock_attempts t2 = map (\<lambda>c. lock_key (d_id (fst c))) (take n rest)"
    "case res of Inr r \<Rightarrow> 0 < n \<and> r_id r = i \<and> assigned_in i (d_id (fst (rest ! (n - 1)))) t2
      | Inl e \<Rightarrow> e = NoAvailableDriverError i \<and> n = length rest \<or> match_error t2 e"
    using assms(2) unfolding tried_def by blast
  show ?thesis unfolding tried_def
    by (rule exI [of _ "Suc n"])
      (use n assms(1) in \<open>auto simp: assigned_in_append match_error_append nth_Cons' split: sum.splits\<close>)
qed

lemma tried_first:
  assumes "lock_attempts t = [lock_key (d_id (fst c))]"
    and "case res of Inr r \<Rightarrow> r_id r = i \<and> assigned_in i (d_id (fst c)) t | Inl e \<Rightarrow> match_error t e"
  shows "tried i (c # rest) res t"
  unfolding tried_def by (rule exI [of _ 1]) (use assms in \<open>auto split: sum.splits\<close>)

lemma ensures_acquire:
  "ensures (acquire_driver_lock cfg d) (\<lambda>res t. lock_attempts t = [lock_key (d_id d)] \<and>
     (case res of Inr _ \<Rightarrow> True | Inl e \<Rightarrow> match_error t e))"
  unfolding acquire_driver_lock_def acquire_lock_def
  by (auto simp: wp redis_errors match_error_def)

text \<open>The body under a lock with its release.\<close>

lemma ensures_locked:
  "ensures (try_finally (assign_candidate ride c) (release_lock key token)) (\<lambda>res t. lock_attempts t = [] \<and>
     (case res of Inr None \<Rightarrow> True | Inr (Some r) \<Rightarrow> r_id r = r_id ride \<and> assigned_in (r_id ride) (d_id c) t
      | Inl e \<Rightarrow> match_error t e))"
  unfolding ensures_try_finally release_lock_def
  by (rule ensures_mono [OF ensures_assign])
    (auto simp: wp match_error_def assigned_in_append split: sum.splits option.splits)

lemma ensures_try_candidates: "ensures (try_candidates cfg ride ranked) (tried (r_id ride) ranked)"
proof (induction ranked)
  case Nil
  show ?case by (simp add: wp tried_def)
next
  case (Cons c rest)
  obtain d x where c: "c = (d, x)" by fastforce
  show ?case
    unfolding c try_candidates.simps
  proof (rule ensures_pbindI [OF ensures_acquire])
    fix acquired :: "string option" and t1
    assume "lock_attempts t1 = [lock_key (d_id d)] \<and> (case Inr acquired of Inr _ \<Rightarrow> True | Inl e \<Rightarrow> match_error t1 e)"
    then have t1: "lock_attempts t1 = [lock_key (d_id d)]" by simp
    have later: "ensures (try_candidates cfg ride rest)
        (\<lambda>res t. tried (r_id ride) ((d, x) # rest) res (t1 @ t2 @ t))" if "lock_attempts t2 = []" for t2
      by (rule ensures_mono [OF Cons]) (use t1 that in \<open>simp add: tried_later flip: append_assoc\<close>)
    show "ensures (case acquired of
       None \<Rightarrow>
         pbind (emit_event ''LOCK_FAILED''
           [(''ride_id'', JStr (r_id ride)), (''driver_id'', JStr (d_id d))]) (\<lambda>_.
         pbind record_contention (\<lambda>_.
         try_candidates cfg ride rest))
     | Some token \<Rightarrow>
         pbind (emit_event ''LOCK_ACQUIRED''
           [(''ride_id'', JStr (r_id ride)), (''driver_id'', JStr (d_id d))]) (\<lambda>_.
         pbind (try_finally (assign_candidate ride d)
                  (release_lock (lock_key (d_id d)) token)) (\<lambda>outcome.
         case outcome of
           Some matched \<Rightarrow> Return matched
         | None \<Rightarrow> try_candidates cfg ride rest)))
       (\<lambda>res t2. tried (r_id ride) ((d, x) # rest) res (t1 @ t2))"
    proof (cases acquired)
      case None
      show ?thesis
        using later [of "[(Emit ''LOCK_FAILED'' [(''ride_id'', JStr (r_id ride)), (''driver_id'', JStr (d_id d))], RUnit),
          (RecordLockContention, RUnit)]"] by (simp add: None wp)
    next
      case (Some token)
      let ?emit = "(Emit ''LOCK_ACQUIRED'' [(''ride_id'', JStr (r_id ride)), (''driver_id'', JStr (d_id d))], RUnit)"
      have "ensures (pbind (try_finally (assign_candidate ride d) (release_lock (lock_key (d_id d)) token))
          (\<lambda>outcome. case outcome of Some matched \<Rightarrow> Return matched | None \<Rightarrow> try_candidates cfg ride rest))
        (\<lambda>res t2. tried (r_id ride) ((d, x) # rest) res (t1 @ [?emit] @ t2))"
      proof (rule ensures_pbindI [OF ensures_locked])
        fix outcome :: "ride option" and t2
        assume a: "lock_attempts t2 = [] \<and> (case Inr outcome of Inr None \<Rightarrow> True
          | Inr (Some r) \<Rightarrow> r_id r = r_id ride \<and> assigned_in (r_id ride) (d_id d) t2 | Inl e \<Rightarrow> match_error t2 e)"
        show "ensures (case outcome of Some matched \<Rightarrow> Return matched | None \<Rightarrow> try_candidates cfg ride rest)
            (\<lambda>res t3. tried (r_id ride) ((d, x) # rest) res (t1 @ [?emit] @ t2 @ t3))"
          using a t1 later [of "?emit # t2"]
          by (cases outcome)
            (auto simp: wp intro!: tried_first assigned_in_append intro: assigned_in_Cons)
      qed (use t1 in \<open>auto intro!: tried_first match_error_append intro: match_error_Cons\<close>)
      then show ?thesis by (simp add: Some ensures_pbind [of "emit_event _ _"] ensures_tell)
    qed
  qed (auto intro: tried_first)
qed

section \<open>match_ride\<close>

lemma tried_after:
  "tried i ranked res t \<Longrightarrow> lock_attempts t0 = [] \<Longrightarrow> tried i ranked res (t0 @ t)"
  unfolding tried_def
  by (elim exE conjE, intro exI conjI, assumption)
    (auto simp: assigned_in_append match_error_append split: sum.splits)

lemma tried_after_Cons: "tried i ranked res t \<Longrightarrow> lock_attempts [x] = [] \<Longrightarrow> tried i ranked res (x # t)"
  using tried_after [of i ranked res t "[x]"] by simp

lemma assign_selects_none: "ensures (assign_candidate ride c) (\<lambda>res t. selected t = {})"
  unfolding assign_candidate_def driver_get_by_id_def transition_status_def by (auto simp: wp)

lemma try_selects_none: "ensures (try_candidates cfg ride ranked) (\<lambda>res t. selected t = {})"
proof (induction ranked)
  case (Cons c rest)
  have locked: "ensures (try_finally (assign_candidate ride d) (release_lock k token)) (\<lambda>res t. selected t = {})"
    for d k token
    unfolding ensures_try_finally release_lock_def
    by (rule ensures_mono [OF assign_selects_none]) (auto simp: wp split: sum.split)
  have after: "ensures (pbind (try_finally (assign_candidate ride d) (release_lock k token))
      (\<lambda>outcome. case outcome of Some matched \<Rightarrow> Return matched | None \<Rightarrow> try_candidates cfg ride rest))
      (\<lambda>res t. selected t = {})" for d k token
    by (rule ensures_pbindI [OF locked]) (auto simp: ensures_Return split: option.split intro: ensures_mono [OF Cons])
  obtain d x where c: "c = (d, x)" by fastforce
  have "ensures (acquire_driver_lock cfg d) (\<lambda>res t. selected t = {})"
    unfolding acquire_driver_lock_def acquire_lock_def by (auto simp: wp)
  then show ?case unfolding c try_candidates.simps
    by (rule ensures_pbindI)
      (auto simp: ensures_pbind [of "emit_event _ _"] ensures_pbind [of record_contention] ensures_tell Cons after
        split: option.split)
qed (simp add: wp)

text \<open>The ways \<open>match_ride\<close> can end: the guard on the status; a database error before any lock; and the
  trial of the ranked candidates.\<close>

definition match_outcome :: "uuid \<Rightarrow> exn + ride \<Rightarrow> (call \<times> reply) list \<Rightarrow> bool" where
  "match_outcome i res t \<longleftrightarrow>
     (\<exists>r. t = [(GetRide i, RRide (Some r))] \<and> r_status r \<noteq> REQUESTED \<and> (\<exists>msg. res = Inl (ValueError msg)))
   \<or> (\<exists>e. res = Inl e \<and> is_sqlalchemy_error e \<and> lock_attempts t = [])
   \<or> (\<exists>r t' ranked. t = (GetRide i, RRide (Some r)) # t' \<and> r_status r = REQUESTED
        \<and> ranking_of (pickup_lat r) (pickup_lng r) (selected t) ranked \<and> tried i ranked res t)"

lemma ensures_match_ride: "ensures (match_ride h cfg i) (match_outcome i)"
proof -
  have body: "ensures (pbind (find_ranked_candidates h cfg lat lng target max_ring) (\<lambda>ranked.
       pbind (emit_event ''CANDIDATES_FOUND'' (data ranked)) (\<lambda>_. try_candidates cfg r ranked)))
     (\<lambda>res t. (\<exists>e. res = Inl e \<and> is_sqlalchemy_error e \<and> lock_attempts t = [])
        \<or> (\<exists>ranked. ranking_of lat lng (selected t) ranked \<and> tried (r_id r) ranked res t))"
    for lat lng target max_ring data r
  proof (rule ensures_pbindI [OF ensures_find])
    fix ranked t1
    assume t1: "only_selects t1 \<and> (case Inr ranked of Inr ranked \<Rightarrow> ranking_of lat lng (selected t1) ranked
      | Inl e \<Rightarrow> is_sqlalchemy_error e)"
    show "ensures (pbind (emit_event ''CANDIDATES_FOUND'' (data ranked)) (\<lambda>_. try_candidates cfg r ranked))
      (\<lambda>res t2. (\<exists>e. res = Inl e \<and> is_sqlalchemy_error e \<and> lock_attempts (t1 @ t2) = [])
        \<or> (\<exists>ranked. ranking_of lat lng (selected (t1 @ t2)) ranked \<and> tried (r_id r) ranked res (t1 @ t2)))"
      unfolding ensures_pbind [of "emit_event _ _"] ensures_tell sum.case
      by (rule ensures_mono [OF ensures_conj [OF ensures_try_candidates try_selects_none]], intro disjI2 exI conjI)
        (use t1 in \<open>auto intro!: tried_after tried_after_Cons simp: only_selects_attempts\<close>)
  qed (auto simp: only_selects_attempts)
  show ?thesis
    unfolding match_ride_def
    apply (simp add: ensures_pbind [of "must_exist _"] ensures_must_exist ensures_get ensures_Raise
        match_outcome_def db_errors ensures_Raise)
    apply (intro allI impI)
    apply (rule ensures_mono [OF body])
    apply (elim disjE exE)
    subgoal by (auto simp: db_errors)
    subgoal by (intro disjI2 exI conjI) (auto intro: tried_after_Cons)
    done
qed

text \<open>C15: candidates are tried nearest first and none is skipped. The ranking holds every driver the
  search selected once, in order of great-circle distance; the locks requested are those of its first
  \<open>n\<close> candidates, in that order; a returned ride was assigned to the \<open>n\<close>-th, which had just been read as
  AVAILABLE; \<open>NoAvailableDriverError\<close> means that all were tried; and any other way to end is a lost ride,
  an unavailable lock service or a database error.\<close>

theorem match_ride_tries_nearest_first:
  assumes "trace (match_ride h cfg i) t res" and "plausible_trace t"
  shows "match_outcome i res t"
  by (rule ensuresD [OF ensures_match_ride assms])

theorem match_ride_tries_nearest_first_witness:
  "\<exists>t r. match_outcome ''r1'' (Inr r) t \<and> lock_attempts t = [lock_key ''d1''] \<and> r_status r = MATCHED"
proof -
  let ?p = "match_ride point_h3 default_settings ''r1''"
  have "trace ?p (canned_log (\<lambda>_. None) ?p) (Inr ((canned_ride ''r1'')\<lparr>r_status := MATCHED, r_driver_id := Some ''d1''\<rparr>))"
    using canned_log_trace [of ?p "\<lambda>_. None"] by (simp add: canned_run_defs upto.simps Let_def)
  from match_ride_tries_nearest_first [OF this plausible_canned_log]
  show ?thesis
    by (intro exI conjI) (auto simp: canned_run_defs upto.simps Let_def)
qed

section \<open>create_ride\<close>

abbreviation by_key :: "string \<Rightarrow> call" where
  "by_key k \<equiv> SelectRides (\<lambda>r. idempotency_key r = Some k)"

text \<open>The two counts a price is computed from.\<close>

definition demand_and_supply :: "string \<Rightarrow> real \<Rightarrow> nat \<Rightarrow> nat \<Rightarrow> (call \<times> reply) list" where
  "demand_and_supply zone since dem sply =
     [(CountRides (\<lambda>r. r_zone_id r = Some zone \<and> since \<le> created_at r
         \<and> r_status r \<in> set ACTIVE_RIDE_STATUSES), RNat dem),
      (CountDrivers (\<lambda>d. d_status d = AVAILABLE \<and> d_zone_id d = zone), RNat sply)]"

lemma ensures_zone_surge:
  "ensures (zone_surge cfg zone None) (\<lambda>res t. (\<exists>e. res = Inl e \<and> is_sqlalchemy_error e) \<or>
     (\<exists>now dem sply. t = (UtcNow, RReal now)
          # demand_and_supply zone (now - real_of_int (surge_demand_window_seconds cfg)) dem sply
        \<and> res = Inr \<lparr>s_zone_id = zone, s_demand = dem, s_supply = sply, multiplier = surge_formula cfg dem sply\<rparr>))"
  unfolding zone_surge_def count_recent_active_in_zone_def count_available_in_zone_def
  by (simp add: wp demand_and_supply_def Let_def)

text \<open>
  The ways \<open>create_ride\<close> can end: the key is known (and its parameters are checked); the ride is
  inserted, with the price of the counts read before; another request inserted the key first, and its
  ride is returned; or a database error.
\<close>

definition create_outcome ::
  "h3_lib \<Rightarrow> settings \<Rightarrow> uuid \<Rightarrow> real \<Rightarrow> real \<Rightarrow> string option \<Rightarrow> exn + uuid \<Rightarrow> (call \<times> reply) list \<Rightarrow> bool" where
  "create_outcome h cfg rider lat lng key res t \<longleftrightarrow>
     (\<exists>k r rs. key = Some k \<and> t = [(by_key k, RRides (r # rs))] \<and>
        res = (if ride_matches r rider lat lng then Inr (r_id r) else Inl (IdempotencyKeyConflictError k (r_id r))))
   \<or> (\<exists>zone since dem sply r.
        zone = zone_id_for_point h lat lng (surge_zone_resolution cfg) \<and> res = Inr (r_id r) \<and>
        subseq (demand_and_supply zone since dem sply @
                [(InsertRide rider lat lng key (Some zone) (Some (surge_formula cfg dem sply)), RRide (Some r)),
                 (Commit, RUnit)]) t)
   \<or> (\<exists>k zone m w ws. key = Some k \<and> res = Inr (r_id w) \<and>
        (subseq [(InsertRide rider lat lng key zone m, RExn IntegrityError), (Rollback, RUnit)] t
         \<or> subseq [(Commit, RExn IntegrityError), (Rollback, RUnit)] t)
        \<and> last t = (by_key k, RRides (w # ws)))
   \<or> (\<exists>e. res = Inl e \<and> is_sqlalchemy_error e)"

text \<open>The last step of it: the insert with a given price.\<close>

definition lost_insert ::
  "uuid \<Rightarrow> real \<Rightarrow> real \<Rightarrow> string option \<Rightarrow> string \<Rightarrow> real \<Rightarrow> (call \<times> reply) list \<Rightarrow> bool" where
  "lost_insert rider lat lng key zone m t \<longleftrightarrow>
     subseq [(InsertRide rider lat lng key (Some zone) (Some m), RExn IntegrityError), (Rollback, RUnit)] t
   \<or> subseq [(Commit, RExn IntegrityError), (Rollback, RUnit)] t"

lemma ensures_insert_ride:
  "ensures (insert_ride cfg rider lat lng key zone surge) (\<lambda>res t.
     (\<exists>r. res = Inr (r_id r) \<and> subseq [(InsertRide rider lat lng key (Some zone) (Some (multiplier surge)), RRide (Some r)),
        (Commit, RUnit)] t)
   \<or> (\<exists>k w ws. key = Some k \<and> res = Inr (r_id w) \<and> lost_insert rider lat lng key zone (multiplier surge) t
        \<and> last t = (by_key k, RRides (w # ws)))
   \<or> (\<exists>e. res = Inl e \<and> is_sqlalchemy_error e))"
  unfolding insert_ride_def ride_create_def get_by_idempotency_key_def
  by (auto simp: wp db_errors lost_insert_def split: option.split list.split)

lemma last_append_eq: "t2 \<noteq> [] \<Longrightarrow> last (t1 @ t2) = last t2"
  by simp

lemma subseq_not_Nil: "subseq (x # xs) t \<Longrightarrow> t \<noteq> []"
  by auto

lemma ensures_insert_outcome:
  assumes zone: "zone = zone_id_for_point h lat lng (surge_zone_resolution cfg)"
  shows "ensures (insert_ride cfg rider lat lng key zone
       \<lparr>s_zone_id = zone, s_demand = dem, s_supply = sply, multiplier = surge_formula cfg dem sply\<rparr>)
      (\<lambda>res t. create_outcome h cfg rider lat lng key res (t0 @ demand_and_supply zone since dem sply @ t))"
proof (rule ensures_mono [OF ensures_insert_ride], elim disjE exE conjE)
  fix res :: "exn + uuid" and t r
  assume "res = Inr (r_id r)" and "subseq [(InsertRide rider lat lng key (Some zone) (Some (multiplier
      \<lparr>s_zone_id = zone, s_demand = dem, s_supply = sply, multiplier = surge_formula cfg dem sply\<rparr>)), RRide (Some r)), (Commit, RUnit)] t"
  then have "subseq (demand_and_supply zone since dem sply @ [(InsertRide rider lat lng key (Some zone) (Some (surge_formula cfg dem sply)),
      RRide (Some r)), (Commit, RUnit)]) (t0 @ demand_and_supply zone since dem sply @ t)"
    by (intro list_emb_append2 list_emb_append_mono) auto
  with \<open>res = Inr (r_id r)\<close> show "create_outcome h cfg rider lat lng key res (t0 @ demand_and_supply zone since dem sply @ t)"
    unfolding create_outcome_def zone
    by - (rule disjI2, rule disjI1, intro exI conjI, rule refl, assumption, simp)
next
  fix res :: "exn + uuid" and t k w ws
  assume k: "key = Some k" "res = Inr (r_id w)" and l: "last t = (by_key k, RRides (w # ws))"
    and "lost_insert rider lat lng key zone (multiplier
      \<lparr>s_zone_id = zone, s_demand = dem, s_supply = sply, multiplier = surge_formula cfg dem sply\<rparr>) t"
  then have t: "lost_insert rider lat lng key zone (surge_formula cfg dem sply) t" by simp
  then have "lost_insert rider lat lng key zone (surge_formula cfg dem sply) (t0 @ demand_and_supply zone since dem sply @ t)"
    by (auto simp: lost_insert_def intro: list_emb_append2)
  moreover have "last (t0 @ demand_and_supply zone since dem sply @ t) = (by_key k, RRides (w # ws))"
    using l t by (auto dest: subseq_not_Nil simp: last_append_eq lost_insert_def)
  ultimately show "create_outcome h cfg rider lat lng key res (t0 @ demand_and_supply zone since dem sply @ t)"
    using k unfolding create_outcome_def zone lost_insert_def by blast
qed (auto simp: create_outcome_def)

lemma ensures_priced_insert:
  assumes zone: "zone = zone_id_for_point h lat lng (surge_zone_resolution cfg)"
  shows "ensures (pbind (zone_surge cfg zone None) (insert_ride cfg rider lat lng key zone))
      (\<lambda>res t. create_outcome h cfg rider lat lng key res (t0 @ t))"
proof (rule ensures_pbindI [OF ensures_zone_surge])
  fix surge :: surge_result and t1
  assume "(\<exists>e. Inr surge = Inl e \<and> is_sqlalchemy_error e) \<or>
    (\<exists>now dem sply. t1 = (UtcNow, RReal now)
        # demand_and_supply zone (now - real_of_int (surge_demand_window_seconds cfg)) dem sply
      \<and> Inr surge = Inr \<lparr>s_zone_id = zone, s_demand = dem, s_supply = sply, multiplier = surge_formula cfg dem sply\<rparr>)"
  then obtain now dem sply where
    "t1 = (UtcNow, RReal now) # demand_and_supply zone (now - real_of_int (surge_demand_window_seconds cfg)) dem sply"
    "surge = \<lparr>s_zone_id = zone, s_demand = dem, s_supply = sply, multiplier = surge_formula cfg dem sply\<rparr>"
    by auto
  then show "ensures (insert_ride cfg rider lat lng key zone surge)
      (\<lambda>res t2. create_outcome h cfg rider lat lng key res (t0 @ t1 @ t2))"
    using ensures_insert_outcome [OF zone, of rider key dem sply "t0 @ [(UtcNow, RReal now)]"
        "now - real_of_int (surge_demand_window_seconds cfg)"]
    by simp
qed (auto simp: create_outcome_def)

lemma ensures_create_ride:
  "ensures (create_ride h cfg rider lat lng key) (create_outcome h cfg rider lat lng key)"
proof -
  define zone where "zone = zone_id_for_point h lat lng (surge_zone_resolution cfg)"
  note quote = ensures_priced_insert [OF zone_def, of rider key]
  show ?thesis
  proof (cases key)
    case None
    then show ?thesis using quote [of "[]"] by (simp add: create_ride_def Let_def zone_def)
  next
    case (Some k)
    have "create_outcome h cfg rider lat lng key (Inl e) t" if "is_sqlalchemy_error e" for e t
      using that by (auto simp: create_outcome_def)
    moreover have "create_outcome h cfg rider lat lng key (Inr (r_id r)) [(by_key k, RRides (r # rs))]"
      if "ride_matches r rider lat lng" for r rs
      unfolding create_outcome_def by (rule disjI1) (use that Some in simp)
    moreover have "create_outcome h cfg rider lat lng key (Inl (IdempotencyKeyConflictError k (r_id r)))
        [(by_key k, RRides (r # rs))]" if "\<not> ride_matches r rider lat lng" for r rs
      unfolding create_outcome_def by (rule disjI1) (use that Some in simp)
    ultimately show ?thesis
      using quote [of "[(by_key k, RRides [])]"]
      by (simp add: Some create_ride_def Let_def get_by_idempotency_key_def ensures_pbind [of "pbind _ _"]
          ensures_pbind [of "ask _ _"] ensures_select ensures_Return ensures_Raise zone_def
          split: list.split)
  qed
qed



text \<open>A request that loses the race for its idempotency key gets the winner's ride without the
  parameter check that a later request with the same key goes through: for every request there is a
  plausible exchange in which the ride returned has other parameters.\<close>

theorem lost_race_skips_parameter_check:
  "\<exists>t w. trace (create_ride h cfg rider lat lng (Some k)) t (Inr (r_id w)) \<and> plausible_trace t
     \<and> idempotency_key w = Some k \<and> \<not> ride_matches w rider lat lng"
proof -
  let ?w = "(canned_ride ''w'')\<lparr>idempotency_key := Some k, pickup_lat := lat + 1\<rparr>"
  let ?zone = "zone_id_for_point h lat lng (surge_zone_resolution cfg)"
  let ?t = "(by_key k, RRides []) # (UtcNow, RReal 0)
      # demand_and_supply ?zone (0 - real_of_int (surge_demand_window_seconds cfg)) 0 0
      @ [(InsertRide rider lat lng (Some k) (Some ?zone) (Some (surge_formula cfg 0 0)), RExn IntegrityError),
         (Rollback, RUnit), (by_key k, RRides [?w])]"
  have "trace (create_ride h cfg rider lat lng (Some k)) ?t (Inr (r_id ?w))"
    by (simp add: create_ride_def zone_surge_def insert_ride_def repo_defs must_exist_def ask_def
        trace_Call Let_def demand_and_supply_def)
  moreover have "plausible_trace ?t"
    by (simp add: demand_and_supply_def plausible_def keyed_reply_def)
  moreover have "idempotency_key ?w = Some k \<and> \<not> ride_matches ?w rider lat lng"
    by (simp add: ride_matches_def)
  ultimately show ?thesis by blast
qed

end
