(* ===== verification/Responses.thy ===== *)
theory Responses
  imports Outcomes
begin

text \<open>
  What the HTTP layer answers: the recorded match metrics, the two transitions of a ride's end, the
  health check, and the envelope of every response.
\<close>

section \<open>Metrics\<close>

text \<open>The match outcomes a trace records.\<close>

fun recorded :: "(call \<times> reply) list \<Rightarrow> outcome list" where
  "recorded [] = []"
| "recorded ((RecordMatch oc _, _) # t) = oc # recorded t"
| "recorded (_ # t) = recorded t"

lemma recorded_append [simp]: "recorded (t1 @ t2) = recorded t1 @ recorded t2"
  by (induction t1 rule: recorded.induct) simp_all

fun records :: "call \<Rightarrow> bool" where
  "records (RecordMatch _ _) = True"
| "records _ = False"

lemma no_records: "list_all (\<lambda>(c, _). \<not> records c) t \<Longrightarrow> recorded t = []"
  by (induction t rule: recorded.induct) simp_all

lemma ensures_silent:
  assumes "all_calls (\<lambda>c. \<not> records c) p"
  shows "ensures p (\<lambda>_ t. recorded t = [])"
  using all_calls_trace [OF _ assms] by (auto simp: ensures_def list_all_iff intro!: no_records)

lemma silent_search: "all_calls (\<lambda>c. \<not> records c) (search_rings h cell target ks found)"
  by (induction ks arbitrary: found)
    (auto simp: list_available_in_cells_def Let_def intro!: all_calls_pbind split: sum.split if_splits)

lemma all_calls_finally: "all_calls P p \<Longrightarrow> all_calls P q \<Longrightarrow> all_calls P (try_finally p q)"
  unfolding try_finally_def by (auto intro!: all_calls_handle all_calls_pbind)

lemma all_calls_must_exist: "all_calls P p \<Longrightarrow> all_calls P (must_exist p)"
  unfolding must_exist_def by (auto intro!: all_calls_pbind split: option.split)

lemma silent_simps [simp]:
  "all_calls (\<lambda>c. \<not> records c) (emit_event ty data)"
  "all_calls (\<lambda>c. \<not> records c) record_contention"
  by (simp_all add: emit_event_def record_contention_def)

lemma silent_parts [simp]:
  "all_calls (\<lambda>c. \<not> records c) (find_ranked_candidates h cfg lat lng target max_ring)"
  "all_calls (\<lambda>c. \<not> records c) (acquire_driver_lock cfg d)"
  "all_calls (\<lambda>c. \<not> records c) (release_lock key token)"
  "all_calls (\<lambda>c. \<not> records c) (assign_candidate ride d)"
  unfolding find_ranked_candidates_def Let_def acquire_driver_lock_def acquire_lock_def try_except_def
    release_lock_def assign_candidate_def driver_get_by_id_def transition_status_def
  by (auto intro!: all_calls_pbind all_calls_handle silent_search all_calls_must_exist split: option.split)

lemma silent_try: "all_calls (\<lambda>c. \<not> records c) (try_candidates cfg ride ranked)"
proof (induction ranked)
  case (Cons c rest)
  then show ?case by (cases c) (auto intro!: all_calls_pbind all_calls_finally split: option.split)
qed (auto intro!: all_calls_pbind)

lemma silent_match: "ensures (match_ride h cfg i) (\<lambda>_ t. recorded t = [])"
  unfolding match_ride_def
  by (rule ensures_silent) (auto intro!: all_calls_pbind all_calls_must_exist silent_try)

lemma silent_create: "ensures (create_ride h cfg rider lat lng key) (\<lambda>_ t. recorded t = [] \<and> lock_attempts t = [])"
  unfolding create_ride_def zone_surge_def insert_ride_def repo_defs
  by (auto simp: wp Let_def split: option.split list.split)

section \<open>request_ride\<close>

text \<open>
  A session keeps one object per row: reading a ride again without a database call in between gives the
  same columns.
\<close>

fun session_reads :: "ride option \<Rightarrow> (call \<times> reply) list \<Rightarrow> bool" where
  "session_reads m [] = True"
| "session_reads m ((GetRide i, RRide (Some r)) # t) =
     ((case m of Some r' \<Rightarrow> r_id r' = i \<longrightarrow> r = r' | None \<Rightarrow> True) \<and> session_reads (Some r) t)"
| "session_reads m ((c, r) # t) = session_reads (if database_call c then None else m) t"

lemma session_reads_suffix: "session_reads m (t1 @ t2) \<Longrightarrow> \<exists>m'. session_reads m' t2"
  by (induction m t1 rule: session_reads.induct) auto

lemma reread_same:
  assumes "session_reads m (t @ (GetRide i, RRide (Some r)) # (PerfCounter, x) # (GetRide i, RRide (Some r')) # t')"
    and "r_id r = i"
  shows "r' = r"
  using session_reads_suffix [OF assms(1)] assms(2) by auto

definition request_error :: "(call \<times> reply) list \<Rightarrow> exn \<Rightarrow> bool" where
  "request_error t e \<longleftrightarrow> match_error t e \<or> (\<exists>k i. e = IdempotencyKeyConflictError k i)"

text \<open>
  At most one outcome is recorded per request; none unless the ride was still to be matched; and the one
  recorded says how the request ended.
\<close>

definition request_outcome :: "exn + ride \<Rightarrow> (call \<times> reply) list \<Rightarrow> bool" where
  "request_outcome res t \<longleftrightarrow>
     (case recorded t of
        [] \<Rightarrow> lock_attempts t = [] \<and> (case res of Inr r \<Rightarrow> r_status r \<noteq> REQUESTED
          | Inl e \<Rightarrow> is_sqlalchemy_error e \<or> (\<exists>k i. e = IdempotencyKeyConflictError k i))
      | [OMatched] \<Rightarrow> (\<exists>r d. res = Inr r \<and> assigned_in (r_id r) d t)
      | [OUnmatched] \<Rightarrow> (case res of Inr r \<Rightarrow> True | Inl e \<Rightarrow> is_sqlalchemy_error e)
      | [OError] \<Rightarrow> (\<exists>e. res = Inl e \<and> (match_error t e \<or> (\<exists>msg. e = ValueError msg)))
      | _ \<Rightarrow> False)"

lemma match_outcome_ok: "match_outcome i (Inr r) t \<Longrightarrow> r_id r = i \<and> (\<exists>d. assigned_in i d t)"
  unfolding match_outcome_def tried_def by auto

lemma match_outcome_error:
  "match_outcome i (Inl e) t \<Longrightarrow> e = NoAvailableDriverError i \<or> match_error t e
     \<or> (\<exists>msg r. e = ValueError msg \<and> t = [(GetRide i, RRide (Some r))] \<and> r_status r \<noteq> REQUESTED)"
  unfolding match_outcome_def tried_def by (auto simp: match_error_def)

lemma create_outcome_error:
  "create_outcome h cfg rider lat lng key (Inl e) t \<Longrightarrow>
     is_sqlalchemy_error e \<or> (\<exists>k i. e = IdempotencyKeyConflictError k i)"
  unfolding create_outcome_def by (auto split: if_splits)

lemma match_error_not_none: "match_error t e \<Longrightarrow> e \<noteq> NoAvailableDriverError i"
  unfolding match_error_def by auto

definition request_contract :: "exn + ride \<Rightarrow> (call \<times> reply) list \<Rightarrow> bool" where
  "request_contract res t \<longleftrightarrow> request_outcome res t \<and>
     (session_reads None t \<longrightarrow> (\<forall>e. res = Inl e \<longrightarrow> request_error t e))"

text \<open>The matching part of a request, after the ride was read as REQUESTED.\<close>

lemma ensures_matching:
  assumes "recorded t0 = []" and "r_id r = i" and "r_status r = REQUESTED"
  shows "ensures (handle (match_ride h cfg i)
       (\<lambda>matched. pbind perf_counter (\<lambda>t. pbind (record_metric OMatched (t - start)) (\<lambda>_. Return matched)))
       (\<lambda>e. case e of
          NoAvailableDriverError _ \<Rightarrow>
            pbind perf_counter (\<lambda>t. pbind (record_metric OUnmatched (t - start)) (\<lambda>_. load_ride i))
        | _ \<Rightarrow> pbind perf_counter (\<lambda>t. pbind (record_metric OError (t - start)) (\<lambda>_. Raise e))))
     (\<lambda>res t. request_contract res (t0 @ (GetRide i, RRide (Some r)) # (PerfCounter, RReal start) # t))"
proof (rule ensures_handleI [OF ensures_conj [OF ensures_match_ride silent_match]])
  fix matched t1
  assume a: "match_outcome i (Inr matched) t1 \<and> recorded t1 = []"
  then obtain d where d: "assigned_in i d t1" "r_id matched = i" using match_outcome_ok by blast
  have "assigned_in i d (t0 @ (GetRide i, RRide (Some r)) # (PerfCounter, RReal start) # t1 @ u)" for u
    using d(1) by (simp add: assigned_in_append assigned_in_Cons)
  then show "ensures (pbind perf_counter (\<lambda>t. pbind (record_metric OMatched (t - start)) (\<lambda>_. Return matched)))
      (\<lambda>res t2. request_contract res (t0 @ (GetRide i, RRide (Some r)) # (PerfCounter, RReal start) # t1 @ t2))"
    using a assms(1) d by (auto simp: wp request_contract_def request_outcome_def)
next
  fix e t1
  assume a: "match_outcome i (Inl e) t1 \<and> recorded t1 = []"
  let ?t = "\<lambda>u. t0 @ (GetRide i, RRide (Some r)) # (PerfCounter, RReal start) # t1 @ u"
  from a consider (none) "e = NoAvailableDriverError i" | (err) "match_error t1 e"
    | (guard) msg r' where "e = ValueError msg" "t1 = [(GetRide i, RRide (Some r'))]" "r_status r' \<noteq> REQUESTED"
    using match_outcome_error by blast
  then show "ensures (case e of
          NoAvailableDriverError _ \<Rightarrow>
            pbind perf_counter (\<lambda>t. pbind (record_metric OUnmatched (t - start)) (\<lambda>_. load_ride i))
        | _ \<Rightarrow> pbind perf_counter (\<lambda>t. pbind (record_metric OError (t - start)) (\<lambda>_. Raise e)))
      (\<lambda>res t2. request_contract res (?t t2))"
  proof cases
    case none
    then show ?thesis
      using a assms(1) by (auto simp: wp request_contract_def request_outcome_def request_error_def match_error_def)
  next
    case err
    have "match_error (?t u) e" for u using err by (simp add: match_error_append match_error_Cons)
    then have "request_contract (Inl e) (?t [(PerfCounter, RReal t), (RecordMatch OError s, RUnit)])" for t s
      using a assms(1) match_error_not_none [OF err]
      by (simp add: request_contract_def request_outcome_def request_error_def)
    moreover have "\<forall>j. e \<noteq> NoAvailableDriverError j" using match_error_not_none [OF err] by blast
    ultimately show ?thesis by (cases e) (simp_all add: wp)
  next
    case guard
    have "\<not> session_reads None (?t u)" for u
      using reread_same [of None t0 i r _ r' u] assms guard by auto
    then show ?thesis
      using a assms(1) guard by (simp add: wp request_contract_def request_outcome_def)
  qed
qed

lemma quiet_contract:
  assumes "recorded t = []" and "lock_attempts t = []"
  shows "is_sqlalchemy_error e \<or> (\<exists>k i. e = IdempotencyKeyConflictError k i) \<Longrightarrow> request_contract (Inl e) t"
    and "r_status r \<noteq> REQUESTED \<Longrightarrow> request_contract (Inr r) t"
  using assms by (auto simp: request_contract_def request_outcome_def request_error_def match_error_def)

lemma ensures_request_ride: "ensures (request_ride h cfg rider lat lng idem_key) request_contract"
proof -
  define key where "key = (if idem_key = Some [] then None else idem_key)"
  show ?thesis
    unfolding request_ride_def key_def [symmetric] Let_def
  proof (rule ensures_pbindI [OF ensures_conj [OF ensures_create_ride silent_create]])
    fix i t1
    assume t1: "create_outcome h cfg rider lat lng key (Inr i) t1 \<and> recorded t1 = [] \<and> lock_attempts t1 = []"
    then show "ensures (pbind (load_ride i) (\<lambda>ride.
         if r_status ride = REQUESTED then
           pbind perf_counter (\<lambda>start.
           handle (match_ride h cfg i)
             (\<lambda>matched. pbind perf_counter (\<lambda>t. pbind (record_metric OMatched (t - start)) (\<lambda>_. Return matched)))
             (\<lambda>e. case e of
                NoAvailableDriverError _ \<Rightarrow>
                  pbind perf_counter (\<lambda>t. pbind (record_metric OUnmatched (t - start)) (\<lambda>_. load_ride i))
              | _ \<Rightarrow> pbind perf_counter (\<lambda>t. pbind (record_metric OError (t - start)) (\<lambda>_. Raise e))))
         else Return ride))
       (\<lambda>res t2. request_contract res (t1 @ t2))"
      using ensures_matching [of t1 _ i h cfg]
      by (auto simp: ensures_pbind [of "must_exist _"] ensures_must_exist ensures_get ensures_Return
          ensures_pbind [of "ask PerfCounter _"] ensures_local db_errors intro!: quiet_contract)
  next
    fix e t1
    assume "create_outcome h cfg rider lat lng key (Inl e) t1 \<and> recorded t1 = [] \<and> lock_attempts t1 = []"
    then show "request_contract (Inl e) t1"
      using create_outcome_error [of h cfg rider lat lng key e t1] by (auto intro!: quiet_contract)
  qed
qed


lemmas request_run_defs = canned_run_defs request_ride_def create_ride_def zone_surge_def insert_ride_def
  record_metric_def Let_def


section \<open>Ending a ride\<close>

text \<open>
  Cancelling and completing: the ride is unknown; its status does not allow it, and nothing is
  committed; it was ended and, with a driver, the driver was freed, in one committed transaction; or the
  database failed.
\<close>

definition frees :: "ride \<Rightarrow> (call \<times> reply) list \<Rightarrow> bool" where
  "frees r t \<longleftrightarrow>
     (case r_driver_id r of
        None \<Rightarrow> t = []
      | Some d \<Rightarrow> t = [(GetDriver d True, RDriver None)]
          \<or> (\<exists>x. t = [(GetDriver d True, RDriver (Some x)), (SetDriverStatus d AVAILABLE, RUnit)]))"

definition finish_outcome ::
  "ride_status list \<Rightarrow> ride_status \<Rightarrow> uuid \<Rightarrow> exn + ride \<Rightarrow> (call \<times> reply) list \<Rightarrow> bool" where
  "finish_outcome from_statuses to_status i res t \<longleftrightarrow>
     t = [(GetRide i, RRide None)] \<and> res = Inl (RideNotFoundError i)
   \<or> (\<exists>msg. res = Inl (InvalidRideStateError msg) \<and> (Commit, RUnit) \<notin> set t
        \<and> subseq [(UpdateRide i from_statuses to_status [], RNat 0), (Rollback, RUnit)] t)
   \<or> (\<exists>r n r1 u. res = Inr r \<and> r_id r = i \<and> 0 < n \<and> r_id r1 = i \<and> frees r1 u
        \<and> subseq ((UpdateRide i from_statuses to_status [], RNat n) # (RefreshRide i, RRide (Some r1)) # u
                  @ [(Commit, RUnit)]) t)
   \<or> (\<exists>e. res = Inl e \<and> is_sqlalchemy_error e)"

lemma ensures_free_driver:
  "ensures (free_driver r) (\<lambda>res t. (\<exists>e. res = Inl e \<and> is_sqlalchemy_error e) \<or> res = Inr () \<and> frees r t)"
  unfolding free_driver_def driver_get_by_id_def by (auto simp: wp frees_def split: option.split)

lemma ensures_transition:
  "ensures (transition_or_raise i fr to_status) (\<lambda>res t. case res of
     Inr r1 \<Rightarrow> r_id r1 = i \<and> (\<exists>n. 0 < n \<and>
       subseq [(UpdateRide i fr to_status [], RNat n), (RefreshRide i, RRide (Some r1))] t)
   | Inl e \<Rightarrow> t = [(GetRide i, RRide None)] \<and> e = RideNotFoundError i
      \<or> (\<exists>msg. e = InvalidRideStateError msg \<and> (Commit, RUnit) \<notin> set t
          \<and> subseq [(UpdateRide i fr to_status [], RNat 0), (Rollback, RUnit)] t)
      \<or> is_sqlalchemy_error e)"
  unfolding transition_or_raise_def ride_get_by_id_def transition_status_def
  by (auto simp: wp Let_def db_errors)

lemma ensures_finish: "ensures (finish_ride fr to_status ev i) (finish_outcome fr to_status i)"
  unfolding finish_ride_def
proof (rule ensures_pbindI [OF ensures_transition])
  fix r1 t1
  assume t1: "case Inr r1 of
     Inr r1 \<Rightarrow> r_id r1 = i \<and> (\<exists>n. 0 < n \<and>
       subseq [(UpdateRide i fr to_status [], RNat n), (RefreshRide i, RRide (Some r1))] t1)
   | Inl e \<Rightarrow> t1 = [(GetRide i, RRide None)] \<and> e = RideNotFoundError i
      \<or> (\<exists>msg. e = InvalidRideStateError msg \<and> (Commit, RUnit) \<notin> set t1
          \<and> subseq [(UpdateRide i fr to_status [], RNat 0), (Rollback, RUnit)] t1)
      \<or> is_sqlalchemy_error e"
  let ?rest = "pbind db_commit (\<lambda>_.
     pbind (refresh_ride (r_id r1)) (\<lambda>ride.
     pbind (emit_event ev
       [(''ride_id'', JStr (r_id ride)),
        (''driver_id'', case r_driver_id ride of Some d \<Rightarrow> JStr d | None \<Rightarrow> JNull)]) (\<lambda>_.
     Return ride)))"
  show "ensures (pbind (free_driver r1) (\<lambda>_. ?rest)) (\<lambda>res t2. finish_outcome fr to_status i res (t1 @ t2))"
  proof (rule ensures_pbindI [OF ensures_free_driver])
    fix x t2 assume "(\<exists>e. Inr x = Inl e \<and> is_sqlalchemy_error e) \<or> Inr x = Inr () \<and> frees r1 t2"
    then have u: "frees r1 t2" by simp
    from t1 obtain n where n: "0 < n" "r_id r1 = i"
      "subseq [(UpdateRide i fr to_status [], RNat n), (RefreshRide i, RRide (Some r1))] t1" by auto
    have "subseq ([(UpdateRide i fr to_status [], RNat n), (RefreshRide i, RRide (Some r1))] @ t2 @ [(Commit, RUnit)])
        (t1 @ t2 @ (Commit, RUnit) # t3)" for t3
      by (intro list_emb_append_mono n(3)) auto
    then have "finish_outcome fr to_status i (Inr r) (t1 @ t2 @ (Commit, RUnit) # t3)" if "r_id r = i" for r t3
      unfolding finish_outcome_def using n u that by auto
    then show "ensures ?rest (\<lambda>res t3. finish_outcome fr to_status i res (t1 @ t2 @ t3))"
      using n(2) by (auto simp: wp db_errors finish_outcome_def [of _ _ _ "Inl _"])
  qed (auto simp: finish_outcome_def)
qed (auto simp: finish_outcome_def)



section \<open>The health check\<close>

text \<open>The health check never fails: it reports each dependency as reachable exactly when that one
  answered its ping (the other's failure included), and \<open>ok\<close> exactly when both did.\<close>

theorem health_reports_dependencies:
  assumes "trace health t res" and "plausible_trace t"
  shows "res = Inr (BHealth (if (DbPing, RUnit) \<in> set t \<and> (RedisPing, RBool True) \<in> set t then ''ok'' else ''degraded'')
      ((DbPing, RUnit) \<in> set t) ((RedisPing, RBool True) \<in> set t))
    \<and> map fst t = [DbPing, RedisPing]"
proof -
  have "ensures health (\<lambda>res t.
      res = Inr (BHealth (if (DbPing, RUnit) \<in> set t \<and> (RedisPing, RBool True) \<in> set t then ''ok'' else ''degraded'')
        ((DbPing, RUnit) \<in> set t) ((RedisPing, RBool True) \<in> set t))
      \<and> map fst t = [DbPing, RedisPing])"
    unfolding health_def by (auto simp: wp)
  from ensuresD [OF this assms] show ?thesis .
qed

theorem health_reports_dependencies_witness:
  "\<exists>t. trace health t (Inr (BHealth ''degraded'' True False)) \<and> map fst t = [DbPing, RedisPing]"
proof -
  let ?over = "\<lambda>c. if c = RedisPing then Some (RExn RedisConnectionError) else None"
  have t: "trace health (canned_log ?over health) (Inr (BHealth ''degraded'' True False))"
    using canned_log_trace [of health ?over] by (simp add: canned_run_defs health_def)
  have "plausible_trace (canned_log ?over health)"
    by (rule plausible_canned_over) (auto simp: plausible_def keyed_reply_def split: if_splits)
  from health_reports_dependencies [OF t this] have "map fst (canned_log ?over health) = [DbPing, RedisPing]"
    by (rule conjunct2)
  with t show ?thesis by (intro exI conjI)
qed

section \<open>The error envelope\<close>

definition plain_error :: "exn \<Rightarrow> bool" where
  "plain_error e \<longleftrightarrow> is_sqlalchemy_error e \<or> (\<exists>i. e = RideNotFoundError i) \<or> (\<exists>msg. e = InvalidRideStateError msg)
     \<or> (\<exists>code msg. e = HTTPException 404 (Some (code, msg)) [])"

definition plainly :: "'a prog \<Rightarrow> bool" where
  "plainly p \<longleftrightarrow> ensures p (\<lambda>res t. \<forall>e. res = Inl e \<longrightarrow> plain_error e)"

lemma plainly_pbindI: "plainly p \<Longrightarrow> (\<And>x. plainly (f x)) \<Longrightarrow> plainly (pbind p f)"
  unfolding plainly_def
  by (rule ensures_pbindI [where R = "\<lambda>res t. \<forall>e. res = Inl e \<longrightarrow> plain_error e"]) auto

lemma plainly_Return [simp]: "plainly (Return x)"
  by (simp add: plainly_def ensures_Return)

lemma plainly_finish: "plainly (finish_ride fr to_status ev i)"
  unfolding plainly_def
  by (rule ensures_mono [OF ensures_finish]) (auto simp: finish_outcome_def plain_error_def)

lemma plainly_zone_surge: "plainly (zone_surge cfg z now)"
  unfolding plainly_def zone_surge_def count_recent_active_in_zone_def count_available_in_zone_def
  by (auto simp: wp Let_def plain_error_def split: option.split)

lemma plainly_surge_of_zones: "plainly (surge_of_zones cfg now zs)"
proof (induction zs)
  case (Cons z zs)
  then show ?case by (auto intro!: plainly_pbindI plainly_zone_surge)
qed simp

lemma plainly_counts: "plainly (count_rides_by_status st)" "plainly (count_drivers_by_status ds)"
  by (auto simp: plainly_def repo_defs wp plain_error_def)

lemma plainly_sum_counts: "plainly (sum_counts ss)"
proof (induction ss)
  case (Cons s ss)
  then show ?case by (auto intro!: plainly_pbindI plainly_counts)
qed simp

lemma plainly_surge_by_zone: "plainly (surge_by_zone cfg now)"
  unfolding surge_by_zone_def Let_def list_recent_zone_ids_def
  by (intro plainly_pbindI plainly_surge_of_zones)
    (auto simp: plainly_def wp plain_error_def split: option.split)

lemma plainly_stats: "plainly (get_stats cfg)"
  unfolding get_stats_def
  by (intro plainly_pbindI plainly_sum_counts plainly_surge_by_zone plainly_counts)
    (auto simp: plainly_def wp)

lemma plainly_routes:
  "plainly (list_drivers st)" "plainly (create_driver h cfg lat lng)" "plainly (get_driver i)"
  "plainly (update_driver_location h cfg i lat lng)" "plainly (create_rider lat lng)" "plainly (get_ride i)"
  unfolding plainly_def list_drivers_def create_driver_def get_driver_def update_driver_location_def
    create_rider_def get_ride_def repo_defs driver_not_found_def plain_error_def
  by (auto simp: wp Let_def split: option.split)

fun is_error_body :: "body \<Rightarrow> bool" where
  "is_error_body (BError _ _) = True"
| "is_error_body _ = False"

text \<open>
  A response in the envelope: a result with a success status, or an error body with one of the four
  error statuses. The exception is a Redis error that no handler knows: one of another kind than a lost
  connection or a timeout, or any raised by the release of a lock.
\<close>

definition enveloped :: "request \<Rightarrow> (call \<times> reply) list \<Rightarrow> http \<Rightarrow> bool" where
  "enveloped req t resp \<longleftrightarrow>
     (case resp of
        Response status body \<Rightarrow> (if is_error_body body then status \<in> {404, 409, 422, 503} else status \<in> {200, 201})
      | ServerError e \<Rightarrow> (\<exists>rider lat lng key. req = PostRide rider lat lng key) \<and> is_redis_error e
          \<and> (e = OtherRedisError \<or> (\<exists>key token. (RedisRunRelease key token, RExn e) \<in> set t)))"

lemma plain_error_enveloped: "plain_error e \<Longrightarrow> enveloped req t (handle_exception e)"
  by (auto simp: plain_error_def enveloped_def error_response_def db_errors)

lemma request_error_enveloped:
  "request_error t e \<Longrightarrow> enveloped (PostRide rider lat lng key) t (handle_exception e)"
  by (auto simp: request_error_def match_error_def enveloped_def error_response_def db_errors redis_errors; blast)

definition answers :: "request \<Rightarrow> http prog \<Rightarrow> bool" where
  "answers req p \<longleftrightarrow> ensures p (\<lambda>res t. session_reads None t \<longrightarrow> (\<exists>resp. res = Inr resp \<and> enveloped req t resp))"

lemma answers_plainly:
  assumes "plainly p" and "status \<in> {200, 201}" and "\<And>x. \<not> is_error_body (f x)"
  shows "answers req (respond status f p)"
  unfolding answers_def respond_def
  by (rule ensures_handleI [OF assms(1) [unfolded plainly_def]])
    (use assms(2,3) in \<open>auto simp: ensures_Return enveloped_def [of _ _ "Response _ _"] plain_error_enveloped\<close>)

lemma answers_request:
  assumes "\<And>x. \<not> is_error_body (f x)"
  shows "answers (PostRide rider lat lng key) (respond 201 f (request_ride h cfg rider lat lng idem_key))"
  unfolding answers_def respond_def
  by (rule ensures_handleI [OF ensures_request_ride])
    (use assms in \<open>auto simp: ensures_Return enveloped_def [of _ _ "Response _ _"] request_contract_def
      request_error_enveloped\<close>)

lemma health_body: "ensures health (\<lambda>res t. \<exists>b. res = Inr b \<and> \<not> is_error_body b)"
  unfolding health_def by (auto simp: wp)

lemma answers_endpoint: "answers req (endpoint h cfg req)"
proof (cases req)
  case ReadHealth
  have "answers ReadHealth (respond 200 (\<lambda>b. b) health)"
    unfolding answers_def respond_def
    by (rule ensures_handleI [OF health_body]) (auto simp: ensures_Return enveloped_def)
  then show ?thesis by (simp add: ReadHealth)
qed (auto intro!: answers_plainly answers_request plainly_routes plainly_stats plainly_zone_surge
    simp: cancel_ride_def complete_ride_def plainly_finish get_zone_surge_def)

lemma every_response:
  assumes "trace (serve h cfg vtext req) t res" and "plausible_trace t" and "session_reads None t"
  shows "\<exists>resp. res = Inr resp \<and> enveloped req t resp"
proof -
  have "answers req (serve h cfg vtext req)"
  proof (cases "valid_request req")
    case True
    then show ?thesis by (simp add: serve_def answers_endpoint)
  next
    case False
    then show ?thesis by (simp add: serve_def answers_def ensures_Return enveloped_def error_response_def)
  qed
  from ensuresD [OF this [unfolded answers_def] assms(1,2)] assms(3) show ?thesis by blast
qed

text \<open>C18: every request is answered, and every error in the one envelope with one of four statuses,
  whatever the dependencies reply and whichever of them fails, with a single exception: a Redis error
  that is not a lost connection or a timeout of the lock acquisition leaves a ride request as a plain
  500. In particular the matcher's own guard is never the reason of a 500.\<close>

theorem every_response_is_enveloped:
  assumes "trace (serve h cfg vtext req) t res" and "plausible_trace t" and "session_reads None t"
  shows "\<exists>resp. res = Inr resp \<and> enveloped req t resp"
  using assms by (rule every_response)

theorem every_response_is_enveloped_witness:
  "\<exists>t r. enveloped (PostRide ''p1'' 3 0 None) t (Response 201 (BRide r)) \<and> recorded t = [OMatched]"
proof -
  let ?p = "serve point_h3 default_settings (\<lambda>_. []) (PostRide ''p1'' 3 0 None)"
  let ?t = "canned_log (\<lambda>_. None) ?p"
  have t: "trace ?p ?t (Inr (Response 201 (BRide (to_ride_response ((canned_ride ''r1'')\<lparr>r_status := MATCHED, r_driver_id := Some ''d1''\<rparr>)))))"
    using canned_log_trace [of ?p "\<lambda>_. None"]
    by (simp add: request_run_defs upto.simps serve_def valid_point_def respond_def)
  moreover have "session_reads None ?t" "recorded ?t = [OMatched]"
    by (simp_all add: request_run_defs upto.simps serve_def valid_point_def respond_def)
  ultimately show ?thesis
    using every_response_is_enveloped [OF t plausible_canned_log] by blast
qed


end
