(* ===== verification/SimServer.thy ===== *)
theory SimServer
  imports SimRunner Responses
begin

text \<open>
  The simulation client against the server: what a worker records for a request, and the match outcome
  the server recorded for it.
\<close>

lemma error_is_not_created:
  "is_sqlalchemy_error e \<or> (\<exists>k i. e = IdempotencyKeyConflictError k i) \<or> match_error t e \<or> (\<exists>msg. e = ValueError msg)
    \<Longrightarrow> handle_exception e \<noteq> Response 201 b"
  by (auto simp: match_error_def db_errors redis_errors error_response_def)

lemma request_outcome_error:
  assumes "request_outcome (Inl e) t"
  shows "handle_exception e \<noteq> Response 201 b" and "recorded t \<in> {[], [OError], [OUnmatched]}"
  using assms error_is_not_created [of e t b]
  by (auto simp: request_outcome_def split: list.splits outcome.splits)

lemma request_outcome_ride:
  assumes "request_outcome (Inr r) t"
  shows "recorded t \<noteq> [OError]"
  using assms by (auto simp: request_outcome_def)

lemma recorded_response:
  "ensures (serve h cfg vtext (PostRide rider lat lng None)) (\<lambda>res t. \<forall>resp. res = Inr resp \<longrightarrow>
     (if \<exists>b. resp = Response 201 b then recorded t \<noteq> [OError] else recorded t \<in> {[], [OError], [OUnmatched]}))"
proof (cases "valid_request (PostRide rider lat lng None)")
  case True
  have "ensures (request_ride h cfg rider lat lng None) request_outcome"
    by (rule ensures_mono [OF ensures_request_ride]) (simp add: request_contract_def)
  then have "ensures (respond 201 (\<lambda>r. BRide (to_ride_response r)) (request_ride h cfg rider lat lng None))
     (\<lambda>res t. \<forall>resp. res = Inr resp \<longrightarrow>
       (if \<exists>b. resp = Response 201 b then recorded t \<noteq> [OError] else recorded t \<in> {[], [OError], [OUnmatched]}))"
    unfolding respond_def
    by (rule ensures_handleI)
      (use request_outcome_error request_outcome_ride in \<open>auto simp: ensures_Return\<close>)
  then show ?thesis using True by (simp add: serve_def)
next
  case False
  then show ?thesis by (simp add: serve_def ensures_Return error_response_def)
qed

lemma worker_error_iff:
  "so_outcome (fst (worker_outcome latency (client_request_ride (\<lambda>_. Some resp) rider lat lng))) = OError
     \<longleftrightarrow> (\<forall>b. resp \<noteq> Response 201 b)"
  by (cases resp) (auto simp: worker_outcome_def client_request_ride_def Let_def)



end
