(* ===== verification/SearchProps.thy ===== *)
theory SearchProps
  imports Protocol
begin

text \<open>
  The candidate search against a fixed fleet: a reference definition (the available drivers of the
  smallest disk that holds enough of them) and the equivalence of the ring-by-ring search with it.
\<close>

text \<open>The queries for drivers are answered from a list of rows, in any order; \<open>finds\<close> says how a program ends then.\<close>

fun answers_from :: "driver list \<Rightarrow> call \<Rightarrow> reply \<Rightarrow> bool" where
  "answers_from ds (SelectDrivers p) r = (\<exists>xs. r = RDrivers xs \<and> mset xs = mset (filter p ds))"
| "answers_from ds c r = True"

definition fleet_next :: "driver list \<Rightarrow> unit \<Rightarrow> call \<Rightarrow> reply \<Rightarrow> unit option" where
  "fleet_next ds s c r = (if answers_from ds c r then Some () else None)"

abbreviation finds :: "driver list \<Rightarrow> 'a prog \<Rightarrow> (exn + 'a \<Rightarrow> bool) \<Rightarrow> bool" where
  "finds ds p Q \<equiv> obeys (\<lambda>_ _. True) (fleet_next ds) p (\<lambda>res _. Q res) ()"

lemma finds_pbindI:
  assumes "finds ds p R" and "\<And>x. R (Inr x) \<Longrightarrow> finds ds (f x) Q" and "\<And>e. R (Inl e) \<Longrightarrow> Q (Inl e)"
  shows "finds ds (pbind p f) Q"
  by (rule obeys_pbindI [OF assms(1)]) (use assms(2,3) in auto)

definition available_in_disk :: "h3_lib \<Rightarrow> driver list \<Rightarrow> string \<Rightarrow> int \<Rightarrow> driver list" where
  "available_in_disk h ds cell k =
     (if k < 0 then [] else filter (\<lambda>d. d_status d = AVAILABLE \<and> d_h3_index d \<in> set (grid_disk h cell k)) ds)"

definition search_radius :: "h3_lib \<Rightarrow> driver list \<Rightarrow> string \<Rightarrow> int \<Rightarrow> int \<Rightarrow> int \<Rightarrow> int" where
  "search_radius h ds cell target k max_ring =
     (case find (\<lambda>j. target \<le> int (length (available_in_disk h ds cell j))) [k..max_ring] of
        Some j \<Rightarrow> j | None \<Rightarrow> max_ring)"

lemma update_fresh: "k \<notin> fst ` set al \<Longrightarrow> AList.update k v al = al @ [(k, v)]"
  by (induction al) auto

lemma fold_update_fresh:
  assumes "distinct (map d_id ds)" and "d_id ` set ds \<inter> fst ` set found = {}"
  shows "fold (\<lambda>d. AList.update (d_id d) d) ds found = found @ map (\<lambda>d. (d_id d, d)) ds"
  using assms by (induction ds arbitrary: found) (auto simp: update_fresh)

text \<open>The next disk is the one before with the drivers of the ring.\<close>

lemma available_next:
  assumes "h3_documented h" and "0 \<le> k" and "cells_within_ring h cell k = Inr cells"
  shows "mset (available_in_disk h ds cell k) = mset (available_in_disk h ds cell (k - 1))
      + mset (filter (\<lambda>d. d_status d = AVAILABLE \<and> d_h3_index d \<in> cells) ds)"
proof -
  have cells: "cells = set (grid_disk h cell k) - (if k = 0 then {} else set (grid_disk h cell (k - 1)))"
    using assms(2,3) by (simp add: cells_within_ring_eq)
  show ?thesis
  proof (cases "k = 0")
    case True
    then show ?thesis by (simp add: available_in_disk_def cells)
  next
    case False
    then have "set (grid_disk h cell (k - 1)) \<subseteq> set (grid_disk h cell k)"
      using disk_mono [OF assms(1), of "k - 1" k] assms(2) by simp
    then show ?thesis
      using False assms(2) by (induction ds) (auto simp: available_in_disk_def cells)
  qed
qed

lemma finds_available:
  "finds ds (list_available_in_cells cells)
     (\<lambda>res. \<exists>xs. res = Inr xs \<and> mset xs = mset (filter (\<lambda>d. d_status d = AVAILABLE \<and> d_h3_index d \<in> cells) ds))"
  by (auto simp: list_available_in_cells_def obeys_ask fleet_next_def ask_result_def filter_False split: if_splits)

lemma finds_search:
  assumes "h3_documented h" and "distinct (map d_id ds)" and "0 \<le> k" and "k \<le> max_ring + 1"
    and "map fst found = map d_id (map snd found)"
    and "mset (map snd found) = mset (available_in_disk h ds cell (k - 1))"
  shows "finds ds (search_rings h cell target [k..max_ring] found)
    (\<lambda>res. \<exists>cs. res = Inr cs \<and> mset (map snd cs) = mset (available_in_disk h ds cell (search_radius h ds cell target k max_ring)))"
  using assms(3-6)
proof (induction "nat (max_ring + 1 - k)" arbitrary: k found)
  case 0
  then have "k = max_ring + 1" by simp
  then show ?case using 0 by (simp add: search_radius_def)
next
  case (Suc n)
  then have k: "k \<le> max_ring" by simp
  then have upto: "[k..max_ring] = k # [k + 1..max_ring]" by (simp add: upto.simps)
  obtain cells where cells: "cells_within_ring h cell k = Inr cells"
    using Suc.prems(1) by (simp add: cells_within_ring_eq)
  let ?here = "available_in_disk h ds cell k"
  have after: "finds ds (if target \<le> int (length found') then Return found' else search_rings h cell target [k + 1..max_ring] found')
      (\<lambda>res. \<exists>cs. res = Inr cs \<and> mset (map snd cs) = mset (available_in_disk h ds cell (search_radius h ds cell target k max_ring)))"
    if ids: "map fst found' = map d_id (map snd found')" and here: "mset (map snd found') = mset ?here" for found'
  proof -
    have len: "length found' = length ?here" using arg_cong [OF here, of size] by simp
    show ?thesis
    proof (cases "target \<le> int (length found')")
      case True
      then show ?thesis using here len by (simp add: search_radius_def upto)
    next
      case False
      have "search_radius h ds cell target k max_ring = search_radius h ds cell target (k + 1) max_ring"
        using False len by (simp add: search_radius_def upto)
      then show ?thesis
        using Suc.hyps(1) [of "k + 1" found'] Suc.hyps(2) Suc.prems k ids here False by simp
    qed
  qed
  show ?case
    unfolding upto search_rings.simps cells sum.case
  proof (rule finds_pbindI [OF finds_available])
    fix new
    assume "\<exists>xs. Inr new = Inr xs \<and> mset xs = mset (filter (\<lambda>d. d_status d = AVAILABLE \<and> d_h3_index d \<in> cells) ds)"
    then have new: "mset new = mset (filter (\<lambda>d. d_status d = AVAILABLE \<and> d_h3_index d \<in> cells) ds)" by simp
    have next_mset: "mset ?here = mset (map snd found) + mset new"
      using available_next [OF assms(1) Suc.prems(1) cells] Suc.prems(4) by (simp add: new)
    have "distinct (map d_id ?here)" using assms(2) by (simp add: available_in_disk_def distinct_map_filter)
    moreover have "mset (map d_id (map snd found @ new)) = mset (map d_id ?here)"
      using arg_cong [OF next_mset, of "image_mset d_id"] by (simp add: multiset.map_comp comp_def)
    ultimately have "distinct (map d_id (map snd found @ new))" using mset_eq_imp_distinct_iff by blast
    then have "distinct (map d_id new)" "d_id ` set new \<inter> set (map d_id (map snd found)) = {}" by auto
    then have found': "fold (\<lambda>d. AList.update (d_id d) d) new found = found @ map (\<lambda>d. (d_id d, d)) new"
      unfolding Suc.prems(3) [symmetric] by (intro fold_update_fresh) auto
    have "map fst (found @ map (\<lambda>d. (d_id d, d)) new) = map d_id (map snd (found @ map (\<lambda>d. (d_id d, d)) new))"
      using Suc.prems(3) by (simp add: comp_def)
    moreover have "mset (map snd (found @ map (\<lambda>d. (d_id d, d)) new)) = mset ?here"
      using next_mset by (simp add: comp_def)
    ultimately show "finds ds (let candidates = fold (\<lambda>d. AList.update (d_id d) d) new found
          in if target \<le> int (length candidates) then Return candidates else search_rings h cell target [k + 1..max_ring] candidates)
      (\<lambda>res. \<exists>cs. res = Inr cs \<and> mset (map snd cs) = mset (available_in_disk h ds cell (search_radius h ds cell target k max_ring)))"
      unfolding found' Let_def by (rule after)
  qed simp
qed

text \<open>The drivers a search may choose from: the available ones of the smallest disk with enough of them.\<close>

definition near_drivers :: "h3_lib \<Rightarrow> settings \<Rightarrow> driver list \<Rightarrow> real \<Rightarrow> real \<Rightarrow> int \<Rightarrow> int \<Rightarrow> driver list" where
  "near_drivers h cfg ds lat lng target max_ring =
     (let cell = latlng_to_h3 h lat lng (h3_resolution cfg)
      in available_in_disk h ds cell (search_radius h ds cell target 0 max_ring))"

definition nearest_first :: "real \<Rightarrow> real \<Rightarrow> (driver \<times> real) list \<Rightarrow> bool" where
  "nearest_first lat lng ranked \<longleftrightarrow> sorted (map (\<lambda>(d, _). great_circle_km lat lng (current_lat d) (current_lng d)) ranked)"

lemma rank_nearest_first: "nearest_first lat lng (rank_candidates lat lng ds)"
proof -
  let ?ranked = "rank_candidates lat lng ds"
  have "map (\<lambda>(d, _). great_circle_km lat lng (current_lat d) (current_lng d)) ?ranked = map snd ?ranked"
    by (intro map_cong refl) (auto simp: set_rank_candidates haversine_great_circle)
  moreover have "sorted (map snd ?ranked)" by (simp add: rank_candidates_def)
  ultimately show ?thesis by (simp only: nearest_first_def)
qed

lemma finds_ranked:
  assumes "h3_documented h" and "distinct (map d_id ds)" and "0 \<le> max_ring"
  shows "finds ds (find_ranked_candidates h cfg lat lng target max_ring)
    (\<lambda>res. \<exists>ranked. res = Inr ranked \<and> mset (map fst ranked) = mset (near_drivers h cfg ds lat lng target max_ring)
       \<and> nearest_first lat lng ranked)"
  unfolding find_ranked_candidates_def Let_def
proof (rule finds_pbindI [OF finds_search [OF assms(1,2)]])
  fix cs
  assume "\<exists>cs'. Inr cs = Inr cs' \<and> mset (map snd cs') = mset (available_in_disk h ds (latlng_to_h3 h lat lng (h3_resolution cfg))
    (search_radius h ds (latlng_to_h3 h lat lng (h3_resolution cfg)) target 0 max_ring))"
  moreover have "mset (map fst (rank_candidates lat lng (map snd cs))) = mset (map snd cs)"
    by (simp add: rank_candidates_def multiset.map_comp comp_def)
  ultimately show "finds ds (Return (rank_candidates lat lng (map snd cs)))
    (\<lambda>res. \<exists>ranked. res = Inr ranked \<and> mset (map fst ranked) = mset (near_drivers h cfg ds lat lng target max_ring)
       \<and> nearest_first lat lng ranked)"
    by (simp add: near_drivers_def rank_nearest_first Let_def)
qed (use assms(3) in \<open>simp_all add: available_in_disk_def\<close>)

text \<open>C21: searching ring by ring finds exactly the available drivers of the smallest disk around the
  pickup cell that holds at least the wanted number of them (of the largest disk when none does), each
  once, nearest first, whatever the shape of the disks and in whatever order the database returns rows.\<close>

theorem search_finds_smallest_disk:
  assumes "h3_documented h" and "distinct (map d_id ds)" and "0 \<le> max_ring"
    and "trace (find_ranked_candidates h cfg lat lng target max_ring) t res" and "\<forall>(c, r) \<in> set t. answers_from ds c r"
  shows "\<exists>ranked cell. res = Inr ranked \<and> cell = latlng_to_h3 h lat lng (h3_resolution cfg)
    \<and> mset (map fst ranked) = mset (available_in_disk h ds cell (search_radius h ds cell target 0 max_ring))
    \<and> sorted (map (\<lambda>(d, _). great_circle_km lat lng (current_lat d) (current_lng d)) ranked)"
proof -
  have "(c, r) \<in> set t \<Longrightarrow> fleet_next ds s c r \<noteq> None" for c r s using assms(5) by (auto simp: fleet_next_def)
  from obeys_trace [OF assms(4) finds_ranked [OF assms(1-3)] this]
  show ?thesis by (auto simp: near_drivers_def nearest_first_def Let_def)
qed

text \<open>The witness: on the half line with one available driver in cell 3 and one in cell 5, a search from
  cell 4 stops at radius 1 with both; the busy one in cell 4 is not a candidate.\<close>

definition line_fleet :: "driver list" where
  "line_fleet = [(at_point ''a'' 3 0)\<lparr>d_h3_index := unary 3\<rparr>, (at_point ''b'' 5 0)\<lparr>d_h3_index := unary 5\<rparr>,
     (at_point ''c'' 4 0)\<lparr>d_h3_index := unary 4, d_status := BUSY\<rparr>]"

lemma line_fleet_search:
  "latlng_to_h3 line_h3 4 0 res = unary 4"
  "search_radius line_h3 line_fleet (unary 4) 1 0 2 = 1"
  "map d_id (available_in_disk line_h3 line_fleet (unary 4) 1) = [''a'', ''b'']"
  by (simp_all add: latlng_to_h3_def line_h3_def search_radius_def available_in_disk_def line_fleet_def
      at_point_def unary_def upto.simps eval_nat_numeral)

definition fleet_service :: "driver list \<Rightarrow> unit \<Rightarrow> call \<Rightarrow> reply \<times> unit" where
  "fleet_service ds s c = (case c of SelectDrivers p \<Rightarrow> RDrivers (filter p ds) | _ \<Rightarrow> RUnit, s)"

lemma fleet_service_answers: "\<forall>(c, r) \<in> set (run_log (fleet_service ds) p s). answers_from ds c r"
proof (induction p arbitrary: s)
  case (Call c k)
  have "answers_from ds c (fst (fleet_service ds s c))" by (cases c) (simp_all add: fleet_service_def)
  then show ?case using Call by (cases "fleet_service ds s c") auto
qed simp_all

theorem search_finds_smallest_disk_witness:
  "\<exists>ranked. fst (run (fleet_service line_fleet) (find_ranked_candidates line_h3 default_settings 4 0 1 2) ()) = Inr ranked
     \<and> mset (map (\<lambda>c. d_id (fst c)) ranked) = {#''a'', ''b''#}"
proof -
  have "distinct (map d_id line_fleet)" by (simp add: line_fleet_def at_point_def)
  from search_finds_smallest_disk [OF line_h3_documented this _ run_log_trace fleet_service_answers, of 2 default_settings 4 0 1]
  obtain ranked where "fst (run (fleet_service line_fleet) (find_ranked_candidates line_h3 default_settings 4 0 1 2) ()) = Inr ranked"
    and m: "mset (map fst ranked) = mset (available_in_disk line_h3 line_fleet (unary 4) 1)"
    by (auto simp: line_fleet_search)
  moreover have "mset (map (\<lambda>c. d_id (fst c)) ranked) = {#''a'', ''b''#}"
    using arg_cong [OF m, of "image_mset d_id"] arg_cong [OF line_fleet_search(3), of mset]
    by (simp add: multiset.map_comp comp_def)
  ultimately show ?thesis by blast
qed

end
