(* ===== verification/Migrations.thy ===== *)
theory Migrations
  imports Models
begin

text \<open>
  The schema migrations (migrations/versions) as sequences of DDL operations on a database schema, and the
  schema that the models declare (app/models), which the tests create directly. An operation that
  PostgreSQL refuses is None.
\<close>

section \<open>Schemas\<close>

datatype sql_type = SqlUuid | SqlFloat | SqlString nat | SqlEnum string | SqlTimestamp | SqlNumeric nat nat

record column =
  col_name :: string
  col_type :: sql_type
  col_default :: "string option"
  col_nullable :: bool

record table_def =
  t_name :: string
  t_columns :: "column list"
  t_foreign_keys :: "(string \<times> string) list"
  t_primary_key :: string

record index_def =
  ix_name :: string
  ix_table :: string
  ix_column :: string
  ix_unique :: bool
  ix_where :: "string option"

text \<open>\<open>inhabited\<close> are the tables that hold rows.\<close>

record db_schema =
  enum_types :: "(string \<times> string list) list"
  table_defs :: "table_def list"
  index_defs :: "index_def list"
  unique_constraints :: "(string \<times> string \<times> string) list"
  inhabited :: "string set"

definition empty_schema :: db_schema where
  "empty_schema = \<lparr>enum_types = [], table_defs = [], index_defs = [], unique_constraints = [], inhabited = {}\<rparr>"

section \<open>DDL operations\<close>

text \<open>
  Creating a table creates the enum types of its columns first, and fails when one exists. Dropping a
  table, or a column, drops its indexes and constraints and leaves the types.
\<close>

datatype ddl =
    CreateTable "(string \<times> string list) list" table_def
  | DropTable string
  | CreateIndex index_def
  | DropIndex string
  | AddColumn string column
  | DropColumn string string
  | CreateUnique string string string
  | DropConstraint string string

definition has_table :: "string \<Rightarrow> db_schema \<Rightarrow> bool" where
  "has_table t s \<longleftrightarrow> t \<in> set (map t_name (table_defs s))"

definition has_column :: "string \<Rightarrow> string \<Rightarrow> db_schema \<Rightarrow> bool" where
  "has_column t c s \<longleftrightarrow> (\<exists>d \<in> set (table_defs s). t_name d = t \<and> c \<in> set (map col_name (t_columns d)))"

definition on_table :: "string \<Rightarrow> (column list \<Rightarrow> column list) \<Rightarrow> db_schema \<Rightarrow> db_schema" where
  "on_table t f s = s\<lparr>table_defs := map (\<lambda>d. if t_name d = t then d\<lparr>t_columns := f (t_columns d)\<rparr> else d) (table_defs s)\<rparr>"

fun ddl_step :: "ddl \<Rightarrow> db_schema \<Rightarrow> db_schema option" where
  "ddl_step (CreateTable types d) s =
     (if has_table (t_name d) s \<or> (\<exists>ty \<in> set types. fst ty \<in> set (map fst (enum_types s))) then None
      else Some (s\<lparr>enum_types := enum_types s @ types, table_defs := table_defs s @ [d]\<rparr>))"
| "ddl_step (DropTable t) s =
     (if \<not> has_table t s \<or> (\<exists>d \<in> set (table_defs s). t_name d \<noteq> t \<and> t \<in> set (map snd (t_foreign_keys d))) then None
      else Some (s\<lparr>table_defs := filter (\<lambda>d. t_name d \<noteq> t) (table_defs s),
             index_defs := filter (\<lambda>i. ix_table i \<noteq> t) (index_defs s),
             unique_constraints := filter (\<lambda>(_, t', _). t' \<noteq> t) (unique_constraints s),
             inhabited := inhabited s - {t}\<rparr>))"
| "ddl_step (CreateIndex i) s =
     (if ix_name i \<in> set (map ix_name (index_defs s)) \<or> \<not> has_column (ix_table i) (ix_column i) s then None
      else Some (s\<lparr>index_defs := index_defs s @ [i]\<rparr>))"
| "ddl_step (DropIndex n) s =
     (if n \<notin> set (map ix_name (index_defs s)) then None
      else Some (s\<lparr>index_defs := filter (\<lambda>i. ix_name i \<noteq> n) (index_defs s)\<rparr>))"
| "ddl_step (AddColumn t c) s =
     (if \<not> has_table t s \<or> has_column t (col_name c) s
         \<or> (\<not> col_nullable c \<and> col_default c = None \<and> t \<in> inhabited s) then None
      else Some (on_table t (\<lambda>cs. cs @ [c]) s))"
| "ddl_step (DropColumn t n) s =
     (if \<not> has_column t n s then None
      else Some ((on_table t (filter (\<lambda>c. col_name c \<noteq> n)) s)\<lparr>
             index_defs := filter (\<lambda>i. (ix_table i, ix_column i) \<noteq> (t, n)) (index_defs s),
             unique_constraints := filter (\<lambda>(_, t', c). (t', c) \<noteq> (t, n)) (unique_constraints s)\<rparr>))"
| "ddl_step (CreateUnique n t c) s =
     (if n \<in> set (map fst (unique_constraints s)) \<or> \<not> has_column t c s then None
      else Some (s\<lparr>unique_constraints := unique_constraints s @ [(n, t, c)]\<rparr>))"
| "ddl_step (DropConstraint n t) s =
     (if (n, t) \<notin> set (map (\<lambda>(n, t, _). (n, t)) (unique_constraints s)) then None
      else Some (s\<lparr>unique_constraints := filter (\<lambda>(n', t', _). (n', t') \<noteq> (n, t)) (unique_constraints s)\<rparr>))"

fun migrate :: "ddl list \<Rightarrow> db_schema \<Rightarrow> db_schema option" where
  "migrate [] s = Some s"
| "migrate (d # ds) s = (case ddl_step d s of None \<Rightarrow> None | Some s' \<Rightarrow> migrate ds s')"

section \<open>The migrations\<close>

definition sql_column :: "string \<Rightarrow> sql_type \<Rightarrow> string option \<Rightarrow> bool \<Rightarrow> column" where
  "sql_column n ty d nul = \<lparr>col_name = n, col_type = ty, col_default = d, col_nullable = nul\<rparr>"

definition plain_index :: "string \<Rightarrow> string \<Rightarrow> string \<Rightarrow> index_def" where
  "plain_index n t c = \<lparr>ix_name = n, ix_table = t, ix_column = c, ix_unique = False, ix_where = None\<rparr>"

definition upgrade_3f0e070721ea :: "ddl list" where
  "upgrade_3f0e070721ea =
     [CreateTable [(''driver_status'', [''available'', ''busy'', ''offline''])]
        \<lparr>t_name = ''drivers'', t_columns =
           [sql_column ''id'' SqlUuid None False,
            sql_column ''current_lat'' SqlFloat None False,
            sql_column ''current_lng'' SqlFloat None False,
            sql_column ''h3_index'' (SqlString 20) None False,
            sql_column ''status'' (SqlEnum ''driver_status'') (Some ''available'') False,
            sql_column ''last_updated_at'' SqlTimestamp (Some ''now()'') False],
         t_foreign_keys = [], t_primary_key = ''id''\<rparr>,
      CreateIndex (plain_index ''ix_drivers_h3_index'' ''drivers'' ''h3_index''),
      CreateIndex (plain_index ''ix_drivers_status'' ''drivers'' ''status''),
      CreateTable []
        \<lparr>t_name = ''riders'', t_columns =
           [sql_column ''id'' SqlUuid None False,
            sql_column ''pickup_lat'' SqlFloat None False,
            sql_column ''pickup_lng'' SqlFloat None False,
            sql_column ''requested_at'' SqlTimestamp (Some ''now()'') False],
         t_foreign_keys = [], t_primary_key = ''id''\<rparr>,
      CreateTable [(''ride_status'', [''requested'', ''matched'', ''in_progress'', ''completed'', ''cancelled''])]
        \<lparr>t_name = ''rides'', t_columns =
           [sql_column ''id'' SqlUuid None False,
            sql_column ''rider_id'' SqlUuid None False,
            sql_column ''driver_id'' SqlUuid None True,
            sql_column ''status'' (SqlEnum ''ride_status'') (Some ''requested'') False,
            sql_column ''pickup_lat'' SqlFloat None False,
            sql_column ''pickup_lng'' SqlFloat None False,
            sql_column ''matched_at'' SqlTimestamp None True,
            sql_column ''fare'' (SqlNumeric 10 2) None True,
            sql_column ''surge_multiplier'' (SqlNumeric 4 2) None True,
            sql_column ''zone_id'' (SqlString 20) None True,
            sql_column ''created_at'' SqlTimestamp (Some ''now()'') False,
            sql_column ''updated_at'' SqlTimestamp (Some ''now()'') False],
         t_foreign_keys = [(''driver_id'', ''drivers''), (''rider_id'', ''riders'')], t_primary_key = ''id''\<rparr>,
      CreateIndex (plain_index ''ix_rides_driver_id'' ''rides'' ''driver_id''),
      CreateIndex (plain_index ''ix_rides_rider_id'' ''rides'' ''rider_id''),
      CreateIndex (plain_index ''ix_rides_status'' ''rides'' ''status''),
      CreateIndex (plain_index ''ix_rides_zone_id'' ''rides'' ''zone_id'')]"

definition downgrade_3f0e070721ea :: "ddl list" where
  "downgrade_3f0e070721ea =
     [DropIndex ''ix_rides_zone_id'', DropIndex ''ix_rides_status'', DropIndex ''ix_rides_rider_id'',
      DropIndex ''ix_rides_driver_id'', DropTable ''rides'', DropTable ''riders'',
      DropIndex ''ix_drivers_status'', DropIndex ''ix_drivers_h3_index'', DropTable ''drivers'']"

definition active_ride_index :: index_def where
  "active_ride_index = \<lparr>ix_name = ''ux_rides_one_active_ride_per_driver'', ix_table = ''rides'',
     ix_column = ''driver_id'', ix_unique = True,
     ix_where = Some (''driver_id IS NOT NULL AND status IN ('' @ [CHR 0x27] @ ''requested'' @ [CHR 0x27] @ '', '' @
       [CHR 0x27] @ ''matched'' @ [CHR 0x27] @ '', '' @ [CHR 0x27] @ ''in_progress'' @ [CHR 0x27] @ '')'')\<rparr>"

definition upgrade_4400761b43ec :: "ddl list" where
  "upgrade_4400761b43ec = [CreateIndex active_ride_index]"

definition downgrade_4400761b43ec :: "ddl list" where
  "downgrade_4400761b43ec = [DropIndex ''ux_rides_one_active_ride_per_driver'']"

definition upgrade_c30a463d0562 :: "ddl list" where
  "upgrade_c30a463d0562 =
     [AddColumn ''rides'' (sql_column ''idempotency_key'' (SqlString 255) None True),
      CreateUnique ''uq_rides_idempotency_key'' ''rides'' ''idempotency_key'']"

definition downgrade_c30a463d0562 :: "ddl list" where
  "downgrade_c30a463d0562 =
     [DropConstraint ''uq_rides_idempotency_key'' ''rides'', DropColumn ''rides'' ''idempotency_key'']"

definition upgrade_e90e1cf00ec5 :: "ddl list" where
  "upgrade_e90e1cf00ec5 =
     [AddColumn ''drivers'' (sql_column ''zone_id'' (SqlString 20) None False),
      CreateIndex (plain_index ''ix_drivers_zone_id'' ''drivers'' ''zone_id'')]"

definition downgrade_e90e1cf00ec5 :: "ddl list" where
  "downgrade_e90e1cf00ec5 = [DropIndex ''ix_drivers_zone_id'', DropColumn ''drivers'' ''zone_id'']"

text \<open>The head of each script: its revision and the one it follows.\<close>

record revision_script =
  revision :: string
  down_revision :: "string option"
  upgrade_ops :: "ddl list"
  downgrade_ops :: "ddl list"

definition script_3f0e070721ea :: revision_script where
  "script_3f0e070721ea = \<lparr>revision = ''3f0e070721ea'', down_revision = None,
     upgrade_ops = upgrade_3f0e070721ea, downgrade_ops = downgrade_3f0e070721ea\<rparr>"

definition script_4400761b43ec :: revision_script where
  "script_4400761b43ec = \<lparr>revision = ''4400761b43ec'', down_revision = Some ''3f0e070721ea'',
     upgrade_ops = upgrade_4400761b43ec, downgrade_ops = downgrade_4400761b43ec\<rparr>"

definition script_c30a463d0562 :: revision_script where
  "script_c30a463d0562 = \<lparr>revision = ''c30a463d0562'', down_revision = Some ''4400761b43ec'',
     upgrade_ops = upgrade_c30a463d0562, downgrade_ops = downgrade_c30a463d0562\<rparr>"

definition script_e90e1cf00ec5 :: revision_script where
  "script_e90e1cf00ec5 = \<lparr>revision = ''e90e1cf00ec5'', down_revision = Some ''c30a463d0562'',
     upgrade_ops = upgrade_e90e1cf00ec5, downgrade_ops = downgrade_e90e1cf00ec5\<rparr>"

text \<open>The versions directory, in no particular order: the chain of \<open>down_revision\<close> orders it.\<close>

definition versions :: "revision_script list" where
  "versions = [script_e90e1cf00ec5, script_3f0e070721ea, script_c30a463d0562, script_4400761b43ec]"

text \<open>The scripts that follow a revision, in the order of the chain, which cannot be longer than the
  directory.\<close>

fun scripts_after :: "nat \<Rightarrow> revision_script list \<Rightarrow> string option \<Rightarrow> revision_script list" where
  "scripts_after 0 scripts current = []"
| "scripts_after (Suc n) scripts current =
     (case find (\<lambda>v. down_revision v = current) scripts of
        None \<Rightarrow> []
      | Some v \<Rightarrow> v # scripts_after n scripts (Some (revision v)))"

definition upgrade_path :: "revision_script list \<Rightarrow> string option \<Rightarrow> revision_script list" where
  "upgrade_path scripts current = scripts_after (length scripts) scripts current"

text \<open>Upgrading to the head with a live connection (env.py): the scripts run in one transaction, with the
  revision the database records; when a statement is refused everything is rolled back.\<close>

definition run_migrations_online ::
  "revision_script list \<Rightarrow> string option \<times> db_schema \<Rightarrow> bool \<times> string option \<times> db_schema" where
  "run_migrations_online scripts db =
     (case db of (current, s) \<Rightarrow>
        let path = upgrade_path scripts current
        in case migrate (concat (map upgrade_ops path)) s of
             None \<Rightarrow> (False, current, s)
           | Some s' \<Rightarrow> (True, if path = [] then current else Some (revision (last path)), s'))"

text \<open>Without a connection the same statements are printed instead of executed.\<close>

definition run_migrations_offline :: "revision_script list \<Rightarrow> string option \<Rightarrow> ddl list" where
  "run_migrations_offline scripts current = concat (map upgrade_ops (upgrade_path scripts current))"

lemma offline_script_agrees:
  "snd (snd (run_migrations_online scripts (current, s))) =
     (case migrate (run_migrations_offline scripts current) s of Some s' \<Rightarrow> s' | None \<Rightarrow> s)"
  by (simp add: run_migrations_online_def run_migrations_offline_def Let_def split: option.split)

definition upgrade_head :: "ddl list" where
  "upgrade_head = concat (map upgrade_ops (upgrade_path versions None))"

definition downgrade_base :: "ddl list" where
  "downgrade_base = concat (map downgrade_ops (rev (upgrade_path versions None)))"

lemmas script_defs = versions_def script_3f0e070721ea_def script_4400761b43ec_def script_c30a463d0562_def
  script_e90e1cf00ec5_def

lemma numeral_scripts_after [simp]:
  "scripts_after (numeral k) scripts current =
     (case find (\<lambda>v. down_revision v = current) scripts of
        None \<Rightarrow> []
      | Some v \<Rightarrow> v # scripts_after (pred_numeral k) scripts (Some (revision v)))"
  by (simp add: numeral_eq_Suc)

lemma upgrade_path_versions:
  "upgrade_path versions None = [script_3f0e070721ea, script_4400761b43ec, script_c30a463d0562, script_e90e1cf00ec5]"
  "upgrade_path versions (Some ''e90e1cf00ec5'') = []"
  by (simp_all add: upgrade_path_def script_defs)

lemma upgrade_head_scripts:
  "upgrade_head = upgrade_3f0e070721ea @ upgrade_4400761b43ec @ upgrade_c30a463d0562 @ upgrade_e90e1cf00ec5"
  unfolding upgrade_head_def upgrade_path_versions by (simp add: script_defs)

lemma downgrade_base_scripts:
  "downgrade_base = downgrade_e90e1cf00ec5 @ downgrade_c30a463d0562 @ downgrade_4400761b43ec @ downgrade_3f0e070721ea"
  unfolding downgrade_base_def upgrade_path_versions by (simp add: script_defs)

section \<open>The schema of the models\<close>

text \<open>A column declared with \<open>index=True\<close> has the index \<open>ix_<table>_<column>\<close>.\<close>

definition column_index :: "string \<Rightarrow> string \<Rightarrow> index_def" where
  "column_index t c = plain_index (''ix_'' @ t @ ''_'' @ c) t c"

definition driver_table :: table_def where
  "driver_table = \<lparr>t_name = ''drivers'', t_columns =
     [sql_column ''id'' SqlUuid None False,
      sql_column ''current_lat'' SqlFloat None False,
      sql_column ''current_lng'' SqlFloat None False,
      sql_column ''h3_index'' (SqlString 20) None False,
      sql_column ''zone_id'' (SqlString 20) None False,
      sql_column ''status'' (SqlEnum ''driver_status'') (Some (driver_status_value AVAILABLE)) False,
      sql_column ''last_updated_at'' SqlTimestamp (Some ''now()'') False],
     t_foreign_keys = [], t_primary_key = ''id''\<rparr>"

definition rider_table :: table_def where
  "rider_table = \<lparr>t_name = ''riders'', t_columns =
     [sql_column ''id'' SqlUuid None False,
      sql_column ''pickup_lat'' SqlFloat None False,
      sql_column ''pickup_lng'' SqlFloat None False,
      sql_column ''requested_at'' SqlTimestamp (Some ''now()'') False],
     t_foreign_keys = [], t_primary_key = ''id''\<rparr>"

definition ride_table :: table_def where
  "ride_table = \<lparr>t_name = ''rides'', t_columns =
     [sql_column ''id'' SqlUuid None False,
      sql_column ''rider_id'' SqlUuid None False,
      sql_column ''driver_id'' SqlUuid None True,
      sql_column ''status'' (SqlEnum ''ride_status'') (Some (ride_status_value REQUESTED)) False,
      sql_column ''pickup_lat'' SqlFloat None False,
      sql_column ''pickup_lng'' SqlFloat None False,
      sql_column ''matched_at'' SqlTimestamp None True,
      sql_column ''fare'' (SqlNumeric 10 2) None True,
      sql_column ''surge_multiplier'' (SqlNumeric 4 2) None True,
      sql_column ''zone_id'' (SqlString 20) None True,
      sql_column ''idempotency_key'' (SqlString 255) None True,
      sql_column ''created_at'' SqlTimestamp (Some ''now()'') False,
      sql_column ''updated_at'' SqlTimestamp (Some ''now()'') False],
     t_foreign_keys = [(''rider_id'', ''riders''), (''driver_id'', ''drivers'')], t_primary_key = ''id''\<rparr>"

definition model_schema :: db_schema where
  "model_schema = \<lparr>
     enum_types = [(''driver_status'', map driver_status_value [AVAILABLE, BUSY, OFFLINE]),
                   (''ride_status'', map ride_status_value [REQUESTED, MATCHED, IN_PROGRESS, COMPLETED, CANCELLED])],
     table_defs = [driver_table, rider_table, ride_table],
     index_defs = [column_index ''drivers'' ''h3_index'', column_index ''drivers'' ''zone_id'',
                   column_index ''drivers'' ''status'', column_index ''rides'' ''rider_id'',
                   column_index ''rides'' ''driver_id'', column_index ''rides'' ''status'',
                   column_index ''rides'' ''zone_id'', active_ride_index],
     unique_constraints = [(''uq_rides_idempotency_key'', ''rides'', ''idempotency_key'')],
     inhabited = {}\<rparr>"

text \<open>Two schemas that differ in the order of declarations only.\<close>

definition same_table :: "table_def \<Rightarrow> table_def \<Rightarrow> bool" where
  "same_table d e \<longleftrightarrow> t_name d = t_name e \<and> set (t_columns d) = set (t_columns e)
     \<and> length (t_columns d) = length (t_columns e)
     \<and> set (t_foreign_keys d) = set (t_foreign_keys e) \<and> t_primary_key d = t_primary_key e"

definition same_schema :: "db_schema \<Rightarrow> db_schema \<Rightarrow> bool" where
  "same_schema a b \<longleftrightarrow> set (enum_types a) = set (enum_types b)
     \<and> list_all2 same_table (table_defs a) (table_defs b)
     \<and> set (index_defs a) = set (index_defs b) \<and> length (index_defs a) = length (index_defs b)
     \<and> set (unique_constraints a) = set (unique_constraints b)"

lemmas migration_defs = upgrade_3f0e070721ea_def upgrade_4400761b43ec_def upgrade_c30a463d0562_def
  upgrade_e90e1cf00ec5_def downgrade_3f0e070721ea_def downgrade_4400761b43ec_def downgrade_c30a463d0562_def
  downgrade_e90e1cf00ec5_def plain_index_def sql_column_def active_ride_index_def

lemmas schema_defs = empty_schema_def has_table_def has_column_def on_table_def

lemma upgrade_head_schema: "\<exists>s. migrate upgrade_head empty_schema = Some s \<and> same_schema s model_schema"
  by (simp add: upgrade_head_scripts migration_defs schema_defs same_schema_def model_schema_def driver_table_def
      rider_table_def ride_table_def same_table_def column_index_def insert_commute)

text \<open>C36: migrating an empty database gives the schema the models declare, up to the order of columns and
  indexes: the same types, tables, columns with their types, defaults and nullability, keys, indexes (the
  partial unique index and its predicate included) and constraints; the database is then at the last
  revision, and migrating again changes nothing.\<close>

theorem migrations_build_the_model_schema:
  "\<exists>s. run_migrations_online versions (None, empty_schema) = (True, Some ''e90e1cf00ec5'', s)
    \<and> same_schema s model_schema
    \<and> run_migrations_online versions (Some ''e90e1cf00ec5'', s) = (True, Some ''e90e1cf00ec5'', s)"
proof -
  obtain s where s: "migrate upgrade_head empty_schema = Some s" "same_schema s model_schema"
    using upgrade_head_schema by blast
  have "run_migrations_online versions (None, empty_schema) = (True, Some ''e90e1cf00ec5'', s)"
    using s(1) unfolding run_migrations_online_def upgrade_head_def Let_def
    by (simp add: upgrade_path_versions script_e90e1cf00ec5_def)
  with s(2) show ?thesis by (simp add: run_migrations_online_def upgrade_path_versions)
qed

section \<open>Downgrades\<close>

text \<open>Every index and every constraint is on a column that exists.\<close>

definition keys_on_columns :: "db_schema \<Rightarrow> bool" where
  "keys_on_columns s \<longleftrightarrow> (\<forall>i \<in> set (index_defs s). has_column (ix_table i) (ix_column i) s)
     \<and> (\<forall>(_, t, c) \<in> set (unique_constraints s). has_column t c s)"

lemma has_column_on_table:
  "has_column t' c' (on_table t f s)
     \<longleftrightarrow> (\<exists>d \<in> set (table_defs s). t_name d = t'
           \<and> c' \<in> set (map col_name (if t' = t then f (t_columns d) else t_columns d)))"
proof -
  have "has_column t' c' (on_table t f s) \<longleftrightarrow> (\<exists>d \<in> set (table_defs s).
      t_name (if t_name d = t then d\<lparr>t_columns := f (t_columns d)\<rparr> else d) = t'
      \<and> c' \<in> set (map col_name (t_columns (if t_name d = t then d\<lparr>t_columns := f (t_columns d)\<rparr> else d))))"
  proof -
    have "table_defs (on_table t f s) = map (\<lambda>d. if t_name d = t then d\<lparr>t_columns := f (t_columns d)\<rparr> else d) (table_defs s)"
      by (simp add: on_table_def)
    then show ?thesis
      by (simp only: has_column_def set_map bex_simps)
  qed
  also have "\<dots> \<longleftrightarrow> (\<exists>d \<in> set (table_defs s). t_name d = t'
      \<and> c' \<in> set (map col_name (if t' = t then f (t_columns d) else t_columns d)))"
    by (rule bex_cong) auto
  finally show ?thesis .
qed

lemma has_column_on_table_append [simp]:
  "has_column t' c' (on_table t (\<lambda>cs. cs @ [c]) s)
     \<longleftrightarrow> has_column t' c' s \<or> (t' = t \<and> c' = col_name c \<and> has_table t s)"
  unfolding has_column_on_table by (auto simp: has_column_def has_table_def)

lemma has_column_on_table_filter [simp]:
  "has_column t' c' (on_table t (filter (\<lambda>c. col_name c \<noteq> n)) s) \<longleftrightarrow> has_column t' c' s \<and> (t', c') \<noteq> (t, n)"
  unfolding has_column_on_table by (auto simp: has_column_def)

lemma on_table_fields [simp]:
  "index_defs (on_table t f s) = index_defs s" "unique_constraints (on_table t f s) = unique_constraints s"
  "enum_types (on_table t f s) = enum_types s" "inhabited (on_table t f s) = inhabited s"
  by (simp_all add: on_table_def)

lemma has_column_updates [simp]:
  "has_column t c (s\<lparr>index_defs := x\<rparr>) = has_column t c s"
  "has_column t c (s\<lparr>unique_constraints := y\<rparr>) = has_column t c s"
  by (simp_all add: has_column_def)

lemma drop_added_column:
  assumes "\<not> has_column t (col_name c) s"
  shows "on_table t (filter (\<lambda>d. col_name d \<noteq> col_name c)) (on_table t (\<lambda>cs. cs @ [c]) s) = s"
proof -
  have "map (\<lambda>d. if t_name d = t then d\<lparr>t_columns := filter (\<lambda>d. col_name d \<noteq> col_name c) (t_columns d @ [c])\<rparr> else d)
      (table_defs s) = table_defs s"
  proof (rule map_idI)
    fix d assume d: "d \<in> set (table_defs s)"
    have "filter (\<lambda>e. col_name e \<noteq> col_name c) (t_columns d) = t_columns d" if "t_name d = t"
      using assms d that by (metis (mono_tags, lifting) filter_True has_column_def image_eqI list.set_map)
    then show "(if t_name d = t then d\<lparr>t_columns := filter (\<lambda>d. col_name d \<noteq> col_name c) (t_columns d @ [c])\<rparr> else d) = d"
      by simp
  qed
  then show ?thesis
    by (simp add: on_table_def comp_def if_distrib cong: if_cong)
qed

text \<open>A column with a key, added and removed again.\<close>

lemma add_then_drop_index:
  assumes "migrate [CreateIndex i] s = Some s'"
  shows "migrate [DropIndex (ix_name i)] s' = Some s"
proof -
  have "ix_name i \<notin> ix_name ` set (index_defs s)" "s' = s\<lparr>index_defs := index_defs s @ [i]\<rparr>"
    using assms by (auto split: if_splits)
  moreover from this(1) have "filter (\<lambda>j. ix_name j \<noteq> ix_name i) (index_defs s) = index_defs s"
    by (metis (mono_tags, lifting) filter_True image_eqI)
  ultimately show ?thesis
    by simp
qed

lemma add_then_drop_indexed_column:
  assumes "migrate [AddColumn t c, CreateIndex (plain_index n t (col_name c))] s = Some s'" "keys_on_columns s"
  shows "migrate [DropIndex n, DropColumn t (col_name c)] s' = Some s"
proof -
  have 1: "has_table t s" "\<not> has_column t (col_name c) s" "n \<notin> ix_name ` set (index_defs s)"
      "s' = (on_table t (\<lambda>cs. cs @ [c]) s)\<lparr>index_defs := index_defs s @ [plain_index n t (col_name c)]\<rparr>"
    using assms(1) by (auto simp: plain_index_def split: if_splits)
  have 2: "filter (\<lambda>i. ix_name i \<noteq> n) (index_defs s) = index_defs s"
    using 1(3) by (metis (mono_tags, lifting) filter_True image_eqI)
  have 3: "filter (\<lambda>i. ix_table i = t \<longrightarrow> ix_column i \<noteq> col_name c) (index_defs s) = index_defs s"
      "filter (\<lambda>(_, t', d). t' = t \<longrightarrow> d \<noteq> col_name c) (unique_constraints s) = unique_constraints s"
    using assms(2) 1(2) by (auto simp: filter_id_conv keys_on_columns_def)
  have 4: "on_table t f (s\<lparr>index_defs := x\<rparr>) = (on_table t f s)\<lparr>index_defs := x\<rparr>" for f s x
    by (simp add: on_table_def)
  show ?thesis
    using 1 2 3 by (simp add: plain_index_def 4 drop_added_column)
qed

lemma add_then_drop_unique_column:
  assumes "migrate [AddColumn t c, CreateUnique n t (col_name c)] s = Some s'" "keys_on_columns s"
  shows "migrate [DropConstraint n t, DropColumn t (col_name c)] s' = Some s"
proof -
  have 1: "has_table t s" "\<not> has_column t (col_name c) s" "n \<notin> fst ` set (unique_constraints s)"
      "s' = (on_table t (\<lambda>cs. cs @ [c]) s)\<lparr>unique_constraints := unique_constraints s @ [(n, t, col_name c)]\<rparr>"
    using assms(1) by (auto split: if_splits)
  have 2: "filter (\<lambda>(n', t', _). n' = n \<longrightarrow> t' \<noteq> t) (unique_constraints s) = unique_constraints s"
    using 1(3) by (force simp: filter_id_conv)
  have 3: "filter (\<lambda>i. ix_table i = t \<longrightarrow> ix_column i \<noteq> col_name c) (index_defs s) = index_defs s"
      "filter (\<lambda>(_, t', d). t' = t \<longrightarrow> d \<noteq> col_name c) (unique_constraints s) = unique_constraints s"
    using assms(2) 1(2) by (auto simp: filter_id_conv keys_on_columns_def)
  have 4: "on_table t f (s\<lparr>unique_constraints := x\<rparr>) = (on_table t f s)\<lparr>unique_constraints := x\<rparr>" for f s x
    by (simp add: on_table_def)
  show ?thesis
    using 1 2 3 by (simp add: 4 drop_added_column)
qed

lemma later_downgrades:
  assumes "migrate up s = Some s'" and "keys_on_columns s"
    and "(up, down) \<in> {(upgrade_4400761b43ec, downgrade_4400761b43ec),
      (upgrade_c30a463d0562, downgrade_c30a463d0562), (upgrade_e90e1cf00ec5, downgrade_e90e1cf00ec5)}"
  shows "migrate down s' = Some s"
proof -
  consider "up = upgrade_4400761b43ec \<and> down = downgrade_4400761b43ec"
    | "up = upgrade_c30a463d0562 \<and> down = downgrade_c30a463d0562"
    | "up = upgrade_e90e1cf00ec5 \<and> down = downgrade_e90e1cf00ec5"
    using assms(3) by blast
  then show ?thesis
  proof cases
    case 1
    then show ?thesis
      using add_then_drop_index [of active_ride_index s s'] assms(1)
      by (simp only: upgrade_4400761b43ec_def downgrade_4400761b43ec_def) (simp add: active_ride_index_def)
  next
    case 2
    then show ?thesis
      using add_then_drop_unique_column [of "''rides''" "sql_column ''idempotency_key'' (SqlString 255) None True"
          "''uq_rides_idempotency_key''" s s'] assms(1,2)
      by (simp add: upgrade_c30a463d0562_def downgrade_c30a463d0562_def sql_column_def del: migrate.simps)
  next
    case 3
    then show ?thesis
      using add_then_drop_indexed_column [of "''drivers''" "sql_column ''zone_id'' (SqlString 20) None False"
          "''ix_drivers_zone_id''" s s'] assms(1,2)
      by (simp add: upgrade_e90e1cf00ec5_def downgrade_e90e1cf00ec5_def sql_column_def del: migrate.simps)
  qed
qed

text \<open>The initial migration is not undone by its downgrade: dropping the tables leaves the two enum types
  behind, and upgrading again then fails.\<close>

lemma downgrade_leaves_enum_types:
  "\<exists>s s'. migrate upgrade_head empty_schema = Some s \<and> migrate downgrade_base s = Some s'
     \<and> map fst (enum_types s') = [''driver_status'', ''ride_status''] \<and> table_defs s' = []
     \<and> migrate upgrade_head s' = None"
  by (simp add: upgrade_head_scripts downgrade_base_scripts migration_defs schema_defs)

text \<open>The last migration adds a required column without a default: it fails on every schema in which
  drivers holds rows.\<close>

lemma zone_id_needs_empty_drivers: "''drivers'' \<in> inhabited s \<Longrightarrow> migrate upgrade_e90e1cf00ec5 s = None"
  by (simp add: migration_defs schema_defs)

text \<open>C40: the three later migrations are undone exactly by their downgrades, on every schema they apply
  to whose indexes and constraints are on columns it has. The initial one is not: downgrading from the head
  to the base leaves its two enum types, and upgrading again then fails.\<close>

theorem downgrade_undoes_upgrade:
  assumes "migrate up s = Some s'" and "keys_on_columns s"
    and "(up, down) \<in> {(upgrade_4400761b43ec, downgrade_4400761b43ec),
      (upgrade_c30a463d0562, downgrade_c30a463d0562), (upgrade_e90e1cf00ec5, downgrade_e90e1cf00ec5)}"
  shows "migrate down s' = Some s
    \<and> (\<exists>head base. migrate upgrade_head empty_schema = Some head \<and> migrate downgrade_base head = Some base
        \<and> map fst (enum_types base) = [''driver_status'', ''ride_status''] \<and> migrate upgrade_head base = None)"
proof
  show "migrate down s' = Some s" by (rule later_downgrades [OF assms])
  show "\<exists>head base. migrate upgrade_head empty_schema = Some head \<and> migrate downgrade_base head = Some base
      \<and> map fst (enum_types base) = [''driver_status'', ''ride_status''] \<and> migrate upgrade_head base = None"
    using downgrade_leaves_enum_types by (elim exE conjE) (intro exI conjI)
qed

definition initial_schema :: db_schema where
  "initial_schema = the (migrate upgrade_3f0e070721ea empty_schema)"

theorem downgrade_undoes_upgrade_witness:
  "\<exists>s'. migrate upgrade_e90e1cf00ec5 initial_schema = Some s' \<and> migrate downgrade_e90e1cf00ec5 s' = Some initial_schema"
proof -
  have "\<exists>s'. migrate upgrade_e90e1cf00ec5 initial_schema = Some s'"
    by (simp add: initial_schema_def migration_defs schema_defs)
  moreover have "keys_on_columns initial_schema"
    by (simp add: initial_schema_def migration_defs schema_defs keys_on_columns_def)
  ultimately show ?thesis
    using downgrade_undoes_upgrade [of upgrade_e90e1cf00ec5 initial_schema _ downgrade_e90e1cf00ec5] by blast
qed

end
