(* ===== verification/Table.thy ===== *)
theory Table
  imports Prelude
begin

text \<open>
  A table under READ COMMITTED with row locks, as PostgreSQL documents it: what is committed, and the
  versions that transactions in progress have written, at most one per row (a second writer of the row
  waits). Nothing here is a definition of code under src/: it is the behaviour of the database that the
  repositories rely on, and the definitions of Platform run the application's calls against it.
\<close>

section \<open>Tables\<close>

record 'a table =
  committed :: "(uuid \<times> 'a) list"
  pending :: "(uuid \<times> tid \<times> 'a) list"

definition empty_table :: "'a table" where
  "empty_table = \<lparr>committed = [], pending = []\<rparr>"

definition row_lock :: "'a table \<Rightarrow> uuid \<Rightarrow> tid option" where
  "row_lock T i = map_option fst (map_of (pending T) i)"

text \<open>The row as it will be if exactly the transactions of \<open>S\<close> commit.\<close>

definition outcome_of :: "tid set \<Rightarrow> 'a table \<Rightarrow> uuid \<Rightarrow> 'a option" where
  "outcome_of S T i =
     (case map_of (pending T) i of
        Some (t, x) \<Rightarrow> if t \<in> S then Some x else map_of (committed T) i
      | None \<Rightarrow> map_of (committed T) i)"

text \<open>A statement sees its own transaction's versions and otherwise what is committed.\<close>

definition view :: "tid \<Rightarrow> 'a table \<Rightarrow> uuid \<Rightarrow> 'a option" where
  "view t = outcome_of {t}"

definition locked_by_other :: "tid \<Rightarrow> 'a table \<Rightarrow> uuid \<Rightarrow> bool" where
  "locked_by_other t T i = (case row_lock T i of None \<Rightarrow> False | Some t' \<Rightarrow> t' \<noteq> t)"

definition row_ids :: "'a table \<Rightarrow> uuid list" where
  "row_ids T = remdups (map fst (committed T) @ map fst (pending T))"

definition view_rows :: "tid \<Rightarrow> 'a table \<Rightarrow> 'a list" where
  "view_rows t T = List.map_filter (view t T) (row_ids T)"

definition put :: "tid \<Rightarrow> uuid \<Rightarrow> 'a \<Rightarrow> 'a table \<Rightarrow> 'a table" where
  "put t i x T = T\<lparr>pending := AList.update i (t, x) (pending T)\<rparr>"

definition drop_pending :: "tid \<Rightarrow> 'a table \<Rightarrow> (uuid \<times> tid \<times> 'a) list" where
  "drop_pending t T = filter (\<lambda>p. row_lock T (fst p) \<noteq> Some t) (pending T)"

definition commit_table :: "tid \<Rightarrow> 'a table \<Rightarrow> 'a table" where
  "commit_table t T =
     \<lparr>committed = List.map_filter (\<lambda>i. map_option (Pair i) (view t T i)) (row_ids T),
      pending = drop_pending t T\<rparr>"

definition rollback_table :: "tid \<Rightarrow> 'a table \<Rightarrow> 'a table" where
  "rollback_table t T = T\<lparr>pending := drop_pending t T\<rparr>"

abbreviation lookup :: "'a table \<Rightarrow> uuid \<Rightarrow> 'a option" where
  "lookup T \<equiv> map_of (committed T)"

section \<open>What the operations do to a row\<close>

lemma map_of_map_filter_keys:
  "map_of (List.map_filter (\<lambda>i. map_option (Pair i) (f i)) ks) i = (if i \<in> set ks then f i else None)"
  by (induction ks) (auto simp: List.map_filter_def)

lemma map_of_filter_key: "map_of (filter (\<lambda>p. P (fst p)) xs) i = (if P i then map_of xs i else None)"
  by (induction xs) auto

lemma not_row_id: "i \<notin> set (row_ids T) \<Longrightarrow> map_of (pending T) i = None \<and> lookup T i = None"
  unfolding row_ids_def by (auto simp: map_of_eq_None_iff)

lemma outcome_not_row_id: "i \<notin> set (row_ids T) \<Longrightarrow> outcome_of S T i = None"
  using not_row_id [of i T] by (simp add: outcome_of_def)

lemma empty_table_simps [simp]:
  "lookup empty_table = Map.empty" "row_lock empty_table i = None" "outcome_of S empty_table i = None"
  by (simp_all add: empty_table_def row_lock_def outcome_of_def)

lemma put_simps [simp]:
  "lookup (put t i x T) = lookup T"
  "row_lock (put t i x T) j = (if j = i then Some t else row_lock T j)"
  "outcome_of S (put t i x T) j =
     (if j = i then (if t \<in> S then Some x else lookup T i) else outcome_of S T j)"
  by (simp_all add: put_def row_lock_def outcome_of_def split: option.split)

lemma map_of_drop_pending:
  "map_of (drop_pending t T) i = (if row_lock T i = Some t then None else map_of (pending T) i)"
  using map_of_filter_key [of "\<lambda>i. row_lock T i \<noteq> Some t" "pending T" i] by (simp add: drop_pending_def)

lemma commit_simps [simp]:
  "lookup (commit_table t T) i = view t T i"
  "row_lock (commit_table t T) i = (if row_lock T i = Some t then None else row_lock T i)"
  "outcome_of S (commit_table t T) i = outcome_of (insert t S) T i"
proof -
  show look: "lookup (commit_table t T) i = view t T i" for i
    using outcome_not_row_id [of i T "{t}"] by (simp add: commit_table_def map_of_map_filter_keys view_def)
  have pend: "map_of (pending (commit_table t T)) i = (if row_lock T i = Some t then None else map_of (pending T) i)" for i
    by (simp add: commit_table_def map_of_drop_pending)
  show "row_lock (commit_table t T) i = (if row_lock T i = Some t then None else row_lock T i)"
    by (simp add: row_lock_def pend)
  show "outcome_of S (commit_table t T) i = outcome_of (insert t S) T i"
    unfolding outcome_of_def [of _ "commit_table t T"] pend look
    by (auto simp: view_def outcome_of_def row_lock_def split: option.split)
qed

lemma rollback_simps [simp]:
  "lookup (rollback_table t T) = lookup T"
  "row_lock (rollback_table t T) i = (if row_lock T i = Some t then None else row_lock T i)"
  "outcome_of S (rollback_table t T) i = outcome_of (S - {t}) T i"
  by (auto simp: rollback_table_def row_lock_def map_of_drop_pending outcome_of_def split: option.split if_split)

lemma outcome_empty: "outcome_of {} T i = lookup T i"
  by (simp add: outcome_of_def split: option.split)

lemma view_simps [simp]:
  "view t (put t' i x T) j = (if j = i then (if t' = t then Some x else lookup T i) else view t T j)"
  "view t (rollback_table t T) j = lookup T j"
  by (simp_all add: view_def outcome_empty) 

lemma view_unlocked: "row_lock T i \<noteq> Some t \<Longrightarrow> view t T i = lookup T i"
  by (auto simp: view_def outcome_of_def row_lock_def split: option.split)

lemma locked_by_other_iff: "locked_by_other t T i \<longleftrightarrow> (\<exists>t'. row_lock T i = Some t' \<and> t' \<noteq> t)"
  by (simp add: locked_by_other_def split: option.split)

lemma view_commit_other:
  "t \<noteq> t' \<Longrightarrow> row_lock T i = Some t \<Longrightarrow> view t (commit_table t' T) i = view t T i"
  by (simp add: view_def) (auto simp: outcome_of_def row_lock_def split: option.split)

lemma view_rollback_other:
  "t \<noteq> t' \<Longrightarrow> view t (rollback_table t' T) i = view t T i"
  by (simp add: view_def)

lemma view_rows_iff: "x \<in> set (view_rows t T) \<longleftrightarrow> (\<exists>i. view t T i = Some x)"
proof -
  have "(\<exists>i \<in> set (row_ids T). view t T i = Some x) \<longleftrightarrow> (\<exists>i. view t T i = Some x)"
    using outcome_not_row_id unfolding view_def by (metis option.simps(3))
  then show ?thesis by (force simp: view_rows_def List.map_filter_def)
qed

section \<open>What a transaction sees of the others\<close>

text \<open>The rows that \<open>t\<close> has locked are the same in both tables.\<close>

definition same_rows :: "tid \<Rightarrow> 'a table \<Rightarrow> 'a table \<Rightarrow> bool" where
  "same_rows t T T' \<longleftrightarrow>
     (\<forall>i. (row_lock T' i = Some t \<longleftrightarrow> row_lock T i = Some t) \<and>
          (row_lock T i = Some t \<longrightarrow> lookup T' i = lookup T i \<and> view t T' i = view t T i))"

lemma same_rows_refl [simp]: "same_rows t T T"
  by (simp add: same_rows_def)

lemma same_rows_trans: "same_rows t T T' \<Longrightarrow> same_rows t T' T'' \<Longrightarrow> same_rows t T T''"
  by (auto simp: same_rows_def)

lemma same_rows_put: "t' \<noteq> t \<Longrightarrow> \<not> locked_by_other t T i \<Longrightarrow> same_rows t' T (put t i x T)"
  by (auto simp: same_rows_def locked_by_other_iff)

lemma same_rows_commit: "t' \<noteq> t \<Longrightarrow> same_rows t' T (commit_table t T)"
  by (auto simp: same_rows_def view_commit_other view_unlocked)

lemma same_rows_rollback: "t' \<noteq> t \<Longrightarrow> same_rows t' T (rollback_table t T)"
  by (auto simp: same_rows_def view_rollback_other)

section \<open>Rows carry their primary key\<close>

definition keyed_table :: "('a \<Rightarrow> uuid) \<Rightarrow> 'a table \<Rightarrow> bool" where
  "keyed_table f T \<longleftrightarrow> (\<forall>S i x. outcome_of S T i = Some x \<longrightarrow> f x = i)"

lemma keyed_table_simps [simp]:
  "keyed_table f empty_table"
  "keyed_table f T \<Longrightarrow> keyed_table f (commit_table t T)"
  "keyed_table f T \<Longrightarrow> keyed_table f (rollback_table t T)"
  by (auto simp: keyed_table_def)

lemma keyed_table_view: "keyed_table f T \<Longrightarrow> view t T i = Some x \<Longrightarrow> f x = i"
  by (simp add: keyed_table_def view_def)

lemma keyed_table_lookup: "keyed_table f T \<Longrightarrow> lookup T i = Some x \<Longrightarrow> f x = i"
  unfolding keyed_table_def by (metis outcome_empty)

lemma keyed_table_put: "keyed_table f T \<Longrightarrow> f x = i \<Longrightarrow> keyed_table f (put t i x T)"
proof -
  assume T: "keyed_table f T" and x: "f x = i"
  have "f y = j" if "outcome_of S (put t i x T) j = Some y" for S j y
    using that x keyed_table_lookup [OF T, of i y] T by (auto simp: keyed_table_def split: if_splits)
  then show ?thesis by (simp add: keyed_table_def)
qed

section \<open>Unique indexes\<close>

text \<open>
  Writing version \<open>x\<close> of row \<open>i\<close> checks each unique index: a row that the writer sees with the same key
  is a violation; a row that another transaction is changing, whose old or new version has the key,
  makes the writer wait.
\<close>

datatype uniqueness = UniqueOk | UniqueViolation | UniqueWait

definition key_in :: "('a \<Rightarrow> 'k option) \<Rightarrow> 'k \<Rightarrow> 'a option \<Rightarrow> bool" where
  "key_in key k r = (case r of None \<Rightarrow> False | Some y \<Rightarrow> key y = Some k)"

definition unique_check :: "('a \<Rightarrow> 'k option) \<Rightarrow> tid \<Rightarrow> uuid \<Rightarrow> 'a \<Rightarrow> 'a table \<Rightarrow> uniqueness" where
  "unique_check key t i x T =
     (case key x of
        None \<Rightarrow> UniqueOk
      | Some k \<Rightarrow>
         if list_ex (\<lambda>j. j \<noteq> i \<and> \<not> locked_by_other t T j \<and> key_in key k (view t T j)) (row_ids T)
         then UniqueViolation
         else if list_ex (\<lambda>j. j \<noteq> i \<and> locked_by_other t T j \<and>
                   (key_in key k (lookup T j) \<or> key_in key k (map_option snd (map_of (pending T) j)))) (row_ids T)
         then UniqueWait else UniqueOk)"

text \<open>A key is unique in a table when it is whichever transactions in progress will commit.\<close>

definition unique_rows :: "('a \<Rightarrow> 'k option) \<Rightarrow> (uuid \<Rightarrow> 'a option) \<Rightarrow> bool" where
  "unique_rows key f \<longleftrightarrow>
     (\<forall>i j x y k. f i = Some x \<longrightarrow> f j = Some y \<longrightarrow> key x = Some k \<longrightarrow> key y = Some k \<longrightarrow> i = j)"

definition unique_table :: "('a \<Rightarrow> 'k option) \<Rightarrow> 'a table \<Rightarrow> bool" where
  "unique_table key T \<longleftrightarrow> (\<forall>S. unique_rows key (outcome_of S T))"

lemma unique_rowsD:
  "unique_rows key f \<Longrightarrow> f i = Some x \<Longrightarrow> f j = Some y \<Longrightarrow> key x = Some k \<Longrightarrow> key y = Some k \<Longrightarrow> i = j"
  unfolding unique_rows_def by blast

lemma unique_table_empty: "unique_table key empty_table"
  by (simp add: unique_table_def unique_rows_def)

lemma unique_table_commit: "unique_table key T \<Longrightarrow> unique_table key (commit_table t T)"
  by (simp add: unique_table_def unique_rows_def)

lemma unique_table_rollback: "unique_table key T \<Longrightarrow> unique_table key (rollback_table t T)"
  by (simp add: unique_table_def unique_rows_def)

lemma unique_table_committed: "unique_table key T \<Longrightarrow> unique_rows key (lookup T)"
  unfolding unique_table_def unique_rows_def by (metis outcome_empty)

text \<open>A passed check excludes every version of every other row.\<close>

lemma unique_check_okD:
  assumes ok: "unique_check key t i x T = UniqueOk" and k: "key x = Some k" and "j \<noteq> i" and "t \<in> S"
    and y: "outcome_of S T j = Some y"
  shows "key y \<noteq> Some k"
proof
  assume ky: "key y = Some k"
  have j: "j \<in> set (row_ids T)" using y outcome_not_row_id by (metis option.simps(3))
  from ok k have noviol: "\<not> list_ex (\<lambda>j. j \<noteq> i \<and> \<not> locked_by_other t T j \<and> key_in key k (view t T j)) (row_ids T)"
    and nowait: "\<not> list_ex (\<lambda>j. j \<noteq> i \<and> locked_by_other t T j \<and>
       (key_in key k (lookup T j) \<or> key_in key k (map_option snd (map_of (pending T) j)))) (row_ids T)"
    by (auto simp: unique_check_def split: if_splits)
  show False
  proof (cases "locked_by_other t T j")
    case True
    have "lookup T j = Some y \<or> map_option snd (map_of (pending T) j) = Some y"
      using y by (auto simp: outcome_of_def split: option.splits if_splits)
    then show False using nowait True j \<open>j \<noteq> i\<close> ky by (auto simp: list_ex_iff key_in_def)
  next
    case False
    then have "view t T j = Some y"
      using y \<open>t \<in> S\<close> by (auto simp: view_def outcome_of_def locked_by_other_iff row_lock_def
          split: option.splits if_splits)
    then show False using noviol False j \<open>j \<noteq> i\<close> ky by (auto simp: list_ex_iff key_in_def)
  qed
qed

lemma unique_table_put:
  assumes T: "unique_table key T" and ok: "unique_check key t i x T = UniqueOk"
    and free: "\<not> locked_by_other t T i"
  shows "unique_table key (put t i x T)"
  unfolding unique_table_def
proof
  fix S
  show "unique_rows key (outcome_of S (put t i x T))"
  proof (cases "t \<in> S")
    case True
    then show ?thesis
      using T unique_check_okD [OF ok _ _ True] unfolding unique_table_def unique_rows_def
      by (auto split: if_splits; metis)
  next
    case False
    have "outcome_of S (put t i x T) = outcome_of S T"
      using False free by (auto simp: fun_eq_iff) (auto simp: outcome_of_def locked_by_other_iff row_lock_def
          split: option.splits)
    then show ?thesis using T by (simp add: unique_table_def)
  qed
qed

text \<open>
  The contract of a unique index on a table that a write operation maintains: the operation writes
  only what the check has passed. Then uniqueness in every outcome of the open transactions is an
  invariant of its writes, and no two committed rows share a key.
\<close>

datatype 'a written = Written "'a table" | Rejected | Blocked

locale unique_index =
  fixes key :: "'a \<Rightarrow> 'k option"
    and store :: "tid \<Rightarrow> uuid \<Rightarrow> 'a \<Rightarrow> 'a table \<Rightarrow> 'a written"
  assumes write_put: "store t i x T = Written T' \<Longrightarrow> T' = put t i x T"
    and write_checked: "store t i x T = Written T' \<Longrightarrow>
          unique_check key t i x T = UniqueOk \<and> \<not> locked_by_other t T i"
begin

lemma write_keeps_unique:
  assumes "unique_table key T" and "store t i x T = Written T'"
  shows "unique_table key T'"
  using assms write_put [OF assms(2)] write_checked [OF assms(2)] by (simp add: unique_table_put)

text \<open>No two committed rows ever share a key.\<close>

lemma committed_unique:
  "unique_table key T \<Longrightarrow> lookup T i = Some x \<Longrightarrow> lookup T j = Some y \<Longrightarrow> key x = Some k \<Longrightarrow> key y = Some k \<Longrightarrow> i = j"
  using unique_table_committed unique_rowsD by metis

end

end
