(* ===== verification/Platform.thy ===== *)
theory Platform
  imports Table Protocol
begin

text \<open>
  The platform the handlers run on, following the documentation of PostgreSQL (READ COMMITTED, row locks,
  unique indexes), of the SQLAlchemy session (identity map, flush of changed columns, expiry on commit
  and rollback, \<open>autoflush=False\<close> as app/storage/database.py sets it) and of Redis. None of it is code
  under src/; the tables, keys and constraints are those of app/models. \<open>exec t ch c w\<close> answers the
  call \<open>c\<close> of the request thread \<open>t\<close>, whose session is its own; None means that the call waits. The
  choice \<open>ch\<close> resolves what the application does not control: a failing dependency, whether a failed
  commit or Redis command took effect, fresh UUIDs and the order of an unordered SELECT.
\<close>

section \<open>State\<close>

text \<open>An identity map holds, of each object, the values loaded and the current ones.\<close>

record session =
  id_drivers :: "(uuid \<times> driver \<times> driver) list"
  id_rides :: "(uuid \<times> ride \<times> ride) list"
  broken :: bool

definition fresh_session :: session where
  "fresh_session = \<lparr>id_drivers = [], id_rides = [], broken = False\<rparr>"

record world =
  w_drivers :: "driver table"
  w_rides :: "ride table"
  w_riders :: "rider table"
  w_sessions :: "tid \<Rightarrow> session"
  w_redis :: keyspace
  w_clock_ms :: real
  w_metrics :: metrics_tracker
  w_db_latency :: db_latency_tracker
  w_bus :: event_bus

definition init_world :: "settings \<Rightarrow> world" where
  "init_world cfg =
     \<lparr>w_drivers = empty_table, w_rides = empty_table, w_riders = empty_table,
      w_sessions = (\<lambda>_. fresh_session), w_redis = [], w_clock_ms = 0,
      w_metrics = init_tracker (nat (metrics_window_size cfg)),
      w_db_latency = init_db_tracker (nat (metrics_window_size cfg)),
      w_bus = init_bus\<rparr>"

record choice =
  ch_fail :: "exn option"
  ch_applied :: bool
  ch_id :: uuid
  ch_order :: "driver list \<Rightarrow> driver list"

definition smooth :: "uuid \<Rightarrow> choice" where
  "smooth i = \<lparr>ch_fail = None, ch_applied = False, ch_id = i, ch_order = (\<lambda>xs. xs)\<rparr>"

abbreviation now_seconds :: "world \<Rightarrow> real" where
  "now_seconds w \<equiv> w_clock_ms w / 1000"

definition session_upd :: "tid \<Rightarrow> (session \<Rightarrow> session) \<Rightarrow> world \<Rightarrow> world" where
  "session_upd t f w = w\<lparr>w_sessions := (w_sessions w)(t := f (w_sessions w t))\<rparr>"

section \<open>Ending a transaction\<close>

definition commit_world :: "tid \<Rightarrow> world \<Rightarrow> world" where
  "commit_world t w =
     session_upd t (\<lambda>_. fresh_session)
       (w\<lparr>w_drivers := commit_table t (w_drivers w), w_rides := commit_table t (w_rides w),
          w_riders := commit_table t (w_riders w)\<rparr>)"

definition rollback_world :: "tid \<Rightarrow> world \<Rightarrow> world" where
  "rollback_world t w =
     session_upd t (\<lambda>_. fresh_session)
       (w\<lparr>w_drivers := rollback_table t (w_drivers w), w_rides := rollback_table t (w_rides w),
          w_riders := rollback_table t (w_riders w)\<rparr>)"

text \<open>A failed statement aborts the transaction; the session refuses every statement until it is
  rolled back.\<close>

definition fail_world :: "tid \<Rightarrow> world \<Rightarrow> world" where
  "fail_world t w = session_upd t (\<lambda>s. s\<lparr>broken := True\<rparr>) (rollback_world t w)"

section \<open>Writing rows\<close>

text \<open>A write of the rides table passes the unique constraint on the idempotency key and the partial
  unique index on the driver.\<close>

definition write_ride :: "tid \<Rightarrow> uuid \<Rightarrow> ride \<Rightarrow> ride table \<Rightarrow> ride written" where
  "write_ride t i x T =
     (if locked_by_other t T i then Blocked
      else let a = unique_check active_driver_key t i x T; b = unique_check uq_idempotency_key t i x T
      in if a = UniqueViolation \<or> b = UniqueViolation then Rejected
         else if a = UniqueWait \<or> b = UniqueWait then Blocked
         else Written (put t i x T))"

interpretation driver_index: unique_index active_driver_key write_ride
  by unfold_locales
    (auto simp: write_ride_def Let_def split: if_splits intro: uniqueness.exhaust)

interpretation key_index: unique_index uq_idempotency_key write_ride
  by unfold_locales
    (auto simp: write_ride_def Let_def split: if_splits intro: uniqueness.exhaust)

text \<open>A flush writes the columns of a changed object whose value differs from the loaded one.\<close>

definition driver_delta :: "real \<Rightarrow> driver \<Rightarrow> driver \<Rightarrow> driver \<Rightarrow> driver" where
  "driver_delta now l c x =
     x\<lparr>current_lat := if current_lat l = current_lat c then current_lat x else current_lat c,
       current_lng := if current_lng l = current_lng c then current_lng x else current_lng c,
       d_h3_index := if d_h3_index l = d_h3_index c then d_h3_index x else d_h3_index c,
       d_zone_id := if d_zone_id l = d_zone_id c then d_zone_id x else d_zone_id c,
       d_status := if d_status l = d_status c then d_status x else d_status c,
       last_updated_at := now\<rparr>"

definition ride_delta :: "real \<Rightarrow> ride \<Rightarrow> ride \<Rightarrow> ride \<Rightarrow> ride" where
  "ride_delta now l c x =
     x\<lparr>r_status := if r_status l = r_status c then r_status x else r_status c, updated_at := now\<rparr>"

datatype 'w flushed = Flushed 'w | FlushBlocked | FlushFailed exn

fun flush_drivers ::
  "tid \<Rightarrow> real \<Rightarrow> (uuid \<times> driver \<times> driver) list \<Rightarrow> driver table \<Rightarrow> driver table flushed" where
  "flush_drivers t now [] T = Flushed T"
| "flush_drivers t now ((i, l, c) # xs) T =
     (if l = c then flush_drivers t now xs T
      else if locked_by_other t T i then FlushBlocked
      else case view t T i of
             None \<Rightarrow> FlushFailed OtherSQLAlchemyError
           | Some x \<Rightarrow> flush_drivers t now xs (put t i (driver_delta now l c x) T))"

fun flush_rides ::
  "tid \<Rightarrow> real \<Rightarrow> (uuid \<times> ride \<times> ride) list \<Rightarrow> ride table \<Rightarrow> ride table flushed" where
  "flush_rides t now [] T = Flushed T"
| "flush_rides t now ((i, l, c) # xs) T =
     (if l = c then flush_rides t now xs T
      else case view t T i of
             None \<Rightarrow> FlushFailed OtherSQLAlchemyError
           | Some x \<Rightarrow>
              (case write_ride t i (ride_delta now l c x) T of
                 Blocked \<Rightarrow> FlushBlocked
               | Rejected \<Rightarrow> FlushFailed IntegrityError
               | Written T' \<Rightarrow> flush_rides t now xs T'))"

definition flush_world :: "tid \<Rightarrow> world \<Rightarrow> world flushed" where
  "flush_world t w =
     (case flush_drivers t (now_seconds w) (id_drivers (w_sessions w t)) (w_drivers w) of
        FlushBlocked \<Rightarrow> FlushBlocked
      | FlushFailed e \<Rightarrow> FlushFailed e
      | Flushed Td \<Rightarrow>
         (case flush_rides t (now_seconds w) (id_rides (w_sessions w t)) (w_rides w) of
            FlushBlocked \<Rightarrow> FlushBlocked
          | FlushFailed e \<Rightarrow> FlushFailed e
          | Flushed Tr \<Rightarrow>
             Flushed (session_upd t (\<lambda>s. s\<lparr>id_drivers := map (\<lambda>(i, l, c). (i, c, c)) (id_drivers s),
                                           id_rides := map (\<lambda>(i, l, c). (i, c, c)) (id_rides s)\<rparr>)
                       (w\<lparr>w_drivers := Td, w_rides := Tr\<rparr>))))"

text \<open>The columns an UPDATE of a ride sets beside its status.\<close>

fun set_value :: "ride_value \<Rightarrow> ride \<Rightarrow> ride" where
  "set_value (DriverId d) r = r\<lparr>r_driver_id := Some d\<rparr>"
| "set_value (MatchedAt x) r = r\<lparr>matched_at := Some x\<rparr>"

fun references_ok :: "ride_value list \<Rightarrow> (uuid \<Rightarrow> bool) \<Rightarrow> bool" where
  "references_ok [] drivers = True"
| "references_ok (DriverId d # vs) drivers = (drivers d \<and> references_ok vs drivers)"
| "references_ok (MatchedAt x # vs) drivers = references_ok vs drivers"

text \<open>\<open>Numeric(4, 2)\<close>: two decimals; None is an overflow.\<close>

definition numeric_4_2 :: "real \<Rightarrow> real option" where
  "numeric_4_2 x =
     (let y = real_of_int (round (x * 100)) / 100 in if \<bar>y\<bar> < 100 then Some y else None)"

section \<open>Reading rows\<close>

text \<open>An object that is already in the identity map is returned as it is; a new one is added.\<close>

definition see_driver :: "driver \<Rightarrow> session \<Rightarrow> session" where
  "see_driver d s =
     (if map_of (id_drivers s) (d_id d) = None
      then s\<lparr>id_drivers := AList.update (d_id d) (d, d) (id_drivers s)\<rparr> else s)"

definition see_ride :: "ride \<Rightarrow> session \<Rightarrow> session" where
  "see_ride r s =
     (if map_of (id_rides s) (r_id r) = None
      then s\<lparr>id_rides := AList.update (r_id r) (r, r) (id_rides s)\<rparr> else s)"

definition driver_object :: "session \<Rightarrow> driver \<Rightarrow> driver" where
  "driver_object s d = (case map_of (id_drivers s) (d_id d) of Some (_, c) \<Rightarrow> c | None \<Rightarrow> d)"

definition ride_object :: "session \<Rightarrow> ride \<Rightarrow> ride" where
  "ride_object s r = (case map_of (id_rides s) (r_id r) of Some (_, c) \<Rightarrow> c | None \<Rightarrow> r)"

definition load_driver_row :: "tid \<Rightarrow> uuid \<Rightarrow> world \<Rightarrow> (reply \<times> world) option" where
  "load_driver_row t i w =
     (case view t (w_drivers w) i of
        None \<Rightarrow> Some (RDriver None, w)
      | Some d \<Rightarrow>
         Some (RDriver (Some d), session_upd t (\<lambda>s. s\<lparr>id_drivers := AList.update i (d, d) (id_drivers s)\<rparr>) w))"

definition load_ride_row :: "tid \<Rightarrow> uuid \<Rightarrow> world \<Rightarrow> (reply \<times> world) option" where
  "load_ride_row t i w =
     (case view t (w_rides w) i of
        None \<Rightarrow> Some (RRide None, w)
      | Some r \<Rightarrow>
         Some (RRide (Some r), session_upd t (\<lambda>s. s\<lparr>id_rides := AList.update i (r, r) (id_rides s)\<rparr>) w))"

definition set_driver :: "tid \<Rightarrow> uuid \<Rightarrow> (driver \<Rightarrow> driver) \<Rightarrow> world \<Rightarrow> (reply \<times> world) option" where
  "set_driver t i f w =
     (case map_of (id_drivers (w_sessions w t)) i of
        None \<Rightarrow> None
      | Some (l, c) \<Rightarrow>
         Some (RUnit, session_upd t (\<lambda>s. s\<lparr>id_drivers := AList.update i (l, f c) (id_drivers s)\<rparr>) w))"

definition set_ride :: "tid \<Rightarrow> uuid \<Rightarrow> (ride \<Rightarrow> ride) \<Rightarrow> world \<Rightarrow> (reply \<times> world) option" where
  "set_ride t i f w =
     (case map_of (id_rides (w_sessions w t)) i of
        None \<Rightarrow> None
      | Some (l, c) \<Rightarrow>
         Some (RUnit, session_upd t (\<lambda>s. s\<lparr>id_rides := AList.update i (l, f c) (id_rides s)\<rparr>) w))"

section \<open>Statements\<close>

definition flush_then ::
  "tid \<Rightarrow> world \<Rightarrow> (world \<Rightarrow> (reply \<times> world) option) \<Rightarrow> (reply \<times> world) option" where
  "flush_then t w f =
     (case flush_world t w of
        FlushBlocked \<Rightarrow> None
      | FlushFailed e \<Rightarrow> Some (RExn e, fail_world t w)
      | Flushed w' \<Rightarrow> f w')"

definition insert_driver ::
  "tid \<Rightarrow> uuid \<Rightarrow> real \<Rightarrow> real \<Rightarrow> string \<Rightarrow> string \<Rightarrow> driver_status \<Rightarrow> world \<Rightarrow> (reply \<times> world) option" where
  "insert_driver t i lat lng h3_index zone_id st w =
     (if i \<in> set (row_ids (w_drivers w)) then None
      else let d = \<lparr>d_id = i, current_lat = lat, current_lng = lng, d_h3_index = h3_index, d_zone_id = zone_id,
                    d_status = st, last_updated_at = now_seconds w\<rparr>
      in Some (RDriver (Some d), session_upd t (see_driver d) (w\<lparr>w_drivers := put t i d (w_drivers w)\<rparr>)))"

definition insert_rider :: "tid \<Rightarrow> uuid \<Rightarrow> real \<Rightarrow> real \<Rightarrow> world \<Rightarrow> (reply \<times> world) option" where
  "insert_rider t i lat lng w =
     (if i \<in> set (row_ids (w_riders w)) then None
      else let p = \<lparr>p_id = i, p_pickup_lat = lat, p_pickup_lng = lng, requested_at = now_seconds w\<rparr>
      in Some (RRider (Some p), w\<lparr>w_riders := put t i p (w_riders w)\<rparr>))"

definition insert_ride_row ::
  "tid \<Rightarrow> uuid \<Rightarrow> uuid \<Rightarrow> real \<Rightarrow> real \<Rightarrow> string option \<Rightarrow> string option \<Rightarrow> real option \<Rightarrow> world
    \<Rightarrow> (reply \<times> world) option" where
  "insert_ride_row t i rider lat lng idem_key zone_id surge w =
     (if i \<in> set (row_ids (w_rides w)) then None
      else if view t (w_riders w) rider = None then Some (RExn IntegrityError, fail_world t w)
      else if (case surge of None \<Rightarrow> False | Some m \<Rightarrow> numeric_4_2 m = None)
      then Some (RExn OtherSQLAlchemyError, fail_world t w)
      else let r = \<lparr>r_id = i, r_rider_id = rider, r_driver_id = None, r_status = REQUESTED, pickup_lat = lat,
                    pickup_lng = lng, matched_at = None, fare = None,
                    surge_multiplier = Option.bind surge numeric_4_2, r_zone_id = zone_id,
                    idempotency_key = idem_key, created_at = now_seconds w, updated_at = now_seconds w\<rparr>
      in case write_ride t i r (w_rides w) of
           Blocked \<Rightarrow> None
         | Rejected \<Rightarrow> Some (RExn IntegrityError, fail_world t w)
         | Written T \<Rightarrow> Some (RRide (Some r), session_upd t (see_ride r) (w\<lparr>w_rides := T\<rparr>)))"

text \<open>A row that fails the condition is passed over at once; one that passes it and is being changed
  by another transaction is waited for, and the condition evaluated again on what that leaves.\<close>

definition update_ride ::
  "tid \<Rightarrow> uuid \<Rightarrow> ride_status list \<Rightarrow> ride_status \<Rightarrow> ride_value list \<Rightarrow> world \<Rightarrow> (reply \<times> world) option" where
  "update_ride t i from_st to_st vals w =
     (case view t (w_rides w) i of
        None \<Rightarrow> Some (RNat 0, w)
      | Some x \<Rightarrow>
         if r_status x \<notin> set from_st then Some (RNat 0, w)
         else if locked_by_other t (w_rides w) i then None
         else if \<not> references_ok vals (\<lambda>d. view t (w_drivers w) d \<noteq> None)
         then Some (RExn IntegrityError, fail_world t w)
         else case write_ride t i (fold set_value vals (x\<lparr>r_status := to_st, updated_at := now_seconds w\<rparr>))
                     (w_rides w) of
                Blocked \<Rightarrow> None
              | Rejected \<Rightarrow> Some (RExn IntegrityError, fail_world t w)
              | Written T \<Rightarrow> Some (RNat 1, w\<lparr>w_rides := T\<rparr>))"

section \<open>Answering a call\<close>

text \<open>A statement that the database runs; the last equations are no statements.\<close>

definition exec_db :: "tid \<Rightarrow> choice \<Rightarrow> call \<Rightarrow> world \<Rightarrow> (reply \<times> world) option" where
  "exec_db t ch c w =
     (case c of
        SelectDrivers P \<Rightarrow> ((let rows = filter P (view_rows t (w_drivers w)); ordered = ch_order ch rows
      in if mset ordered = mset rows
         then Some (RDrivers (map (driver_object (w_sessions w t)) ordered),
                    session_upd t (fold see_driver ordered) w)
         else None))
      | CountDrivers P \<Rightarrow> Some (RNat (length (filter P (view_rows t (w_drivers w)))), w)
      | SelectRides P \<Rightarrow> ((let rows = filter P (view_rows t (w_rides w))
      in Some (RRides (map (ride_object (w_sessions w t)) rows), session_upd t (fold see_ride rows) w)))
      | CountRides P \<Rightarrow> Some (RNat (length (filter P (view_rows t (w_rides w)))), w)
      | SelectRideZones P \<Rightarrow> Some (RStrs (remdups (List.map_filter r_zone_id (filter P (view_rows t (w_rides w))))), w)
      | GetDriver i fresh \<Rightarrow> ((case map_of (id_drivers (w_sessions w t)) i of
        Some (_, c) \<Rightarrow> if fresh then load_driver_row t i w else Some (RDriver (Some c), w)
      | None \<Rightarrow> load_driver_row t i w))
      | GetRide i \<Rightarrow> ((case map_of (id_rides (w_sessions w t)) i of
        Some (_, c) \<Rightarrow> Some (RRide (Some c), w)
      | None \<Rightarrow> load_ride_row t i w))
      | GetRider i \<Rightarrow> Some (RRider (view t (w_riders w) i), w)
      | InsertDriver lat lng h z st \<Rightarrow> flush_then t w (insert_driver t (ch_id ch) lat lng h z st)
      | InsertRider lat lng \<Rightarrow> flush_then t w (insert_rider t (ch_id ch) lat lng)
      | InsertRide rider lat lng k z m \<Rightarrow> flush_then t w (insert_ride_row t (ch_id ch) rider lat lng k z m)
      | SetDriverStatus i st \<Rightarrow> set_driver t i (\<lambda>d. d\<lparr>d_status := st\<rparr>) w
      | SetDriverLocation i lat lng h z \<Rightarrow> set_driver t i (\<lambda>d. d\<lparr>current_lat := lat, current_lng := lng, d_h3_index := h, d_zone_id := z\<rparr>) w
      | SetRideStatus i st \<Rightarrow> set_ride t i (\<lambda>r. r\<lparr>r_status := st\<rparr>) w
      | Flush \<Rightarrow> flush_then t w (\<lambda>w. Some (RUnit, w))
      | UpdateRide i from_st to_st vals \<Rightarrow> update_ride t i from_st to_st vals w
      | Commit \<Rightarrow> flush_then t w (\<lambda>w. Some (RUnit, commit_world t w))
      | Rollback \<Rightarrow> Some (RUnit, rollback_world t w)
      | RefreshDriver i \<Rightarrow> load_driver_row t i w
      | RefreshRide i \<Rightarrow> load_ride_row t i w
      | RefreshRider i \<Rightarrow> Some (RRider (view t (w_riders w) i), w)
      | DbPing \<Rightarrow> Some (RUnit, w)
      | _ \<Rightarrow> None)"

lemma exec_db_simps [simp]:
  "exec_db t ch (SelectDrivers P) w = ((let rows = filter P (view_rows t (w_drivers w)); ordered = ch_order ch rows
      in if mset ordered = mset rows
         then Some (RDrivers (map (driver_object (w_sessions w t)) ordered),
                    session_upd t (fold see_driver ordered) w)
         else None))"
  "exec_db t ch (CountDrivers P) w = Some (RNat (length (filter P (view_rows t (w_drivers w)))), w)"
  "exec_db t ch (SelectRides Q) w = ((let rows = filter Q (view_rows t (w_rides w))
      in Some (RRides (map (ride_object (w_sessions w t)) rows), session_upd t (fold see_ride rows) w)))"
  "exec_db t ch (CountRides Q) w = Some (RNat (length (filter Q (view_rows t (w_rides w)))), w)"
  "exec_db t ch (SelectRideZones Q) w = Some (RStrs (remdups (List.map_filter r_zone_id (filter Q (view_rows t (w_rides w))))), w)"
  "exec_db t ch (GetDriver i fresh) w = ((case map_of (id_drivers (w_sessions w t)) i of
        Some (_, c) \<Rightarrow> if fresh then load_driver_row t i w else Some (RDriver (Some c), w)
      | None \<Rightarrow> load_driver_row t i w))"
  "exec_db t ch (GetRide i) w = ((case map_of (id_rides (w_sessions w t)) i of
        Some (_, c) \<Rightarrow> Some (RRide (Some c), w)
      | None \<Rightarrow> load_ride_row t i w))"
  "exec_db t ch (GetRider i) w = Some (RRider (view t (w_riders w) i), w)"
  "exec_db t ch (InsertDriver lat lng h z st) w = flush_then t w (insert_driver t (ch_id ch) lat lng h z st)"
  "exec_db t ch (InsertRider lat lng) w = flush_then t w (insert_rider t (ch_id ch) lat lng)"
  "exec_db t ch (InsertRide rider lat lng k zo m) w = flush_then t w (insert_ride_row t (ch_id ch) rider lat lng k zo m)"
  "exec_db t ch (SetDriverStatus i st) w = set_driver t i (\<lambda>d. d\<lparr>d_status := st\<rparr>) w"
  "exec_db t ch (SetDriverLocation i lat lng h z) w = set_driver t i (\<lambda>d. d\<lparr>current_lat := lat, current_lng := lng, d_h3_index := h, d_zone_id := z\<rparr>) w"
  "exec_db t ch (SetRideStatus i rst) w = set_ride t i (\<lambda>r. r\<lparr>r_status := rst\<rparr>) w"
  "exec_db t ch (Flush) w = flush_then t w (\<lambda>w. Some (RUnit, w))"
  "exec_db t ch (UpdateRide i from_st to_st vals) w = update_ride t i from_st to_st vals w"
  "exec_db t ch (Commit) w = flush_then t w (\<lambda>w. Some (RUnit, commit_world t w))"
  "exec_db t ch (Rollback) w = Some (RUnit, rollback_world t w)"
  "exec_db t ch (RefreshDriver i) w = load_driver_row t i w"
  "exec_db t ch (RefreshRide i) w = load_ride_row t i w"
  "exec_db t ch (RefreshRider i) w = Some (RRider (view t (w_riders w) i), w)"
  "exec_db t ch (DbPing) w = Some (RUnit, w)"
  by (simp_all add: exec_db_def)

text \<open>Redis and the objects of the process.\<close>

definition exec_other :: "tid \<Rightarrow> choice \<Rightarrow> call \<Rightarrow> world \<Rightarrow> (reply \<times> world) option" where
  "exec_other t ch c w =
     (case c of
        RedisSetNxPx k v ttl \<Rightarrow> ((case redis_set_nx_px (w_clock_ms w) k v (real_of_int ttl) (w_redis w) of
        (b, ks) \<Rightarrow> Some (RBool b, w\<lparr>w_redis := ks\<rparr>)))
      | RedisRunRelease k v \<Rightarrow> ((case release_script (w_clock_ms w) k v (w_redis w) of (n, ks) \<Rightarrow> Some (RNat n, w\<lparr>w_redis := ks\<rparr>)))
      | RedisPing \<Rightarrow> Some (RBool True, w)
      | Uuid4 \<Rightarrow> (if ch_id ch \<in> (fst \<circ> snd) ` set (w_redis w) then None else Some (RStr (ch_id ch), w))
      | UtcNow \<Rightarrow> Some (RReal (now_seconds w), w)
      | PerfCounter \<Rightarrow> Some (RReal (now_seconds w), w)
      | Emit ty data \<Rightarrow> Some (RUnit, w\<lparr>w_bus := emit (now_seconds w) ty data (w_bus w)\<rparr>)
      | RecordMatch oc secs \<Rightarrow> Some (RUnit, w\<lparr>w_metrics := record_match (now_seconds w) oc secs (w_metrics w)\<rparr>)
      | RecordLockContention \<Rightarrow> Some (RUnit, w\<lparr>w_metrics := record_lock_contention (w_metrics w)\<rparr>)
      | MetricsSnapshot \<Rightarrow> Some (RSnapshot (snapshot (now_seconds w) (w_metrics w)), w)
      | DbPercentiles \<Rightarrow> ((case db_percentiles (w_db_latency w) of (a, b, c) \<Rightarrow> Some (RTriple a b c, w)))
      | _ \<Rightarrow> None)"

lemma exec_other_simps [simp]:
  "exec_other t ch (RedisSetNxPx k v ttl) w = ((case redis_set_nx_px (w_clock_ms w) k v (real_of_int ttl) (w_redis w) of
        (b, ks) \<Rightarrow> Some (RBool b, w\<lparr>w_redis := ks\<rparr>)))"
  "exec_other t ch (RedisRunRelease k v) w = ((case release_script (w_clock_ms w) k v (w_redis w) of (n, ks) \<Rightarrow> Some (RNat n, w\<lparr>w_redis := ks\<rparr>)))"
  "exec_other t ch (RedisPing) w = Some (RBool True, w)"
  "exec_other t ch (Uuid4) w = (if ch_id ch \<in> (fst \<circ> snd) ` set (w_redis w) then None else Some (RStr (ch_id ch), w))"
  "exec_other t ch (UtcNow) w = Some (RReal (now_seconds w), w)"
  "exec_other t ch (PerfCounter) w = Some (RReal (now_seconds w), w)"
  "exec_other t ch (Emit ty data) w = Some (RUnit, w\<lparr>w_bus := emit (now_seconds w) ty data (w_bus w)\<rparr>)"
  "exec_other t ch (RecordMatch oc secs) w = Some (RUnit, w\<lparr>w_metrics := record_match (now_seconds w) oc secs (w_metrics w)\<rparr>)"
  "exec_other t ch (RecordLockContention) w = Some (RUnit, w\<lparr>w_metrics := record_lock_contention (w_metrics w)\<rparr>)"
  "exec_other t ch (MetricsSnapshot) w = Some (RSnapshot (snapshot (now_seconds w) (w_metrics w)), w)"
  "exec_other t ch (DbPercentiles) w = ((case db_percentiles (w_db_latency w) of (a, b, c) \<Rightarrow> Some (RTriple a b c, w)))"
  by (simp_all add: exec_other_def)

definition is_rollback :: "call \<Rightarrow> bool" where
  "is_rollback c = (case c of Rollback \<Rightarrow> True | _ \<Rightarrow> False)"

definition is_commit :: "call \<Rightarrow> bool" where
  "is_commit c = (case c of Commit \<Rightarrow> True | _ \<Rightarrow> False)"

lemma is_rollback_iff [simp]: "is_rollback c \<longleftrightarrow> c = Rollback" and is_commit_iff [simp]: "is_commit c \<longleftrightarrow> c = Commit"
  by (cases c; simp add: is_rollback_def is_commit_def)+

text \<open>
  A database call fails with \<open>OtherSQLAlchemyError\<close> (integrity errors only come from the constraints),
  and then the transaction is gone; a failing COMMIT may have been carried out. A Redis command fails
  with a Redis error and may have been carried out.
\<close>

definition exec :: "tid \<Rightarrow> choice \<Rightarrow> call \<Rightarrow> world \<Rightarrow> (reply \<times> world) option" where
  "exec t ch c w =
     (if database_call c then
        if broken (w_sessions w t) \<and> \<not> is_rollback c then Some (RExn OtherSQLAlchemyError, w)
        else case ch_fail ch of
               None \<Rightarrow> exec_db t ch c w
             | Some e \<Rightarrow>
                if e \<noteq> OtherSQLAlchemyError then None
                else if is_commit c \<and> ch_applied ch then
                  (case exec_db t ch c w of
                     Some (RUnit, w') \<Rightarrow> Some (RExn e, fail_world t w')
                   | _ \<Rightarrow> None)
                else Some (RExn e, fail_world t w)
      else case ch_fail ch of
             None \<Rightarrow> exec_other t ch c w
           | Some e \<Rightarrow>
              if \<not> is_redis_call c \<or> \<not> is_redis_error e then None
              else if ch_applied ch then
                (case exec_other t ch c w of Some (_, w') \<Rightarrow> Some (RExn e, w') | None \<Rightarrow> None)
              else Some (RExn e, w))"

end
