(* ===== verification/Fleet.thy ===== *)
theory Fleet
  imports Models
begin

text \<open>
  What the service promises of its data, stated on the committed rows alone: which drivers are busy,
  what each ride status implies, and how a ride's row may evolve. The two functions are the status of
  each driver and the row of each ride.
\<close>

section \<open>A consistent fleet\<close>

definition serves :: "(uuid \<Rightarrow> ride option) \<Rightarrow> uuid \<Rightarrow> bool" where
  "serves R d \<longleftrightarrow> (\<exists>i r. R i = Some r \<and> is_active r \<and> r_driver_id r = Some d)"

definition ride_data_ok :: "ride \<Rightarrow> bool" where
  "ride_data_ok r \<longleftrightarrow>
     r_status r \<noteq> IN_PROGRESS \<and>
     (r_status r = REQUESTED \<longrightarrow> r_driver_id r = None \<and> matched_at r = None) \<and>
     (r_status r = MATCHED \<or> r_status r = COMPLETED \<longrightarrow> r_driver_id r \<noteq> None \<and> matched_at r \<noteq> None)"

definition fleet_ok :: "(uuid \<Rightarrow> driver_status option) \<Rightarrow> (uuid \<Rightarrow> ride option) \<Rightarrow> bool" where
  "fleet_ok S R \<longleftrightarrow>
     (\<forall>d st. S d = Some st \<longrightarrow> st \<noteq> OFFLINE \<and> (st = BUSY \<longleftrightarrow> serves R d)) \<and>
     (\<forall>i r d. R i = Some r \<longrightarrow> r_driver_id r = Some d \<longrightarrow> S d \<noteq> None) \<and>
     (\<forall>i r. R i = Some r \<longrightarrow> ride_data_ok r)"

lemma fleet_ok_empty [simp]: "fleet_ok Map.empty Map.empty"
  by (simp add: fleet_ok_def)

section \<open>The transitions of a ride's row\<close>

definition assigned :: "uuid \<Rightarrow> ride \<Rightarrow> ride \<Rightarrow> bool" where
  "assigned d r r' \<longleftrightarrow>
     r_status r = REQUESTED \<and>
     (\<exists>m u. r' = r\<lparr>r_status := MATCHED, r_driver_id := Some d, matched_at := Some m, updated_at := u\<rparr>)"

definition ended :: "ride \<Rightarrow> ride \<Rightarrow> bool" where
  "ended r r' \<longleftrightarrow>
     (\<exists>st u. (st = CANCELLED \<or> st = COMPLETED) \<and> lifecycle (r_status r) st \<and>
        r' = r\<lparr>r_status := st, updated_at := u\<rparr>)"

text \<open>The columns that no transition touches.\<close>

definition same_request :: "ride \<Rightarrow> ride \<Rightarrow> bool" where
  "same_request r r' \<longleftrightarrow>
     r_id r' = r_id r \<and> r_rider_id r' = r_rider_id r \<and> pickup_lat r' = pickup_lat r \<and> pickup_lng r' = pickup_lng r
     \<and> idempotency_key r' = idempotency_key r \<and> surge_multiplier r' = surge_multiplier r
     \<and> r_zone_id r' = r_zone_id r \<and> created_at r' = created_at r \<and> fare r' = fare r"

lemma assignedD:
  assumes "assigned d r r'"
  shows "r_status r = REQUESTED" "r_status r' = MATCHED" "r_driver_id r' = Some d" "same_request r r'"
  using assms by (auto simp: assigned_def same_request_def)

lemma endedD:
  assumes "ended r r'"
  shows "lifecycle (r_status r) (r_status r')" "r_status r' = CANCELLED \<or> r_status r' = COMPLETED"
    "r_driver_id r' = r_driver_id r" "same_request r r'"
  using assms by (auto simp: ended_def same_request_def)

definition fresh_ride :: "ride \<Rightarrow> bool" where
  "fresh_ride r \<longleftrightarrow> r_status r = REQUESTED \<and> r_driver_id r = None \<and> matched_at r = None \<and> fare r = None"

definition ride_evolves :: "ride option \<Rightarrow> ride option \<Rightarrow> bool" where
  "ride_evolves a b \<longleftrightarrow>
     a = b \<or>
     (case (a, b) of
        (None, Some r) \<Rightarrow> fresh_ride r
      | (Some r, Some r') \<Rightarrow> (\<exists>d. assigned d r r') \<or> ended r r'
      | _ \<Rightarrow> False)"

lemma ended_active: "ended r r' \<Longrightarrow> is_active r \<and> \<not> is_active r'"
  by (auto simp: ended_def is_active_iff ACTIVE_RIDE_STATUSES_def COMPLETABLE_STATUSES_def elim: lifecycle.cases)

lemma ended_driver [simp]: "ended r r' \<Longrightarrow> r_driver_id r' = r_driver_id r"
  by (auto simp: ended_def)

lemma ended_data_ok: "ended r r' \<Longrightarrow> ride_data_ok r \<Longrightarrow> ride_data_ok r'"
  unfolding ended_def lifecycle_iff
  by (auto simp: ride_data_ok_def ACTIVE_RIDE_STATUSES_def COMPLETABLE_STATUSES_def)

section \<open>Each commit keeps the fleet consistent\<close>

lemma serves_upd_other:
  assumes "R i = Some r" "r_driver_id r = None \<or> r_driver_id r = r_driver_id r'" "d \<noteq> d'" "r_driver_id r' = Some d'"
  shows "serves (R(i := Some r')) d \<longleftrightarrow> serves R d"
  using assms unfolding serves_def by (metis (no_types, lifting) fun_upd_other fun_upd_same option.inject option.distinct(1))

lemma fleet_assign:
  assumes ok: "fleet_ok S R" and r: "R i = Some r" and a: "assigned d r r'" and d: "S d \<noteq> None"
  shows "fleet_ok (S(d := Some BUSY)) (R(i := Some r'))"
proof -
  have r': "r_driver_id r' = Some d" "r_status r' = MATCHED" "is_active r'" "ride_data_ok r'"
    using a by (auto simp: assigned_def is_active_iff ride_data_ok_def)
  have none: "r_driver_id r = None"
    using ok r a by (auto simp: fleet_ok_def ride_data_ok_def assigned_def)
  have here: "serves (R(i := Some r')) d" using r' by (auto simp: serves_def)
  show ?thesis
    using ok d r' here serves_upd_other [of R i r r' _ d] none r
    by (auto simp: fleet_ok_def)
qed

lemma fleet_end:
  assumes ok: "fleet_ok S R" and r: "R i = Some r" and e: "ended r r'" and d: "r_driver_id r = Some d"
    and unique: "\<And>j y. R j = Some y \<Longrightarrow> is_active y \<Longrightarrow> r_driver_id y = Some d \<Longrightarrow> j = i"
  shows "fleet_ok (S(d := Some AVAILABLE)) (R(i := Some r'))"
proof -
  have r': "r_driver_id r' = Some d" "\<not> is_active r'" "ride_data_ok r'"
    using e d ended_active [OF e] ended_data_ok [OF e] ok r by (auto simp: fleet_ok_def)
  have free: "\<not> serves (R(i := Some r')) d"
    using unique r'(2) by (auto simp: serves_def split: if_splits)
  have other: "serves (R(i := Some r')) x \<longleftrightarrow> serves R x" if "x \<noteq> d" for x
    using serves_upd_other [of R i r r' x d] r that d r'(1) by simp
  show ?thesis
    using ok r' free other by (auto simp: fleet_ok_def)
qed

lemma fleet_end_undriven:
  assumes ok: "fleet_ok S R" and r: "R i = Some r" and e: "ended r r'" and d: "r_driver_id r = None"
  shows "fleet_ok S (R(i := Some r'))"
proof -
  have "serves (R(i := Some r')) x \<longleftrightarrow> serves R x" for x
    using r d ended_driver [OF e] unfolding serves_def
    by (metis (no_types, lifting) fun_upd_other fun_upd_same option.inject option.distinct(1))
  then show ?thesis
    using ok d ended_driver [OF e] ended_data_ok [OF e] r by (auto simp: fleet_ok_def)
qed

lemma fleet_new_ride:
  assumes ok: "fleet_ok S R" and "R i = None" and f: "fresh_ride r"
  shows "fleet_ok S (R(i := Some r))"
proof -
  have "serves (R(i := Some r)) x \<longleftrightarrow> serves R x" for x
    using assms(2) f unfolding serves_def fresh_ride_def
    by (metis (no_types, lifting) fun_upd_other fun_upd_same option.inject option.distinct(1))
  then show ?thesis using ok f by (auto simp: fleet_ok_def fresh_ride_def ride_data_ok_def)
qed

lemma fleet_new_drivers:
  assumes ok: "fleet_ok S R" and "\<And>d. S' d = S d \<or> (S d = None \<and> S' d = Some AVAILABLE)"
  shows "fleet_ok S' R"
proof -
  have "\<not> serves R d" if "S d = None" for d
    using ok that unfolding fleet_ok_def serves_def by fastforce
  then have new: "st = AVAILABLE \<and> \<not> serves R d" if "S d = None" "S' d = Some st" for d st
    using that assms(2) [of d] by auto
  have same: "S' d = S d" if "S d \<noteq> None" for d
    using that assms(2) [of d] by auto
  show ?thesis
    unfolding fleet_ok_def
  proof (intro conjI allI impI)
    fix d st assume "S' d = Some st"
    moreover have "\<forall>d st. S d = Some st \<longrightarrow> st \<noteq> OFFLINE \<and> (st = BUSY) = serves R d"
      using ok by (simp add: fleet_ok_def)
    ultimately show "st \<noteq> OFFLINE" "(st = BUSY) = serves R d"
      using new [of d st] same [of d] by (cases "S d"; simp)+
  next
    fix i r d assume "R i = Some r" "r_driver_id r = Some d"
    then have "S d \<noteq> None" using ok by (simp add: fleet_ok_def)
    then show "S' d \<noteq> None" using same by simp
  next
    fix i r assume "R i = Some r"
    then show "ride_data_ok r" using ok by (simp add: fleet_ok_def)
  qed
qed

lemma fleet_active_busy:
  "fleet_ok S R \<Longrightarrow> R i = Some r \<Longrightarrow> is_active r \<Longrightarrow> r_driver_id r = Some d \<Longrightarrow> S d = Some BUSY"
  unfolding fleet_ok_def serves_def by (metis not_None_eq)

end
