(* ===== verification/Isolation.thy ===== *)
theory Isolation
  imports Platform Fleet
begin

text \<open>
  What a call of one session can do to the shared tables, and what that leaves of the sessions of the
  other requests. Every call is a sequence of a few table effects; the facts that all effects keep
  (rows under their key, both unique indexes, the rows other transactions have locked) are proved once
  for the effects.
\<close>

section \<open>Table effects\<close>

definition keyed_session :: "session \<Rightarrow> bool" where
  "keyed_session s \<longleftrightarrow>
     (\<forall>(i, l, c) \<in> set (id_drivers s). d_id l = i \<and> d_id c = i) \<and>
     (\<forall>(i, l, c) \<in> set (id_rides s). r_id l = i \<and> r_id c = i)"

definition keyed_world :: "world \<Rightarrow> bool" where
  "keyed_world w \<longleftrightarrow>
     keyed_table d_id (w_drivers w) \<and> keyed_table r_id (w_rides w) \<and> (\<forall>t. keyed_session (w_sessions w t))"

definition unique_world :: "world \<Rightarrow> bool" where
  "unique_world w \<longleftrightarrow>
     unique_table active_driver_key (w_rides w) \<and> unique_table uq_idempotency_key (w_rides w)"

inductive effect :: "tid \<Rightarrow> world \<Rightarrow> world \<Rightarrow> bool" for t where
  elsewhere: "w_drivers w' = w_drivers w \<Longrightarrow> w_rides w' = w_rides w \<Longrightarrow> w_sessions w' = w_sessions w
    \<Longrightarrow> effect t w w'"
| session: "keyed_session (f (w_sessions w t)) \<Longrightarrow> effect t w (session_upd t f w)"
| driver: "\<not> locked_by_other t (w_drivers w) i \<Longrightarrow> d_id x = i
    \<Longrightarrow> effect t w (w\<lparr>w_drivers := put t i x (w_drivers w)\<rparr>)"
| ride: "write_ride t i x (w_rides w) = Written T \<Longrightarrow> r_id x = i \<Longrightarrow> effect t w (w\<lparr>w_rides := T\<rparr>)"
| commit: "effect t w (commit_world t w)"
| rollback: "effect t w (rollback_world t w)"

abbreviation effects :: "tid \<Rightarrow> world \<Rightarrow> world \<Rightarrow> bool" where
  "effects t \<equiv> (effect t)\<^sup>*\<^sup>*"

lemma session_upd_fields [simp]:
  "w_drivers (session_upd t f w) = w_drivers w" "w_rides (session_upd t f w) = w_rides w"
  "w_riders (session_upd t f w) = w_riders w" "w_clock_ms (session_upd t f w) = w_clock_ms w"
  "w_sessions (session_upd t f w) t' = (if t' = t then f (w_sessions w t) else w_sessions w t')"
  by (simp_all add: session_upd_def)

lemma ending_fields [simp]:
  "w_drivers (commit_world t w) = commit_table t (w_drivers w)"
  "w_rides (commit_world t w) = commit_table t (w_rides w)"
  "w_drivers (rollback_world t w) = rollback_table t (w_drivers w)"
  "w_rides (rollback_world t w) = rollback_table t (w_rides w)"
  "w_sessions (commit_world t w) t' = (if t' = t then fresh_session else w_sessions w t')"
  "w_sessions (rollback_world t w) t' = (if t' = t then fresh_session else w_sessions w t')"
  by (simp_all add: commit_world_def rollback_world_def)

lemma fail_fields [simp]:
  "w_drivers (fail_world t w) = rollback_table t (w_drivers w)"
  "w_rides (fail_world t w) = rollback_table t (w_rides w)"
  "w_sessions (fail_world t w) t' = (if t' = t then fresh_session\<lparr>broken := True\<rparr> else w_sessions w t')"
  by (simp_all add: fail_world_def)

lemma fresh_session_simps [simp]:
  "id_drivers fresh_session = []" "id_rides fresh_session = []" "\<not> broken fresh_session"
  by (simp_all add: fresh_session_def)

lemma write_ride_Written:
  "write_ride t i x T = Written T' \<longleftrightarrow>
     T' = put t i x T \<and> \<not> locked_by_other t T i \<and>
     unique_check active_driver_key t i x T = UniqueOk \<and> unique_check uq_idempotency_key t i x T = UniqueOk"
proof -
  have "u = UniqueOk \<longleftrightarrow> u \<noteq> UniqueViolation \<and> u \<noteq> UniqueWait" for u by (cases u) simp_all
  then show ?thesis by (auto simp: write_ride_def Let_def)
qed

lemma effect_keyed: "effect t w w' \<Longrightarrow> keyed_world w \<Longrightarrow> keyed_world w'"
  by (induction rule: effect.induct)
    (auto simp: keyed_world_def keyed_table_put write_ride_Written keyed_session_def)

lemma effect_unique: "effect t w w' \<Longrightarrow> unique_world w \<Longrightarrow> unique_world w'"
  by (induction rule: effect.induct)
    (auto simp: unique_world_def unique_table_commit unique_table_rollback
      intro: driver_index.write_keeps_unique key_index.write_keeps_unique)

definition untouched :: "tid \<Rightarrow> world \<Rightarrow> world \<Rightarrow> bool" where
  "untouched t w w' \<longleftrightarrow>
     w_sessions w' t = w_sessions w t \<and> same_rows t (w_drivers w) (w_drivers w') \<and> same_rows t (w_rides w) (w_rides w')"

lemma effect_untouched: "effect t w w' \<Longrightarrow> t' \<noteq> t \<Longrightarrow> untouched t' w w'"
  by (induction rule: effect.induct)
    (auto simp: untouched_def write_ride_Written same_rows_put same_rows_commit same_rows_rollback)

lemma effects_keyed: "effects t w w' \<Longrightarrow> keyed_world w \<Longrightarrow> keyed_world w'"
  by (induction rule: rtranclp_induct) (auto intro: effect_keyed)

lemma effects_unique: "effects t w w' \<Longrightarrow> unique_world w \<Longrightarrow> unique_world w'"
  by (induction rule: rtranclp_induct) (auto intro: effect_unique)

lemma effects_untouched: "effects t w w' \<Longrightarrow> t' \<noteq> t \<Longrightarrow> untouched t' w w'"
proof (induction rule: rtranclp_induct)
  case (step y z)
  then have "untouched t' w y" "untouched t' y z" by (auto intro: effect_untouched)
  then show ?case by (auto simp: untouched_def intro: same_rows_trans)
qed (simp add: untouched_def)

section \<open>Every call is a sequence of effects\<close>

lemma fail_effects: "effects t w (fail_world t w)"
proof -
  have "effect t (rollback_world t w) (fail_world t w)"
    unfolding fail_world_def by (rule effect.session) (simp add: keyed_session_def)
  then show ?thesis using effect.rollback by (metis converse_rtranclp_into_rtranclp r_into_rtranclp)
qed

lemma keyed_id_drivers:
  "keyed_world w \<Longrightarrow> (i, l, c) \<in> set (id_drivers (w_sessions w t)) \<Longrightarrow> d_id l = i \<and> d_id c = i"
  by (fastforce simp: keyed_world_def keyed_session_def)

lemma keyed_id_rides:
  "keyed_world w \<Longrightarrow> (i, l, c) \<in> set (id_rides (w_sessions w t)) \<Longrightarrow> r_id l = i \<and> r_id c = i"
  by (fastforce simp: keyed_world_def keyed_session_def)

lemma keyed_views:
  assumes "keyed_world w"
  shows "view t (w_drivers w) i = Some x \<Longrightarrow> d_id x = i" "view t (w_rides w) i = Some r \<Longrightarrow> r_id r = i"
  using assms by (auto simp: keyed_world_def intro: keyed_table_view)

lemma delta_ids [simp]: "d_id (driver_delta now l c x) = d_id x" "r_id (ride_delta now l' c' r) = r_id r"
  by (simp_all add: driver_delta_def ride_delta_def)

lemma flush_drivers_effects:
  "flush_drivers t now xs (w_drivers w) = Flushed T \<Longrightarrow> keyed_world w \<Longrightarrow> effects t w (w\<lparr>w_drivers := T\<rparr>)"
proof (induction xs arbitrary: w)
  case (Nil w)
  then have "w_drivers w = T" by simp
  then have "w\<lparr>w_drivers := T\<rparr> = w" by (cases w) simp
  then show ?case by simp
next
  case (Cons p xs)
  obtain i l c where p: "p = (i, l, c)" by (cases p) auto
  show ?case
  proof (cases "l = c")
    case False
    with Cons.prems p obtain x where free: "\<not> locked_by_other t (w_drivers w) i"
      and x: "view t (w_drivers w) i = Some x"
      and rest: "flush_drivers t now xs (put t i (driver_delta now l c x) (w_drivers w)) = Flushed T"
      by (auto split: if_splits option.splits)
    let ?w = "w\<lparr>w_drivers := put t i (driver_delta now l c x) (w_drivers w)\<rparr>"
    have step: "effect t w ?w"
      using free keyed_views(1) [OF Cons.prems(2) x] by (intro effect.driver) simp_all
    have "effects t ?w (?w\<lparr>w_drivers := T\<rparr>)"
      using rest Cons.prems(2) effect_keyed [OF step] by (intro Cons.IH) simp_all
    then show ?thesis using step by simp
  qed (use Cons p in simp)
qed

lemma flush_rides_effects:
  "flush_rides t now xs (w_rides w) = Flushed T \<Longrightarrow> keyed_world w \<Longrightarrow> effects t w (w\<lparr>w_rides := T\<rparr>)"
proof (induction xs arbitrary: w)
  case (Nil w)
  then have "w_rides w = T" by simp
  then have "w\<lparr>w_rides := T\<rparr> = w" by (cases w) simp
  then show ?case by simp
next
  case (Cons p xs)
  obtain i l c where p: "p = (i, l, c)" by (cases p) auto
  show ?case
  proof (cases "l = c")
    case False
    with Cons.prems p obtain x T' where x: "view t (w_rides w) i = Some x"
      and w1: "write_ride t i (ride_delta now l c x) (w_rides w) = Written T'"
      and rest: "flush_rides t now xs T' = Flushed T"
      by (auto split: if_splits option.splits written.splits)
    let ?w = "w\<lparr>w_rides := T'\<rparr>"
    have step: "effect t w ?w"
      using keyed_views(2) [OF Cons.prems(2) x] by (intro effect.ride [OF w1]) simp
    have "effects t ?w (?w\<lparr>w_rides := T\<rparr>)"
      using rest Cons.prems(2) effect_keyed [OF step] by (intro Cons.IH) simp_all
    then show ?thesis using step by simp
  qed (use Cons p in simp)
qed

lemma flush_world_effects:
  assumes "flush_world t w = Flushed w'" and k: "keyed_world w"
  shows "effects t w w'"
proof -
  from assms(1) obtain Td Tr where
    d: "flush_drivers t (now_seconds w) (id_drivers (w_sessions w t)) (w_drivers w) = Flushed Td" and
    r: "flush_rides t (now_seconds w) (id_rides (w_sessions w t)) (w_rides w) = Flushed Tr" and
    w': "w' = session_upd t (\<lambda>s. s\<lparr>id_drivers := map (\<lambda>(i, l, c). (i, c, c)) (id_drivers s),
                                id_rides := map (\<lambda>(i, l, c). (i, c, c)) (id_rides s)\<rparr>)
                       (w\<lparr>w_drivers := Td, w_rides := Tr\<rparr>)"
    by (auto simp: flush_world_def split: flushed.splits)
  let ?w1 = "w\<lparr>w_drivers := Td\<rparr>"
  have e1: "effects t w ?w1" by (rule flush_drivers_effects [OF d k])
  have k1: "keyed_world ?w1" by (rule effects_keyed [OF e1 k])
  have e2: "effects t ?w1 (?w1\<lparr>w_rides := Tr\<rparr>)" by (rule flush_rides_effects [OF _ k1]) (use r in simp)
  have "effect t (?w1\<lparr>w_rides := Tr\<rparr>) w'"
    unfolding w'
  proof (rule back_subst [of "effect t (?w1\<lparr>w_rides := Tr\<rparr>)"])
    show "effect t (?w1\<lparr>w_rides := Tr\<rparr>) (session_upd t (\<lambda>s. s\<lparr>id_drivers := map (\<lambda>(i, l, c). (i, c, c)) (id_drivers s),
                                id_rides := map (\<lambda>(i, l, c). (i, c, c)) (id_rides s)\<rparr>) (?w1\<lparr>w_rides := Tr\<rparr>))"
      using keyed_id_drivers [OF k, of _ _ _ t] keyed_id_rides [OF k, of _ _ _ t]
      by (intro effect.session) (force simp: keyed_session_def)
  qed simp
  then show ?thesis using e1 e2 by (meson rtranclp.rtrancl_into_rtrancl rtranclp_trans)
qed

lemma session_effects: "keyed_session (f (w_sessions w t)) \<Longrightarrow> effects t w (session_upd t f w)"
  by (simp add: effect.session r_into_rtranclp)

lemma elsewhere_effects:
  "w_drivers w' = w_drivers w \<Longrightarrow> w_rides w' = w_rides w \<Longrightarrow> w_sessions w' = w_sessions w \<Longrightarrow> effects t w w'"
  by (simp add: effect.elsewhere r_into_rtranclp)

lemma keyed_session_of: "keyed_world w \<Longrightarrow> keyed_session (w_sessions w t)"
  by (simp add: keyed_world_def)

lemma keyed_put_driver:
  "keyed_session s \<Longrightarrow> d_id l = i \<Longrightarrow> d_id c = i \<Longrightarrow>
    keyed_session (s\<lparr>id_drivers := AList.update i (l, c) (id_drivers s)\<rparr>)"
  using set_update_subset [of i "(l, c)" "id_drivers s"] by (fastforce simp: keyed_session_def)

lemma keyed_put_ride:
  "keyed_session s \<Longrightarrow> r_id l = i \<Longrightarrow> r_id c = i \<Longrightarrow>
    keyed_session (s\<lparr>id_rides := AList.update i (l, c) (id_rides s)\<rparr>)"
  using set_update_subset [of i "(l, c)" "id_rides s"] by (fastforce simp: keyed_session_def)

lemma keyed_see: "keyed_session s \<Longrightarrow> keyed_session (see_driver d s)" "keyed_session s \<Longrightarrow> keyed_session (see_ride r s)"
  by (auto simp: see_driver_def see_ride_def intro: keyed_put_driver keyed_put_ride)

lemma keyed_see_all:
  "keyed_session s \<Longrightarrow> keyed_session (fold see_driver ds s)" "keyed_session s \<Longrightarrow> keyed_session (fold see_ride rs s)"
  by (induction ds arbitrary: s) (auto intro: keyed_see, induction rs arbitrary: s, auto intro: keyed_see)

lemma load_driver_effects:
  "load_driver_row t i w = Some (r, w') \<Longrightarrow> keyed_world w \<Longrightarrow> effects t w w'"
  by (auto simp: load_driver_row_def keyed_views split: option.splits
      intro!: session_effects keyed_put_driver keyed_session_of)

lemma load_ride_effects:
  "load_ride_row t i w = Some (r, w') \<Longrightarrow> keyed_world w \<Longrightarrow> effects t w w'"
  by (auto simp: load_ride_row_def keyed_views split: option.splits
      intro!: session_effects keyed_put_ride keyed_session_of)

lemma set_driver_effects:
  assumes "set_driver t i f w = Some (r, w')" "keyed_world w" "\<And>d. d_id (f d) = d_id d"
  shows "effects t w w'"
  using assms by (auto simp: set_driver_def split: option.splits dest!: map_of_SomeD keyed_id_drivers [OF assms(2)]
      intro!: session_effects keyed_put_driver keyed_session_of)

lemma set_ride_effects:
  assumes "set_ride t i f w = Some (r, w')" "keyed_world w" "\<And>d. r_id (f d) = r_id d"
  shows "effects t w w'"
  using assms by (auto simp: set_ride_def split: option.splits dest!: map_of_SomeD keyed_id_rides [OF assms(2)]
      intro!: session_effects keyed_put_ride keyed_session_of)

lemma insert_driver_effects:
  assumes "insert_driver t i lat lng h z st w = Some (r, w')" "keyed_world w"
  shows "effects t w w'"
proof -
  let ?d = "\<lparr>d_id = i, current_lat = lat, current_lng = lng, d_h3_index = h, d_zone_id = z,
                    d_status = st, last_updated_at = now_seconds w\<rparr>"
  let ?w = "w\<lparr>w_drivers := put t i ?d (w_drivers w)\<rparr>"
  from assms(1) have i: "i \<notin> set (row_ids (w_drivers w))" and w': "w' = session_upd t (see_driver ?d) ?w"
    by (auto simp: insert_driver_def Let_def split: if_splits)
  have "row_lock (w_drivers w) i = None" using not_row_id [OF i] by (simp add: row_lock_def)
  then have "effect t w ?w" by (intro effect.driver) (simp_all add: locked_by_other_iff)
  moreover have "effect t ?w w'"
    unfolding w' using keyed_session_of [OF assms(2)] by (intro effect.session) (simp add: keyed_see)
  ultimately show ?thesis by auto
qed

lemma insert_ride_effects:
  assumes "insert_ride_row t i rider lat lng key z m w = Some (r, w')" "keyed_world w"
  shows "effects t w w'"
proof -
  have step: "effects t w (session_upd t (see_ride x) (w\<lparr>w_rides := T\<rparr>))"
    if "write_ride t i x (w_rides w) = Written T" "r_id x = i" for x T
  proof -
    have "effect t w (w\<lparr>w_rides := T\<rparr>)" by (rule effect.ride [OF that])
    moreover have "effect t (w\<lparr>w_rides := T\<rparr>) (session_upd t (see_ride x) (w\<lparr>w_rides := T\<rparr>))"
      using keyed_session_of [OF assms(2)] by (intro effect.session) (simp add: keyed_see)
    ultimately show ?thesis by auto
  qed
  show ?thesis
    using assms(1) by (auto simp: insert_ride_row_def Let_def fail_effects split: if_splits written.splits intro: step)
qed

lemma set_values_id [simp]: "r_id (fold set_value vals r) = r_id r"
proof (induction vals arbitrary: r)
  case (Cons v vals)
  then show ?case by (cases v) simp_all
qed simp

lemma update_ride_effects:
  assumes "update_ride t i from_st to_st vals w = Some (r, w')" "keyed_world w"
  shows "effects t w w'"
  using assms(1)
  by (auto simp: update_ride_def fail_effects keyed_views [OF assms(2)]
      split: if_splits option.splits written.splits dest!: effect.ride)

lemma flush_then_effects:
  assumes "flush_then t w f = Some (r, w')" "keyed_world w"
    and "\<And>w1. keyed_world w1 \<Longrightarrow> f w1 = Some (r, w') \<Longrightarrow> effects t w1 w'"
  shows "effects t w w'"
  using assms(1)
proof (cases "flush_world t w")
  case (Flushed w1)
  have e: "effects t w w1" by (rule flush_world_effects [OF Flushed assms(2)])
  moreover have "effects t w1 w'"
    using assms(1,3) Flushed effects_keyed [OF e assms(2)] by (simp add: flush_then_def)
  ultimately show ?thesis by simp
qed (use assms(1) in \<open>auto simp: flush_then_def fail_effects\<close>)

lemma exec_db_effects:
  assumes "exec_db t ch c w = Some (r, w')" and k: "keyed_world w"
  shows "effects t w w'"
proof (cases c)
  case (SelectDrivers P)
  with assms show ?thesis
    by (auto simp: Let_def split: if_splits intro!: session_effects keyed_see_all keyed_session_of)
next
  case (SelectRides P)
  with assms show ?thesis
    by (auto simp: Let_def intro!: session_effects keyed_see_all keyed_session_of)
next
  case (GetDriver i fresh)
  with assms show ?thesis by (auto split: option.splits if_splits dest: load_driver_effects)
next
  case (GetRide i)
  with assms show ?thesis by (auto split: option.splits dest: load_ride_effects)
next
  case (InsertDriver a b c d e)
  then show ?thesis using assms by (auto elim!: flush_then_effects insert_driver_effects)
next
  case (InsertRider a b)
  have "effects t w1 w'" if "insert_rider t (ch_id ch) a b w1 = Some (r, w')" for w1
    using that by (auto simp: insert_rider_def Let_def split: if_splits intro!: elsewhere_effects)
  then show ?thesis using InsertRider assms by (auto elim!: flush_then_effects)
next
  case (InsertRide a b c d e f)
  then show ?thesis using assms by (auto elim!: flush_then_effects insert_ride_effects)
next
  case (SetDriverStatus i st)
  then show ?thesis using assms by (auto elim!: set_driver_effects)
next
  case (SetDriverLocation i a b c d)
  then show ?thesis using assms by (auto elim!: set_driver_effects)
next
  case (SetRideStatus i st)
  then show ?thesis using assms by (auto elim!: set_ride_effects)
next
  case Flush
  then show ?thesis using assms by (auto elim!: flush_then_effects)
next
  case (UpdateRide i a b c)
  then show ?thesis using assms by (auto elim!: update_ride_effects)
next
  case Commit
  then show ?thesis using assms by (auto elim!: flush_then_effects intro: effect.commit)
next
  case Rollback
  then show ?thesis using assms by (auto intro: effect.rollback)
next
  case (RefreshDriver i)
  then show ?thesis using assms by (auto dest: load_driver_effects)
next
  case (RefreshRide i)
  then show ?thesis using assms by (auto dest: load_ride_effects)
qed (use assms in \<open>auto simp: exec_db_def\<close>)

lemma exec_other_effects: "exec_other t ch c w = Some (r, w') \<Longrightarrow> effects t w w'"
  by (rule elsewhere_effects)
    (auto simp: exec_other_def split: call.splits prod.splits if_splits)

lemma exec_effects:
  assumes "exec t ch c w = Some (r, w')" and k: "keyed_world w"
  shows "effects t w w'"
proof -
  have failed: "effects t w (fail_world t w1)" if "effects t w w1" for w1
    using that fail_effects by (rule rtranclp_trans)
  show ?thesis
    using assms(1) unfolding exec_def
    by (auto simp del: exec_db_simps exec_other_simps split: if_splits option.splits reply.splits
        dest!: exec_other_effects exec_db_effects [OF _ k] intro: failed fail_effects)
qed

end
