(* ===== verification/Transactions.thy ===== *)
theory Transactions
  imports Isolation
begin

text \<open>
  The session protocol against the platform: in each phase, what the identity map holds unflushed and
  what the transaction has written under its row locks. A call that the protocol allows takes a session
  from its phase to the next one, and only a commit changes what is committed, in one of the ways of
  theory Fleet.
\<close>

section \<open>What a phase means\<close>

fun intent :: "phase \<Rightarrow> uuid \<Rightarrow> driver_status option" where
  "intent (Claimed d) i = (if i = d then Some BUSY else None)"
| "intent (Assigned r d) i = (if i = d then Some BUSY else None)"
| "intent (Freeing r d) i = (if i = d then Some AVAILABLE else None)"
| "intent _ i = None"

fun seen_ok :: "phase \<Rightarrow> session \<Rightarrow> bool" where
  "seen_ok (Seen d) s = (\<exists>x. map_of (id_drivers s) d = Some (x, x) \<and> d_status x = AVAILABLE)"
| "seen_ok (Found r d) s = (\<exists>x. map_of (id_drivers s) d = Some (x, x) \<and> d_status x = BUSY)"
| "seen_ok _ s = True"

definition dirty :: "(uuid \<times> 'a \<times> 'a) list \<Rightarrow> uuid \<Rightarrow> bool" where
  "dirty xs i \<longleftrightarrow> (\<exists>l c. (i, l, c) \<in> set xs \<and> l \<noteq> c)"

definition status_change :: "driver_status option \<Rightarrow> driver \<Rightarrow> driver \<Rightarrow> bool" where
  "status_change b l c \<longleftrightarrow>
     (case b of Some st \<Rightarrow> d_status c = st \<and> d_status l \<noteq> st | None \<Rightarrow> d_status l = d_status c)"

definition objects_ok :: "phase \<Rightarrow> session \<Rightarrow> bool" where
  "objects_ok p s \<longleftrightarrow>
     (\<forall>i l c. (i, l, c) \<in> set (id_rides s) \<longrightarrow> l = c) \<and>
     (\<forall>i l c. (i, l, c) \<in> set (id_drivers s) \<longrightarrow> l \<noteq> c \<longrightarrow>
        status_change (intent p i) l c \<and> (intent p i \<noteq> None \<or> p = Moved i)) \<and>
     (\<forall>i. intent p i \<noteq> None \<longrightarrow> dirty (id_drivers s) i) \<and>
     seen_ok p s"

definition status_kept :: "tid \<Rightarrow> driver table \<Rightarrow> uuid \<Rightarrow> bool" where
  "status_kept t D i \<longleftrightarrow>
     map_option d_status (view t D i) =
       (case lookup D i of None \<Rightarrow> Some AVAILABLE | Some y \<Rightarrow> Some (d_status y))"

definition driver_locks_ok :: "phase \<Rightarrow> tid \<Rightarrow> driver table \<Rightarrow> bool" where
  "driver_locks_ok p t D \<longleftrightarrow>
     (\<forall>i. row_lock D i = Some t \<longrightarrow> (p = NewDriver \<or> p = Moved i) \<and> status_kept t D i)"

definition holds_only :: "tid \<Rightarrow> ride table \<Rightarrow> uuid \<Rightarrow> (ride option \<Rightarrow> ride \<Rightarrow> bool) \<Rightarrow> bool" where
  "holds_only t R i P \<longleftrightarrow>
     (\<forall>j. row_lock R j = Some t \<longleftrightarrow> j = i) \<and> (\<exists>x'. view t R i = Some x' \<and> P (lookup R i) x')"

definition ends_with :: "uuid option option \<Rightarrow> ride option \<Rightarrow> ride \<Rightarrow> bool" where
  "ends_with drv old new \<longleftrightarrow>
     (\<exists>x. old = Some x \<and> ended x new \<and> (case drv of None \<Rightarrow> True | Some d \<Rightarrow> r_driver_id x = d))"

fun ride_locks_ok :: "phase \<Rightarrow> tid \<Rightarrow> ride table \<Rightarrow> bool" where
  "ride_locks_ok (Assigned i d) t R = holds_only t R i (\<lambda>old new. \<exists>x. old = Some x \<and> assigned d x new)"
| "ride_locks_ok (Ended i) t R = holds_only t R i (ends_with None)"
| "ride_locks_ok (Finished i x) t R = holds_only t R i (ends_with (Some x))"
| "ride_locks_ok (Found i d) t R = holds_only t R i (ends_with (Some (Some d)))"
| "ride_locks_ok (Freeing i d) t R = holds_only t R i (ends_with (Some (Some d)))"
| "ride_locks_ok NewRide t R = (\<exists>i. holds_only t R i (\<lambda>old new. old = None \<and> fresh_ride new))"
| "ride_locks_ok _ t R = (\<forall>i. row_lock R i \<noteq> Some t)"

definition in_phase :: "phase \<Rightarrow> tid \<Rightarrow> world \<Rightarrow> bool" where
  "in_phase p t w \<longleftrightarrow>
     (broken (w_sessions w t) \<longleftrightarrow> p = Broken) \<and>
     objects_ok p (w_sessions w t) \<and> driver_locks_ok p t (w_drivers w) \<and> ride_locks_ok p t (w_rides w)"

text \<open>Nothing another session does changes the phase of this one.\<close>

lemma holds_only_same: "same_rows t R R' \<Longrightarrow> holds_only t R i P \<Longrightarrow> holds_only t R' i P"
  unfolding holds_only_def same_rows_def by metis

lemma in_phase_untouched:
  assumes "untouched t w w'" and "in_phase p t w"
  shows "in_phase p t w'"
proof -
  from assms have s: "w_sessions w' t = w_sessions w t" and d: "same_rows t (w_drivers w) (w_drivers w')"
    and r: "same_rows t (w_rides w) (w_rides w')" by (auto simp: untouched_def)
  have "driver_locks_ok p t (w_drivers w')"
    using assms(2) d unfolding in_phase_def driver_locks_ok_def status_kept_def same_rows_def by metis
  moreover have "ride_locks_ok p t (w_rides w')"
    using assms(2) r by (cases p) (auto simp: in_phase_def intro: holds_only_same, auto simp: same_rows_def)
  ultimately show ?thesis using assms(2) s by (simp add: in_phase_def)
qed

lemma in_phase_idle: "in_phase Idle t (rollback_world t w)"
  and in_phase_broken: "in_phase Broken t (fail_world t w)"
  by (auto simp: in_phase_def objects_ok_def driver_locks_ok_def)

section \<open>Flushing\<close>

lemma flush_drivers_spec:
  assumes "flush_drivers t now xs T = Flushed T'"
    and "\<And>i l c. (i, l, c) \<in> set xs \<Longrightarrow> l \<noteq> c \<Longrightarrow> status_change (g i) l c"
  shows "lookup T' = lookup T \<and>
    (\<forall>i. row_lock T' i = (if dirty xs i then Some t else row_lock T i)) \<and>
    (\<forall>i. map_option d_status (view t T' i) =
       (if dirty xs i \<and> g i \<noteq> None then g i else map_option d_status (view t T i))) \<and>
    (\<forall>i. dirty xs i \<longrightarrow> \<not> locked_by_other t T i \<and> view t T i \<noteq> None)"
  using assms
proof (induction xs arbitrary: T)
  case Nil
  then show ?case by (simp add: dirty_def)
next
  case (Cons p xs)
  obtain i l c where p: "p = (i, l, c)" by (cases p) auto
  have dirty_Cons: "dirty (p # xs) j \<longleftrightarrow> (j = i \<and> l \<noteq> c) \<or> dirty xs j" for j
    by (auto simp: dirty_def p)
  show ?case
  proof (cases "l = c")
    case True
    then show ?thesis using Cons dirty_Cons by (simp add: p)
  next
    case False
    with Cons.prems(1) obtain x where free: "\<not> locked_by_other t T i" and x: "view t T i = Some x"
      and rest: "flush_drivers t now xs (put t i (driver_delta now l c x) T) = Flushed T'"
      by (auto simp: p split: if_splits option.splits)
    have ch: "status_change (g i) l c" using Cons.prems(2) False by (simp add: p)
    have st: "d_status (driver_delta now l c x) = (case g i of Some b \<Rightarrow> b | None \<Rightarrow> d_status x)"
      using ch by (auto simp: status_change_def driver_delta_def split: option.splits)
    note IH = Cons.IH [OF rest] Cons.prems(2)
    have "locked_by_other t (put t i y T) j = (if j = i then False else locked_by_other t T j)" for y j
      by (simp add: locked_by_other_iff)
    then show ?thesis
      using IH free x False st by (auto simp: dirty_Cons split: option.splits if_splits)
  qed
qed

lemma flush_rides_clean:
  "(\<And>i l c. (i, l, c) \<in> set xs \<Longrightarrow> l = c) \<Longrightarrow> flush_rides t now xs T = Flushed T"
proof (induction xs)
  case (Cons p xs)
  obtain i l c where p: "p = (i, l, c)" by (cases p) auto
  have "l = c" using Cons.prems [of i l c] by (simp add: p)
  moreover have "flush_rides t now xs T = Flushed T" using Cons.IH Cons.prems by (meson list.set_intros(2))
  ultimately show ?case by (simp add: p)
qed simp

lemma flush_drivers_clean:
  "(\<And>i. \<not> dirty xs i) \<Longrightarrow> flush_drivers t now xs T = Flushed T"
proof (induction xs)
  case (Cons p xs)
  then have "\<not> dirty xs i" for i by (auto simp: dirty_def)
  moreover obtain i l c where p: "p = (i, l, c)" by (cases p) auto
  moreover have "l = c" using Cons.prems [of i] by (auto simp: p dirty_def)
  ultimately show ?case using Cons.IH by simp
qed simp

lemma objects_ok_rides: "objects_ok p s \<Longrightarrow> (i, l, c) \<in> set (id_rides s) \<Longrightarrow> l = c"
  by (auto simp: objects_ok_def)

lemma objects_ok_change:
  "objects_ok p s \<Longrightarrow> (i, l, c) \<in> set (id_drivers s) \<Longrightarrow> l \<noteq> c \<Longrightarrow> status_change (intent p i) l c"
  by (auto simp: objects_ok_def)

lemma objects_ok_dirty:
  "objects_ok p s \<Longrightarrow> dirty (id_drivers s) i \<Longrightarrow> intent p i \<noteq> None \<or> p = Moved i"
  "objects_ok p s \<Longrightarrow> intent p i \<noteq> None \<Longrightarrow> dirty (id_drivers s) i"
  unfolding objects_ok_def dirty_def by blast+

text \<open>The flush of a session in some phase writes the drivers of its intent and of its move.\<close>

lemma flush_phase:
  assumes "flush_world t w = Flushed w'" and "objects_ok p (w_sessions w t)"
  shows "w_rides w' = w_rides w" and "lookup (w_drivers w') = lookup (w_drivers w)"
    and "w_sessions w' t = (w_sessions w t)\<lparr>id_drivers := map (\<lambda>(i, l, c). (i, c, c)) (id_drivers (w_sessions w t)),
           id_rides := map (\<lambda>(i, l, c). (i, c, c)) (id_rides (w_sessions w t))\<rparr>"
    and "row_lock (w_drivers w') i =
           (if dirty (id_drivers (w_sessions w t)) i then Some t else row_lock (w_drivers w) i)"
    and "map_option d_status (view t (w_drivers w') i) =
       (if intent p i \<noteq> None then intent p i else map_option d_status (view t (w_drivers w) i))"
    and "dirty (id_drivers (w_sessions w t)) i \<Longrightarrow> view t (w_drivers w) i \<noteq> None"
proof -
  let ?s = "w_sessions w t"
  have rides: "flush_rides t (now_seconds w) (id_rides ?s) (w_rides w) = Flushed (w_rides w)"
    by (rule flush_rides_clean) (rule objects_ok_rides [OF assms(2)])
  from assms(1) obtain Td where
    d: "flush_drivers t (now_seconds w) (id_drivers ?s) (w_drivers w) = Flushed Td" and
    w': "w' = session_upd t (\<lambda>s. s\<lparr>id_drivers := map (\<lambda>(i, l, c). (i, c, c)) (id_drivers s),
                               id_rides := map (\<lambda>(i, l, c). (i, c, c)) (id_rides s)\<rparr>)
            (w\<lparr>w_drivers := Td, w_rides := w_rides w\<rparr>)"
    by (auto simp: flush_world_def rides split: flushed.splits)
  note spec = flush_drivers_spec [OF d objects_ok_change [OF assms(2)]]
  show "w_rides w' = w_rides w" "lookup (w_drivers w') = lookup (w_drivers w)"
    "w_sessions w' t = ?s\<lparr>id_drivers := map (\<lambda>(i, l, c). (i, c, c)) (id_drivers ?s),
           id_rides := map (\<lambda>(i, l, c). (i, c, c)) (id_rides ?s)\<rparr>"
    "row_lock (w_drivers w') i = (if dirty (id_drivers ?s) i then Some t else row_lock (w_drivers w) i)"
    "map_option d_status (view t (w_drivers w') i) =
       (if intent p i \<noteq> None then intent p i else map_option d_status (view t (w_drivers w) i))"
    "dirty (id_drivers ?s) i \<Longrightarrow> view t (w_drivers w) i \<noteq> None"
    using spec objects_ok_dirty(2) [OF assms(2), of i] by (auto simp: w')
qed

lemma clean_flush:
  assumes "objects_ok p (w_sessions w t)" and "\<And>i. intent p i = None" and "\<And>i. p \<noteq> Moved i"
  shows "flush_world t w = Flushed w"
proof -
  let ?s = "w_sessions w t"
  have clean: "\<not> dirty (id_drivers ?s) i" for i
    using objects_ok_dirty(1) [OF assms(1), of i] assms(2,3) by auto
  have d: "map (\<lambda>(i, l, c). (i, c, c)) (id_drivers ?s) = id_drivers ?s"
    using clean by (intro map_idI) (auto simp: dirty_def)
  have r: "map (\<lambda>(i, l, c). (i, c, c)) (id_rides ?s) = id_rides ?s"
    using objects_ok_rides [OF assms(1)] by (intro map_idI) auto
  show ?thesis
    using flush_drivers_clean [OF clean] flush_rides_clean [OF objects_ok_rides [OF assms(1)]]
    by (simp add: flush_world_def session_upd_def d r)
qed

section \<open>Committing\<close>

definition driver_statuses :: "world \<Rightarrow> uuid \<Rightarrow> driver_status option" where
  "driver_statuses w i = map_option d_status (lookup (w_drivers w) i)"

definition fleet_world :: "world \<Rightarrow> bool" where
  "fleet_world w \<longleftrightarrow> fleet_ok (driver_statuses w) (lookup (w_rides w))"

definition rides_evolve :: "world \<Rightarrow> world \<Rightarrow> bool" where
  "rides_evolve w w' \<longleftrightarrow> (\<forall>i. ride_evolves (lookup (w_rides w) i) (lookup (w_rides w') i))"

lemma holds_onlyE:
  assumes "holds_only t R i P"
  obtains x' where "view t R = (lookup R)(i := Some x')" "P (lookup R i) x'"
proof -
  from assms obtain x' where x': "view t R i = Some x'" "P (lookup R i) x'"
    and only: "\<And>j. row_lock R j = Some t \<longleftrightarrow> j = i" by (auto simp: holds_only_def)
  have "view t R = (lookup R)(i := Some x')"
    using only x'(1) by (auto simp: fun_eq_iff view_unlocked)
  then show thesis using x'(2) by (rule that)
qed

lemma ride_evolves_upd:
  "ride_evolves (f i) (Some x) \<Longrightarrow> ride_evolves (f j) ((f(i := Some x)) j)"
  by (simp add: ride_evolves_def)

lemma unique_driver_of:
  assumes "unique_world w" "lookup (w_rides w) i = Some x" "is_active x" "r_driver_id x = Some d"
    "lookup (w_rides w) j = Some y" "is_active y" "r_driver_id y = Some d"
  shows "j = i"
  using assms(1) driver_index.committed_unique [OF _ assms(5,2)] assms(3,4,6,7)
  by (simp add: unique_world_def active_driver_key_iff)

text \<open>What the commit of each phase makes of the fleet.\<close>

text \<open>A commit that ends neither an assignment nor a ride: at most new drivers appear.\<close>

lemma commit_fleet_unchanged:
  assumes phase: "in_phase p t w" and fleet: "fleet_world w"
    and S: "\<And>i. S i = (if intent p i \<noteq> None then intent p i else map_option d_status (view t (w_drivers w) i))"
    and none: "\<And>i. intent p i = None" "\<And>i. row_lock (w_rides w) i \<noteq> Some t"
  shows "fleet_ok S (view t (w_rides w)) \<and>
    (\<forall>i. ride_evolves (lookup (w_rides w) i) (view t (w_rides w) i))"
proof -
  let ?R = "lookup (w_rides w)" and ?T = "driver_statuses w"
  have locks: "driver_locks_ok p t (w_drivers w)" and fl: "fleet_ok ?T ?R"
    using phase fleet by (simp_all add: in_phase_def fleet_world_def)
  have "view t (w_rides w) = ?R" using none(2) by (auto simp: view_unlocked)
  moreover have "S d = ?T d \<or> (?T d = None \<and> S d = Some AVAILABLE)" for d
    using locks none(1) unfolding S driver_locks_ok_def status_kept_def driver_statuses_def
    by (cases "row_lock (w_drivers w) d = Some t") (auto simp: view_unlocked split: option.splits)
  ultimately show ?thesis using fleet_new_drivers [OF fl] by (simp add: ride_evolves_def)
qed

lemma commit_fleet:
  assumes phase: "in_phase p t w" and "p \<noteq> Broken" and allowed: "tx_allowed p Commit"
    and fleet: "fleet_world w" and unique: "unique_world w"
    and S: "\<And>i. S i = (if intent p i \<noteq> None then intent p i else map_option d_status (view t (w_drivers w) i))"
    and there: "\<And>i. intent p i \<noteq> None \<Longrightarrow> view t (w_drivers w) i \<noteq> None"
  shows "fleet_ok S (view t (w_rides w)) \<and>
    (\<forall>i. ride_evolves (lookup (w_rides w) i) (view t (w_rides w) i))"
proof -
  let ?R = "lookup (w_rides w)" and ?T = "driver_statuses w"
  have locks: "driver_locks_ok p t (w_drivers w)" and rides: "ride_locks_ok p t (w_rides w)"
    using phase by (simp_all add: in_phase_def)
  have fl: "fleet_ok ?T ?R" using fleet by (simp add: fleet_world_def)
  have unlocked: "view t (w_drivers w) i = lookup (w_drivers w) i"
    if "p \<noteq> NewDriver" "\<And>d. p \<noteq> Moved d" for i
    using locks that by (intro view_unlocked) (auto simp: driver_locks_ok_def)
  consider (plain) "\<And>i. intent p i = None" "\<And>i. row_lock (w_rides w) i \<noteq> Some t"
    | (assigned) i d where "p = Assigned i d" | (finished) i where "p = Finished i None"
    | (freeing) i d where "p = Freeing i d" | (new_ride) "p = NewRide"
    using allowed rides \<open>p \<noteq> Broken\<close> by (cases p) (auto simp: tx_allowed_def)
  then show ?thesis
  proof cases
    case plain
    then show ?thesis by (rule commit_fleet_unchanged [OF phase fleet S])
  next
    case assigned
    obtain x x' where v: "view t (w_rides w) = ?R(i := Some x')" and x: "?R i = Some x" and a: "assigned d x x'"
      using rides assigned by (auto elim: holds_onlyE)
    have "S = ?T(d := Some BUSY)"
      using S unlocked assigned by (auto simp: fun_eq_iff driver_statuses_def)
    moreover have "?T d \<noteq> None" using there [of d] unlocked assigned by (simp add: driver_statuses_def)
    ultimately show ?thesis
      using fleet_assign [OF fl x a] ride_evolves_upd [of ?R i x'] x a
      by (auto simp: v ride_evolves_def)
  next
    case finished
    obtain x x' where v: "view t (w_rides w) = ?R(i := Some x')" and x: "?R i = Some x" and e: "ended x x'"
      and "r_driver_id x = None"
      using rides finished by (auto simp: ends_with_def elim!: holds_onlyE)
    moreover have "S = ?T" using S unlocked finished by (auto simp: fun_eq_iff driver_statuses_def)
    ultimately show ?thesis
      using fleet_end_undriven [OF fl x e] by (auto simp: v ride_evolves_def)
  next
    case freeing
    obtain x x' where v: "view t (w_rides w) = ?R(i := Some x')" and x: "?R i = Some x" and e: "ended x x'"
      and d: "r_driver_id x = Some d"
      using rides freeing by (auto simp: ends_with_def elim!: holds_onlyE)
    have "S = ?T(d := Some AVAILABLE)"
      using S unlocked freeing by (auto simp: fun_eq_iff driver_statuses_def)
    moreover have "j = i" if "?R j = Some y" "is_active y" "r_driver_id y = Some d" for j y
      by (rule unique_driver_of [OF unique x _ d that]) (use ended_active [OF e] in simp)
    ultimately show ?thesis
      using fleet_end [OF fl x e d] x e by (auto simp: v ride_evolves_def)
  next
    case new_ride
    obtain i x' where v: "view t (w_rides w) = ?R(i := Some x')" and x: "?R i = None" and f: "fresh_ride x'"
      using rides new_ride by (auto elim: holds_onlyE)
    moreover have "S = ?T" using S unlocked new_ride by (auto simp: fun_eq_iff driver_statuses_def)
    ultimately show ?thesis
      using fleet_new_ride [OF fl x f] by (auto simp: v ride_evolves_def)
  qed
qed

lemma commit_phase:
  assumes phase: "in_phase p t w" and p: "p \<noteq> Broken" and allowed: "tx_allowed p Commit"
    and fleet: "fleet_world w" and unique: "unique_world w" and flush: "flush_world t w = Flushed w1"
  shows "in_phase Idle t (commit_world t w1) \<and> fleet_world (commit_world t w1) \<and> rides_evolve w (commit_world t w1)"
proof -
  have objects: "objects_ok p (w_sessions w t)" using phase by (simp add: in_phase_def)
  note fl = flush_phase [OF flush objects]
  have "driver_statuses (commit_world t w1) i =
      (if intent p i \<noteq> None then intent p i else map_option d_status (view t (w_drivers w) i))" for i
    by (simp add: driver_statuses_def fl(5))
  from commit_fleet [OF phase p allowed fleet unique this fl(6) [OF objects_ok_dirty(2) [OF objects]]]
  have "fleet_ok (driver_statuses (commit_world t w1)) (view t (w_rides w)) \<and>
    (\<forall>i. ride_evolves (lookup (w_rides w) i) (view t (w_rides w) i))" by blast
  moreover have "lookup (w_rides (commit_world t w1)) = view t (w_rides w)" by (rule ext) (simp add: fl(1))
  moreover have "in_phase Idle t (commit_world t w1)"
    by (auto simp: in_phase_def objects_ok_def driver_locks_ok_def)
  ultimately show ?thesis by (simp add: fleet_world_def rides_evolve_def)
qed


section \<open>Each call takes a session to its next phase\<close>

definition same_committed :: "world \<Rightarrow> world \<Rightarrow> bool" where
  "same_committed w w' \<longleftrightarrow>
     lookup (w_drivers w') = lookup (w_drivers w) \<and> lookup (w_rides w') = lookup (w_rides w)"

lemma same_committed_refl [simp]: "same_committed w w"
  by (simp add: same_committed_def)

lemma same_committed_session [simp]: "same_committed w (session_upd t f w)"
  by (simp add: same_committed_def)

lemma same_committed_fail [simp]: "same_committed w (fail_world t w)" "same_committed w (rollback_world t w)"
  by (simp_all add: same_committed_def)

lemma set_update_other: "(j, v) \<in> set xs \<Longrightarrow> j \<noteq> i \<Longrightarrow> (j, v) \<in> set (AList.update i u xs)"
  by (induction xs) auto

lemma in_set_update: "(j, v) \<in> set (AList.update i u xs) \<Longrightarrow> (j = i \<and> v = u) \<or> (j, v) \<in> set xs"
  using set_update_subset [of i u xs] by auto

lemma update_here: "(i, u) \<in> set (AList.update i u xs)"
  by (induction xs) auto

lemma dirty_update_clean: "dirty xs j \<Longrightarrow> j \<noteq> i \<Longrightarrow> dirty (AList.update i u xs) j"
  by (auto simp: dirty_def intro: set_update_other)

text \<open>Loading a row of a driver that the session is not about to write.\<close>

lemma objects_ok_load:
  assumes "objects_ok p s" and "intent p i = None" and "seen_ok p' (s\<lparr>id_drivers := AList.update i (d, d) (id_drivers s)\<rparr>)"
    and "intent p' = intent p" and "\<And>j. p = Moved j \<longleftrightarrow> p' = Moved j"
  shows "objects_ok p' (s\<lparr>id_drivers := AList.update i (d, d) (id_drivers s)\<rparr>)"
  using assms unfolding objects_ok_def
  by (auto dest!: in_set_update intro!: dirty_update_clean) blast+

lemma objects_ok_rides_upd:
  assumes "objects_ok p s"
  shows "objects_ok p (s\<lparr>id_rides := AList.update i (r, r) (id_rides s)\<rparr>)"
proof -
  have "seen_ok p (s\<lparr>id_rides := AList.update i (r, r) (id_rides s)\<rparr>) = seen_ok p s" by (cases p) simp_all
  then show ?thesis using assms unfolding objects_ok_def by (auto dest!: in_set_update)
qed

lemma absent_intent:
  assumes "objects_ok p s" "map_of (id_drivers s) i = None"
  shows "intent p i = None"
proof (rule ccontr)
  assume "intent p i \<noteq> None"
  then have "dirty (id_drivers s) i" using assms(1) by (simp add: objects_ok_def)
  then show False using assms(2) by (auto simp: dirty_def map_of_eq_None_iff image_iff)
qed

lemma seen_ok_load_other:
  "seen_ok p s \<Longrightarrow> map_of (id_drivers s) i = None \<Longrightarrow>
    seen_ok p (s\<lparr>id_drivers := AList.update i (d, d) (id_drivers s)\<rparr>)"
  by (cases p) auto

lemma objects_ok_see:
  assumes "objects_ok p s" shows "objects_ok p (see_driver d s)" and "objects_ok p (see_ride r s)"
proof -
  show "objects_ok p (see_driver d s)"
  proof (cases "map_of (id_drivers s) (d_id d) = None")
    case True
    have "seen_ok p s" using assms by (simp add: objects_ok_def)
    then show ?thesis
      using objects_ok_load [OF assms absent_intent [OF assms True] seen_ok_load_other [OF _ True] refl refl] True
      by (simp add: see_driver_def)
  qed (use assms in \<open>auto simp: see_driver_def\<close>)
  show "objects_ok p (see_ride r s)"
    using objects_ok_rides_upd [OF assms] assms by (simp add: see_ride_def)
qed

lemma see_broken [simp]: "broken (see_driver d s) = broken s" "broken (see_ride r s) = broken s"
  by (simp_all add: see_driver_def see_ride_def)

lemma objects_ok_see_drivers:
  "objects_ok p s \<Longrightarrow> objects_ok p (fold see_driver ds s) \<and> broken (fold see_driver ds s) = broken s"
  by (induction ds arbitrary: s) (auto simp: objects_ok_see)

lemma objects_ok_see_rides:
  "objects_ok p s \<Longrightarrow> objects_ok p (fold see_ride rs s) \<and> broken (fold see_ride rs s) = broken s"
  by (induction rs arbitrary: s) (auto simp: objects_ok_see)

lemmas objects_ok_see_all = objects_ok_see_drivers objects_ok_see_rides

lemma in_phase_session:
  assumes "in_phase p t w" and "objects_ok p' (f (w_sessions w t))"
    and "broken (f (w_sessions w t)) \<longleftrightarrow> p' = Broken"
    and "driver_locks_ok p' t (w_drivers w)" and "ride_locks_ok p' t (w_rides w)"
  shows "in_phase p' t (session_upd t f w)"
  using assms by (simp add: in_phase_def)

lemma in_phase_same:
  assumes "in_phase p t w" and "objects_ok p (f (w_sessions w t))" and "broken (f (w_sessions w t)) = broken (w_sessions w t)"
  shows "in_phase p t (session_upd t f w)"
  using assms by (simp add: in_phase_def)

lemma load_driver_phase:
  assumes "load_driver_row t i w = Some (r, w')" "in_phase p t w" "keyed_world w"
    "map_of (id_drivers (w_sessions w t)) i = None"
  shows "in_phase p t w' \<and> same_committed w w' \<and> (r = RDriver None \<or> (\<exists>x. r = RDriver (Some x) \<and> d_id x = i))"
proof (cases "view t (w_drivers w) i")
  case (Some d)
  have o: "objects_ok p (w_sessions w t)" "seen_ok p (w_sessions w t)"
    using assms(2) by (simp_all add: in_phase_def objects_ok_def)
  have "objects_ok p ((w_sessions w t)\<lparr>id_drivers := AList.update i (d, d) (id_drivers (w_sessions w t))\<rparr>)"
    by (rule objects_ok_load [OF o(1) absent_intent [OF o(1) assms(4)] seen_ok_load_other [OF o(2) assms(4)] refl refl])
  then show ?thesis
    using assms(1,2) Some keyed_views(1) [OF assms(3) Some]
    by (auto simp: load_driver_row_def intro!: in_phase_same)
qed (use assms in \<open>auto simp: load_driver_row_def\<close>)

lemma load_ride_phase:
  assumes "load_ride_row t i w = Some (r, w')" "in_phase p t w" "keyed_world w"
  shows "in_phase p t w' \<and> same_committed w w' \<and>
    (r = RRide None \<and> view t (w_rides w) i = None \<or>
     (\<exists>x. r = RRide (Some x) \<and> r_id x = i \<and> view t (w_rides w) i = Some x))"
proof (cases "view t (w_rides w) i")
  case (Some d)
  have o: "objects_ok p (w_sessions w t)" using assms(2) by (simp add: in_phase_def)
  show ?thesis
    using assms(1,2) Some keyed_views(2) [OF assms(3) Some] objects_ok_rides_upd [OF o]
    by (auto simp: load_ride_row_def intro!: in_phase_same)
qed (use assms in \<open>auto simp: load_ride_row_def\<close>)

definition steps_to :: "phase \<Rightarrow> tid \<Rightarrow> call \<Rightarrow> world \<Rightarrow> reply \<Rightarrow> world \<Rightarrow> bool" where
  "steps_to p t c w r w' \<longleftrightarrow>
     (\<exists>p'. tx_next p c r = Some p' \<and> in_phase p' t w') \<and>
     (same_committed w w' \<or> (fleet_world w' \<and> rides_evolve w w'))"

lemma steps_to_fail:
  "database_call c \<Longrightarrow> steps_to p t c w (RExn e) (fail_world t w)"
  by (auto simp: steps_to_def tx_next_def in_phase_broken)

lemma reading_phase:
  assumes "is_reading c" "database_call c" "exec_db t ch c w = Some (r, w')" "in_phase p t w" "keyed_world w" "p \<noteq> Broken"
  shows "steps_to p t c w r w'"
proof -
  have o: "objects_ok p (w_sessions w t)" using assms(4) by (simp add: in_phase_def)
  show ?thesis
  proof (cases c)
    case (SelectDrivers P)
    with assms o show ?thesis
      by (auto simp: steps_to_def tx_next_def tx_reply_def Let_def objects_ok_see_all split: if_splits intro!: in_phase_same)
  next
    case (SelectRides P)
    with assms o show ?thesis
      by (auto simp: steps_to_def tx_next_def tx_reply_def Let_def objects_ok_see_all intro!: in_phase_same)
  next
    case (GetDriver i fresh)
    show ?thesis
    proof (cases "map_of (id_drivers (w_sessions w t)) i")
      case None
      then have "load_driver_row t i w = Some (r, w')" using assms GetDriver by simp
      from load_driver_phase [OF this assms(4,5) None] show ?thesis
        using assms(1,6) GetDriver by (auto simp: steps_to_def tx_next_def tx_reply_def)
    next
      case (Some lc)
      obtain l c' where lc: "lc = (l, c')" by (cases lc)
      then have "d_id c' = i" using Some keyed_id_drivers [OF assms(5)] by (auto dest: map_of_SomeD)
      then show ?thesis
        using assms Some GetDriver by (auto simp: lc steps_to_def tx_next_def tx_reply_def)
    qed
  next
    case (GetRide i)
    show ?thesis
    proof (cases "map_of (id_rides (w_sessions w t)) i")
      case None
      then have "load_ride_row t i w = Some (r, w')" using assms GetRide by simp
      from load_ride_phase [OF this assms(4,5)] show ?thesis
        using assms(6) GetRide by (auto simp: steps_to_def tx_next_def tx_reply_def)
    next
      case (Some lc)
      obtain l c' where lc: "lc = (l, c')" by (cases lc)
      then have "r_id c' = i" using Some keyed_id_rides [OF assms(5)] by (auto dest: map_of_SomeD)
      then show ?thesis
        using assms Some GetRide by (auto simp: lc steps_to_def tx_next_def tx_reply_def)
    qed
  qed (use assms in \<open>auto simp: steps_to_def tx_next_def tx_reply_def\<close>)
qed

lemma no_driver_locks:
  "driver_locks_ok p t D \<Longrightarrow> p \<noteq> NewDriver \<Longrightarrow> (\<And>d. p \<noteq> Moved d) \<Longrightarrow> view t D i = lookup D i"
  by (rule view_unlocked) (auto simp: driver_locks_ok_def)

text \<open>A session in a phase without an intent reads a driver afresh.\<close>

lemma fresh_driver_phase:
  assumes exec: "exec_db t ch (GetDriver d True) w = Some (r, w')" and phase: "in_phase p t w" and keyed: "keyed_world w"
    and fleet: "fleet_world w" and p: "p = Idle \<or> (\<exists>d'. p = Seen d') \<or> (\<exists>i. p = Finished i (Some d))"
  shows "steps_to p t (GetDriver d True) w r w'"
proof -
  let ?s = "w_sessions w t"
  have load: "load_driver_row t d w = Some (r, w')"
    using exec by (auto split: option.splits)
  have o: "objects_ok p ?s" and locks: "driver_locks_ok p t (w_drivers w)" and rides: "ride_locks_ok p t (w_rides w)"
    and br: "\<not> broken ?s"
    using phase p by (auto simp: in_phase_def)
  have v: "view t (w_drivers w) d = lookup (w_drivers w) d"
    by (rule no_driver_locks [OF locks]) (use p in auto)
  have busy: "driver_statuses w d = Some BUSY" if fin: "p = Finished i (Some d)" for i
  proof -
    obtain x where "lookup (w_rides w) i = Some x" "is_active x" "r_driver_id x = Some d"
      using rides fin ended_active by (auto simp: ends_with_def holds_only_def)
    then show ?thesis using fleet_active_busy fleet by (simp add: fleet_world_def)
  qed
  show ?thesis
  proof (cases "view t (w_drivers w) d")
    case None
    then have "\<nexists>i. p = Finished i (Some d)" using v busy by (auto simp: driver_statuses_def)
    moreover have "in_phase Idle t w"
      if "p = Idle \<or> (\<exists>d'. p = Seen d')"
      using that o locks rides br by (auto simp: in_phase_def objects_ok_def driver_locks_ok_def)
    ultimately show ?thesis
      using load None p by (auto simp: load_driver_row_def steps_to_def tx_next_def tx_reply_def)
  next
    case (Some x)
    have id: "d_id x = d" by (rule keyed_views(1) [OF keyed Some])
    let ?f = "\<lambda>s. s\<lparr>id_drivers := AList.update d (x, x) (id_drivers s)\<rparr>"
    have r: "r = RDriver (Some x)" "w' = session_upd t ?f w" using load Some by (auto simp: load_driver_row_def)
    define p' where "p' = (case p of Finished i _ \<Rightarrow> Found i d | _ \<Rightarrow> if d_status x = AVAILABLE then Seen d else Idle)"
    have nx: "tx_next p (GetDriver d True) r = Some p'"
      using p r id by (auto simp: tx_next_def tx_reply_def p'_def)
    have "d_status x = BUSY" if "p = Finished i (Some d)" for i
      using busy [OF that] Some v by (simp add: driver_statuses_def)
    then have "seen_ok p' (?f ?s)" using p by (auto simp: p'_def)
    moreover have "intent p' = intent p" "\<And>j. p = Moved j \<longleftrightarrow> p' = Moved j" using p by (auto simp: p'_def)
    moreover have "intent p d = None" using p by auto
    ultimately have "objects_ok p' (?f ?s)" by (intro objects_ok_load [OF o])
    then have "in_phase p' t w'"
      unfolding r using p locks rides br
      by (intro in_phase_session [OF phase]) (auto simp: p'_def driver_locks_ok_def)
    then show ?thesis using nx by (auto simp: steps_to_def r)
  qed
qed

text \<open>Setting an attribute makes the object dirty.\<close>

lemma set_status_phase:
  assumes set: "set_driver t d (\<lambda>x. x\<lparr>d_status := st\<rparr>) w = Some (r, w')" and phase: "in_phase p t w"
    and p: "(st = BUSY \<and> p = Seen d) \<or> (st = AVAILABLE \<and> p = Found i d)"
  shows "steps_to p t (SetDriverStatus d st) w r w'"
proof -
  let ?s = "w_sessions w t"
  have o: "objects_ok p ?s" and locks: "driver_locks_ok p t (w_drivers w)" and rides: "ride_locks_ok p t (w_rides w)"
    and br: "\<not> broken ?s" and seen: "seen_ok p ?s"
    using phase p by (auto simp: in_phase_def objects_ok_def)
  obtain x where x: "map_of (id_drivers ?s) d = Some (x, x)" "d_status x \<noteq> st"
    using seen p by auto
  let ?f = "\<lambda>s. s\<lparr>id_drivers := AList.update d (x, x\<lparr>d_status := st\<rparr>) (id_drivers s)\<rparr>"
  have r: "r = RUnit" "w' = session_upd t ?f w" using set x by (auto simp: set_driver_def)
  define p' where "p' = (if st = BUSY then Claimed d else Freeing i d)"
  have nx: "tx_next p (SetDriverStatus d st) r = Some p'"
    using p r by (auto simp: tx_next_def tx_reply_def p'_def)
  have ne: "x \<noteq> x\<lparr>d_status := st\<rparr>" using x(2) by (metis driver.select_convs(6) driver.surjective driver.update_convs(6))
  have int: "intent p' j = (if j = d then Some st else None)" for j using p by (auto simp: p'_def)
  have clean: "l = c" if "(j, l, c) \<in> set (id_drivers ?s)" for j l c
    using o that p unfolding objects_ok_def by (metis intent.simps(5,7,8) phase.distinct phase.simps)
  have "dirty (AList.update d (x, x\<lparr>d_status := st\<rparr>) (id_drivers ?s)) d"
    using ne update_here unfolding dirty_def by metis
  then have "objects_ok p' (?f ?s)"
    using o x(2) unfolding objects_ok_def int
    by (auto dest!: in_set_update clean simp: status_change_def p'_def split: if_splits)
  then have "in_phase p' t w'"
    unfolding r using p locks rides br
    by (intro in_phase_session [OF phase]) (auto simp: p'_def driver_locks_ok_def)
  then show ?thesis using nx by (auto simp: steps_to_def r)
qed

lemma set_location_phase:
  assumes set: "set_driver t d (\<lambda>x. x\<lparr>current_lat := a, current_lng := b, d_h3_index := h, d_zone_id := z\<rparr>) w = Some (r, w')"
    and phase: "in_phase Idle t w"
  shows "steps_to Idle t (SetDriverLocation d a b h z) w r w'"
proof -
  let ?s = "w_sessions w t"
  have o: "objects_ok Idle ?s" and locks: "driver_locks_ok Idle t (w_drivers w)" and rides: "ride_locks_ok Idle t (w_rides w)"
    and br: "\<not> broken ?s"
    using phase by (auto simp: in_phase_def)
  obtain l c where x: "map_of (id_drivers ?s) d = Some (l, c)"
    using set by (auto simp: set_driver_def split: option.splits)
  have clean: "l = c" if "(j, l, c) \<in> set (id_drivers ?s)" for j l c
    using o that by (auto simp: objects_ok_def)
  let ?c = "l\<lparr>current_lat := a, current_lng := b, d_h3_index := h, d_zone_id := z\<rparr>"
  let ?f = "\<lambda>s. s\<lparr>id_drivers := AList.update d (l, ?c) (id_drivers s)\<rparr>"
  have r: "r = RUnit" "w' = session_upd t ?f w" using set x clean [OF map_of_SomeD [OF x]] by (auto simp: set_driver_def)
  have "objects_ok (Moved d) (?f ?s)"
    using o unfolding objects_ok_def by (auto dest!: in_set_update clean simp: status_change_def)
  then have "in_phase (Moved d) t w'"
    unfolding r using locks rides br
    by (intro in_phase_session [OF phase]) (auto simp: driver_locks_ok_def)
  then show ?thesis by (auto simp: steps_to_def tx_next_def tx_reply_def r)
qed

text \<open>Inserting a row.\<close>

lemma flush_idle: "in_phase Idle t w \<Longrightarrow> flush_then t w f = f w"
  using clean_flush [of Idle w t] by (simp add: flush_then_def in_phase_def)

lemma insert_driver_phase:
  assumes ins: "insert_driver t i lat lng h z AVAILABLE w = Some (r, w')" and phase: "in_phase Idle t w"
  shows "steps_to Idle t (InsertDriver lat lng h z AVAILABLE) w r w'"
proof -
  let ?s = "w_sessions w t"
  have o: "objects_ok Idle ?s" and locks: "driver_locks_ok Idle t (w_drivers w)" and rides: "ride_locks_ok Idle t (w_rides w)"
    and br: "\<not> broken ?s"
    using phase by (auto simp: in_phase_def)
  define d where "d = \<lparr>d_id = i, current_lat = lat, current_lng = lng, d_h3_index = h, d_zone_id = z,
                    d_status = AVAILABLE, last_updated_at = now_seconds w\<rparr>"
  from ins have i: "i \<notin> set (row_ids (w_drivers w))" and r: "r = RDriver (Some d)"
    and w': "w' = session_upd t (see_driver d) (w\<lparr>w_drivers := put t i d (w_drivers w)\<rparr>)"
    by (auto simp: insert_driver_def Let_def d_def split: if_splits)
  have "lookup (w_drivers w) i = None" using not_row_id [OF i] by simp
  then have "driver_locks_ok NewDriver t (put t i d (w_drivers w))"
    using locks by (auto simp: driver_locks_ok_def status_kept_def d_def)
  moreover have "objects_ok NewDriver (see_driver d ?s)"
    using objects_ok_see(1) [OF o, of d] by (simp add: objects_ok_def)
  ultimately have "in_phase NewDriver t w'"
    unfolding w' using rides br by (simp add: in_phase_def)
  then show ?thesis by (auto simp: steps_to_def tx_next_def tx_reply_def r w' same_committed_def)
qed

lemma insert_rider_phase:
  assumes ins: "insert_rider t i lat lng w = Some (r, w')" and phase: "in_phase Idle t w"
  shows "steps_to Idle t (InsertRider lat lng) w r w'"
proof -
  from ins have r: "\<exists>p. r = RRider (Some p)" and same: "w_drivers w' = w_drivers w" "w_rides w' = w_rides w"
    "w_sessions w' = w_sessions w"
    by (auto simp: insert_rider_def Let_def split: if_splits)
  have "in_phase NewRider t w'"
    using phase by (simp add: in_phase_def same objects_ok_def driver_locks_ok_def)
  then show ?thesis using r by (auto simp: steps_to_def tx_next_def tx_reply_def same_committed_def same)
qed

lemma insert_ride_phase:
  assumes ins: "insert_ride_row t i rider lat lng k z m w = Some (r, w')" and phase: "in_phase Idle t w"
  shows "steps_to Idle t (InsertRide rider lat lng k z m) w r w'"
proof (cases "\<exists>e. r = RExn e")
  case True
  then show ?thesis
    using ins by (auto simp: insert_ride_row_def Let_def split: if_splits written.splits intro!: steps_to_fail)
next
  case False
  let ?s = "w_sessions w t"
  have o: "objects_ok Idle ?s" and locks: "driver_locks_ok Idle t (w_drivers w)" and rides: "ride_locks_ok Idle t (w_rides w)"
    and br: "\<not> broken ?s"
    using phase by (auto simp: in_phase_def)
  define x where "x = \<lparr>r_id = i, r_rider_id = rider, r_driver_id = None, r_status = REQUESTED, pickup_lat = lat,
      pickup_lng = lng, matched_at = None, fare = None, surge_multiplier = Option.bind m numeric_4_2, r_zone_id = z,
      idempotency_key = k, created_at = now_seconds w, updated_at = now_seconds w\<rparr>"
  from ins False obtain T where i: "i \<notin> set (row_ids (w_rides w))" and x2: "r = RRide (Some x)"
    and T: "write_ride t i x (w_rides w) = Written T" and w': "w' = session_upd t (see_ride x) (w\<lparr>w_rides := T\<rparr>)"
    by (auto simp: insert_ride_row_def Let_def x_def split: if_splits written.splits)
  have x: "fresh_ride x" "r = RRide (Some x)" using x2 by (simp_all add: fresh_ride_def x_def)
  have T: "T = put t i x (w_rides w)" using T by (simp add: write_ride_Written)
  have none: "lookup (w_rides w) i = None" using not_row_id [OF i] by simp
  have "holds_only t T i (\<lambda>old new. old = None \<and> fresh_ride new)"
    using rides none x(1) by (auto simp: T holds_only_def)
  moreover have "objects_ok NewRide (see_ride x ?s)"
    using objects_ok_see(2) [OF o, of x] by (simp add: objects_ok_def)
  moreover have "driver_locks_ok NewRide t (w_drivers w)" using locks by (simp add: driver_locks_ok_def)
  ultimately have "in_phase NewRide t w'"
    unfolding w' using br by (auto simp: in_phase_def)
  then show ?thesis by (auto simp: steps_to_def tx_next_def tx_reply_def x(2) w' T same_committed_def)
qed

text \<open>The conditional UPDATE.\<close>

lemma match_values:
  assumes "is_match_values d vals"
  shows "\<exists>m. fold set_value vals x = x\<lparr>r_driver_id := Some d, matched_at := Some m\<rparr>"
proof -
  obtain m where "vals = [DriverId d, MatchedAt m]"
    using assms by (cases "(d, vals)" rule: is_match_values.cases) auto
  then show ?thesis by auto
qed

lemma update_ride_phase:
  assumes upd: "update_ride t i from_st to_st vals w = Some (r, w')" and phase: "in_phase p t w" and p: "p \<noteq> Broken"
    and allowed: "tx_allowed p (UpdateRide i from_st to_st vals)"
  shows "steps_to p t (UpdateRide i from_st to_st vals) w r w'"
proof (cases "r = RNat 1")
  case False
  then have "(r = RNat 0 \<and> w' = w) \<or> (\<exists>e. r = RExn e \<and> w' = fail_world t w)"
    using upd by (auto simp: update_ride_def split: if_splits option.splits written.splits)
  then show ?thesis
    using phase p by (auto intro: steps_to_fail) (auto simp: steps_to_def tx_next_def tx_reply_def)
next
  case True
  define x' where "x' x = fold set_value vals (x\<lparr>r_status := to_st, updated_at := now_seconds w\<rparr>)" for x :: ride
  from upd True obtain x T where v: "view t (w_rides w) i = Some x" and st: "r_status x \<in> set from_st"
    and free: "\<not> locked_by_other t (w_rides w) i"
    and T: "T = put t i (x' x) (w_rides w)" and w': "w' = w\<lparr>w_rides := T\<rparr>"
    by (auto simp: update_ride_def write_ride_Written x'_def split: if_splits option.splits written.splits)
  have o: "objects_ok p (w_sessions w t)" and locks: "driver_locks_ok p t (w_drivers w)"
    and rides: "ride_locks_ok p t (w_rides w)" and br: "\<not> broken (w_sessions w t)"
    using phase p by (auto simp: in_phase_def)
  have nolock: "\<And>j. row_lock (w_rides w) j \<noteq> Some t" using allowed p rides by (auto simp: tx_allowed_def)
  have x: "lookup (w_rides w) i = Some x" using v view_unlocked [OF nolock] by simp
  have held: "holds_only t T i P" if "P (Some x) (x' x)" for P
    using nolock x that by (auto simp: holds_only_def T)
  from allowed p consider (match) d where "p = Claimed d" "from_st = [REQUESTED]" "to_st = MATCHED" "is_match_values d vals"
    | (ends) "p = Idle" "ends_ride from_st to_st" "vals = []"
    by (auto simp: tx_allowed_def)
  then show ?thesis
  proof cases
    case match
    obtain m where m: "x' x = x\<lparr>r_status := to_st, updated_at := now_seconds w, r_driver_id := Some d, matched_at := Some m\<rparr>"
      using match_values [OF match(4)] unfolding x'_def by metis
    have "x' x = x\<lparr>r_status := MATCHED, r_driver_id := Some d, matched_at := Some m, updated_at := now_seconds w\<rparr>"
      unfolding m match(3) by (cases x) simp
    moreover have "r_status x = REQUESTED" using st match(2) by simp
    ultimately have "assigned d x (x' x)" unfolding assigned_def by blast
    then have "holds_only t T i (\<lambda>old new. \<exists>x. old = Some x \<and> assigned d x new)" by (intro held) blast
    moreover have "objects_ok (Assigned i d) (w_sessions w t)" using o match(1) by (simp add: objects_ok_def)
    moreover have "driver_locks_ok (Assigned i d) t (w_drivers w)" using locks match(1) by (simp add: driver_locks_ok_def)
    ultimately have "in_phase (Assigned i d) t w'" using br by (simp add: in_phase_def w')
    then show ?thesis using match by (auto simp: True steps_to_def tx_next_def tx_reply_def w' T same_committed_def)
  next
    case ends
    have "x' x = x\<lparr>r_status := to_st, updated_at := now_seconds w\<rparr>" by (simp add: x'_def ends(3))
    moreover have "(to_st = CANCELLED \<or> to_st = COMPLETED) \<and> lifecycle (r_status x) to_st"
      using ends(2) st by (simp add: ends_ride_def)
    ultimately have "ended x (x' x)" unfolding ended_def by blast
    then have "holds_only t T i (ends_with None)" by (intro held) (simp add: ends_with_def)
    moreover have "objects_ok (Ended i) (w_sessions w t)" using o ends(1) by (simp add: objects_ok_def)
    moreover have "driver_locks_ok (Ended i) t (w_drivers w)" using locks ends(1) by (simp add: driver_locks_ok_def)
    ultimately have "in_phase (Ended i) t w'" using br by (simp add: in_phase_def w')
    then show ?thesis using ends by (auto simp: True steps_to_def tx_next_def tx_reply_def w' T same_committed_def)
  qed
qed

lemma refresh_ride_phase:
  assumes load: "load_ride_row t i w = Some (r, w')" and phase: "in_phase p t w" and keyed: "keyed_world w" and p: "p \<noteq> Broken"
  shows "steps_to p t (RefreshRide i) w r w'"
proof -
  note l = load_ride_phase [OF load phase keyed]
  show ?thesis
  proof (cases "p = Ended i \<and> (\<exists>x. r = RRide (Some x))")
    case False
    then show ?thesis using l p by (auto simp: steps_to_def tx_next_def tx_reply_def split: phase.splits)
  next
    case True
    then obtain x where x: "r = RRide (Some x)" "r_id x = i" "view t (w_rides w) i = Some x" using l by auto
    have same: "view t (w_rides w') = view t (w_rides w)" "lookup (w_rides w') = lookup (w_rides w)"
      using load x(3) by (auto simp: load_ride_row_def)
    have h: "holds_only t (w_rides w') i (ends_with None)" using l True by (simp add: in_phase_def)
    then have "ends_with (Some (r_driver_id x)) (lookup (w_rides w') i) x"
      using x(3) by (auto simp: holds_only_def ends_with_def same)
    then have "holds_only t (w_rides w') i (ends_with (Some (r_driver_id x)))"
      using h x(3) by (auto simp: holds_only_def same)
    then have "in_phase (Finished i (r_driver_id x)) t w'"
      using l True by (auto simp: in_phase_def objects_ok_def driver_locks_ok_def)
    then show ?thesis using l True x by (auto simp: steps_to_def tx_next_def tx_reply_def)
  qed
qed

lemma flush_moved_phase:
  assumes flush: "flush_world t w = Flushed w'" and phase: "in_phase (Moved d) t w"
  shows "steps_to (Moved d) t Flush w RUnit w'"
proof -
  let ?s = "w_sessions w t"
  have o: "objects_ok (Moved d) ?s" and locks: "driver_locks_ok (Moved d) t (w_drivers w)"
    and rides: "ride_locks_ok (Moved d) t (w_rides w)" and br: "\<not> broken ?s"
    using phase by (auto simp: in_phase_def)
  note fl = flush_phase [OF flush o]
  have "driver_locks_ok (Moved d) t (w_drivers w')"
    unfolding driver_locks_ok_def
  proof (intro allI impI)
    fix i assume "row_lock (w_drivers w') i = Some t"
    then have i: "dirty (id_drivers ?s) i \<or> row_lock (w_drivers w) i = Some t" by (auto simp: fl(4) split: if_splits)
    then have "i = d" using objects_ok_dirty(1) [OF o, of i] locks by (auto simp: driver_locks_ok_def)
    have "status_kept t (w_drivers w) i"
    proof (cases "row_lock (w_drivers w) i = Some t")
      case False
      then have "view t (w_drivers w) i \<noteq> None" using fl(6) i by simp
      then show ?thesis using view_unlocked [OF False] by (auto simp: status_kept_def)
    qed (use locks in \<open>simp add: driver_locks_ok_def\<close>)
    then show "(Moved d = NewDriver \<or> Moved d = Moved i) \<and> status_kept t (w_drivers w') i"
      using fl(2,5) \<open>i = d\<close> by (simp add: status_kept_def)
  qed
  moreover have "objects_ok (Moved d) (w_sessions w' t)"
    by (auto simp: fl(3) objects_ok_def)
  ultimately have "in_phase (Moved d) t w'" using rides br by (auto simp: in_phase_def fl(1,3))
  then show ?thesis by (auto simp: steps_to_def tx_next_def tx_reply_def same_committed_def fl(1,2))
qed

text \<open>One call of a session.\<close>

lemma exec_db_phase:
  assumes exec: "exec_db t ch c w = Some (r, w')" and phase: "in_phase p t w" and p: "p \<noteq> Broken"
    and allowed: "tx_allowed p c" and c: "database_call c"
    and keyed: "keyed_world w" and unique: "unique_world w" and fleet: "fleet_world w"
  shows "steps_to p t c w r w'"
proof (cases c)
  case (GetDriver d fresh)
  show ?thesis
  proof (cases fresh)
    case True
    then show ?thesis using exec phase p allowed keyed fleet GetDriver
      by (auto intro!: fresh_driver_phase simp: tx_allowed_def)
  qed (use GetDriver reading_phase [OF _ c exec phase keyed p] in simp)
next
  case (InsertDriver a b h z st)
  then have "p = Idle" "st = AVAILABLE" using allowed p by (auto simp: tx_allowed_def)
  then show ?thesis using exec InsertDriver phase by (auto simp: flush_idle intro: insert_driver_phase)
next
  case (InsertRider a b)
  then have "p = Idle" using allowed p by (auto simp: tx_allowed_def)
  then show ?thesis using exec InsertRider phase by (auto simp: flush_idle intro: insert_rider_phase)
next
  case (InsertRide a b d e f g)
  then have "p = Idle" using allowed p by (auto simp: tx_allowed_def)
  then show ?thesis using exec InsertRide phase by (auto simp: flush_idle intro: insert_ride_phase)
next
  case (SetDriverStatus d st)
  then show ?thesis using exec allowed p phase by (auto simp: tx_allowed_def intro!: set_status_phase)
next
  case (SetDriverLocation d a b h z)
  then show ?thesis using exec allowed p phase by (auto simp: tx_allowed_def intro!: set_location_phase)
next
  case (SetRideStatus i st)
  then show ?thesis using allowed p by (simp add: tx_allowed_def)
next
  case Flush
  then have "p = Idle \<or> (\<exists>d. p = Moved d)" using allowed p by (auto simp: tx_allowed_def)
  then show ?thesis
  proof
    assume "p = Idle"
    then show ?thesis using exec Flush phase
      by (auto simp: flush_idle steps_to_def tx_next_def tx_reply_def)
  next
    assume "\<exists>d. p = Moved d"
    then show ?thesis using exec Flush phase
      by (auto simp: flush_then_def split: flushed.splits intro: flush_moved_phase steps_to_fail)
  qed
next
  case (UpdateRide i a b d)
  then show ?thesis using exec allowed p phase by (auto intro!: update_ride_phase)
next
  case Commit
  then show ?thesis
    using exec commit_phase [OF phase p _ fleet unique] allowed p
    by (auto simp: flush_then_def split: flushed.splits intro!: steps_to_fail)
      (auto simp: steps_to_def tx_next_def tx_reply_def)
next
  case Rollback
  then show ?thesis using exec p by (auto simp: steps_to_def tx_next_def tx_reply_def in_phase_idle)
next
  case (RefreshDriver i)
  then have pI: "p = Idle" using allowed p by (auto simp: tx_allowed_def)
  have o: "objects_ok Idle (w_sessions w t)" using phase pI by (simp add: in_phase_def)
  have "in_phase Idle t w'"
    using exec RefreshDriver phase pI
    by (auto simp: load_driver_row_def split: option.splits intro!: in_phase_same objects_ok_load [OF o])
  then show ?thesis using exec RefreshDriver pI
    by (auto simp: load_driver_row_def steps_to_def tx_next_def tx_reply_def split: option.splits)
next
  case (RefreshRide i)
  then show ?thesis using exec phase keyed p by (auto intro: refresh_ride_phase)
qed (insert reading_phase [OF _ c exec phase keyed p] c, simp_all)

lemma exec_phase:
  assumes exec: "exec t ch c w = Some (r, w')" and phase: "in_phase p t w" and allowed: "tx_allowed p c"
    and keyed: "keyed_world w" and unique: "unique_world w" and fleet: "fleet_world w"
  shows "steps_to p t c w r w'"
proof (cases "database_call c")
  case False
  have "exec_other t ch' c w = Some (r', w') \<Longrightarrow> steps_to p t c w r w'" for ch' r'
  proof -
    assume "exec_other t ch' c w = Some (r', w')"
    then have same: "w_drivers w' = w_drivers w" "w_rides w' = w_rides w" "w_sessions w' = w_sessions w"
      by (auto simp: exec_other_def split: call.splits prod.splits if_splits)
    then have "in_phase p t w'" using phase by (simp add: in_phase_def)
    then show ?thesis using False by (simp add: steps_to_def tx_next_def same_committed_def same)
  qed
  moreover have "steps_to p t c w r w" using False phase by (simp add: steps_to_def tx_next_def)
  ultimately show ?thesis
    using exec False unfolding exec_def by (auto simp del: exec_other_simps split: if_splits option.splits)
next
  case True
  have br: "broken (w_sessions w t) \<longleftrightarrow> p = Broken" using phase by (simp add: in_phase_def)
  have stay: "steps_to Broken t c w (RExn e) w" if "p = Broken" for e
    using phase that True by (auto simp: steps_to_def tx_next_def)
  have db: "steps_to p t c w r1 w1" if "exec_db t ch c w = Some (r1, w1)" "c = Rollback \<or> p \<noteq> Broken" for r1 w1
  proof (cases "p = Broken")
    case True
    then show ?thesis using that by (auto simp: steps_to_def tx_next_def in_phase_idle)
  next
    case False
    then show ?thesis
      by (rule exec_db_phase [OF that(1) phase _ allowed \<open>database_call c\<close> keyed unique fleet])
  qed
  have late: "steps_to p t Commit w (RExn e) (fail_world t w1)"
    if "c = Commit" "p \<noteq> Broken" "exec_db t ch Commit w = Some (RUnit, w1)" for w1 e
  proof -
    from that obtain w0 where w0: "flush_world t w = Flushed w0" "w1 = commit_world t w0"
      by (auto simp: flush_then_def split: flushed.splits)
    have "fleet_world w1 \<and> rides_evolve w w1"
      using commit_phase [OF phase that(2) _ fleet unique w0(1)] allowed that(1) by (simp add: w0(2))
    then have "fleet_world (fail_world t w1) \<and> rides_evolve w (fail_world t w1)"
      by (simp add: fleet_world_def rides_evolve_def driver_statuses_def [abs_def])
    then show ?thesis using that by (auto simp: steps_to_def tx_next_def in_phase_broken)
  qed
  show ?thesis
    using exec True br stay db late unfolding exec_def
    by (auto simp del: exec_db_simps split: if_splits option.splits reply.splits intro: steps_to_fail)
qed

end
