(* ===== verification/Concurrency.thy ===== *)
theory Concurrency
  imports Transactions
begin

text \<open>
  The running service: any number of requests at once, each a program whose calls interleave freely
  with those of the others; requests that die in the middle; failing databases, failing and forgetful
  Redis servers; the clock; restarts. The invariants hold of what is committed in every reachable state.
\<close>

section \<open>Steps\<close>

record config =
  the_world :: world
  threads :: "tid \<Rightarrow> http prog option"

definition init_config :: "settings \<Rightarrow> config" where
  "init_config cfg = \<lparr>the_world = init_world cfg, threads = (\<lambda>_. None)\<rparr>"

text \<open>\<open>get_db\<close> closes the session of a request when its handler has ended, by whatever way; what it has not
  committed is rolled back.\<close>

definition close_db :: "tid \<Rightarrow> config \<Rightarrow> config" where
  "close_db t C = \<lparr>the_world = rollback_world t (the_world C), threads = (threads C)(t := None)\<rparr>"

inductive step :: "h3_lib \<Rightarrow> settings \<Rightarrow> (request \<Rightarrow> string) \<Rightarrow> config \<Rightarrow> config \<Rightarrow> bool"
  for h cfg vtext where
  accept: "threads C t = None \<Longrightarrow>
    step h cfg vtext C (C\<lparr>threads := (threads C)(t := Some (serve h cfg vtext req))\<rparr>)"
| call: "threads C t = Some (Call c k) \<Longrightarrow> exec t ch c (the_world C) = Some (r, w') \<Longrightarrow>
    step h cfg vtext C \<lparr>the_world = w', threads = (threads C)(t := Some (k r))\<rparr>"
| close: "threads C t = Some p \<Longrightarrow>
    step h cfg vtext C (close_db t C)"
| tick: "0 \<le> dt \<Longrightarrow>
    step h cfg vtext C (C\<lparr>the_world := (the_world C)\<lparr>w_clock_ms := w_clock_ms (the_world C) + dt\<rparr>\<rparr>)"
| redis_loses_keys: "set ks \<subseteq> set (w_redis (the_world C)) \<Longrightarrow>
    step h cfg vtext C (C\<lparr>the_world := (the_world C)\<lparr>w_redis := ks\<rparr>\<rparr>)"
| dashboard: "bus_step (w_bus (the_world C)) b \<Longrightarrow>
    step h cfg vtext C (C\<lparr>the_world := (the_world C)\<lparr>w_bus := b\<rparr>\<rparr>)"
| restart: "(\<And>t. threads C t = None) \<Longrightarrow>
    step h cfg vtext C (C\<lparr>the_world := (the_world C)\<lparr>w_bus := init_bus,
      w_metrics := init_tracker (nat (metrics_window_size cfg)),
      w_db_latency := init_db_tracker (nat (metrics_window_size cfg))\<rparr>\<rparr>)"

inductive reachable :: "h3_lib \<Rightarrow> settings \<Rightarrow> (request \<Rightarrow> string) \<Rightarrow> config \<Rightarrow> bool" for h cfg vtext where
  start: "reachable h cfg vtext (init_config cfg)"
| step: "reachable h cfg vtext C \<Longrightarrow> step h cfg vtext C C' \<Longrightarrow> reachable h cfg vtext C'"

section \<open>The invariant\<close>

definition thread_ok :: "config \<Rightarrow> tid \<Rightarrow> bool" where
  "thread_ok C t \<longleftrightarrow>
     (\<exists>p. in_phase p t (the_world C) \<and>
        (case threads C t of None \<Rightarrow> p = Idle | Some q \<Rightarrow> tx q (\<lambda>_ _. True) p))"

definition service_inv :: "config \<Rightarrow> bool" where
  "service_inv C \<longleftrightarrow>
     keyed_world (the_world C) \<and> unique_world (the_world C) \<and> fleet_world (the_world C) \<and> (\<forall>t. thread_ok C t)"

lemma inv_init: "service_inv (init_config cfg)"
  by (auto simp: service_inv_def init_config_def init_world_def keyed_world_def keyed_session_def unique_world_def
      unique_table_empty fleet_world_def driver_statuses_def [abs_def] thread_ok_def in_phase_def objects_ok_def
      driver_locks_ok_def)

lemma thread_ok_untouched:
  assumes "thread_ok C t" "untouched t (the_world C) (the_world C')" "threads C' t = threads C t"
  shows "thread_ok C' t"
  using assms in_phase_untouched unfolding thread_ok_def by metis

lemma same_committed_fleet:
  "same_committed w w' \<Longrightarrow> fleet_world w \<Longrightarrow> fleet_world w' \<and> rides_evolve w w'"
  by (simp add: same_committed_def fleet_world_def rides_evolve_def driver_statuses_def [abs_def] ride_evolves_def)

lemma untouched_elsewhere:
  "w_drivers w' = w_drivers w \<Longrightarrow> w_rides w' = w_rides w \<Longrightarrow> w_sessions w' = w_sessions w \<Longrightarrow>
    untouched t w w' \<and> same_committed w w' \<and> (keyed_world w \<longrightarrow> keyed_world w') \<and> (unique_world w \<longrightarrow> unique_world w')"
  by (simp add: untouched_def same_committed_def keyed_world_def unique_world_def)

lemma inv_elsewhere:
  assumes "service_inv C" "threads C' = threads C" "w_drivers (the_world C') = w_drivers (the_world C)"
    "w_rides (the_world C') = w_rides (the_world C)" "w_sessions (the_world C') = w_sessions (the_world C)"
  shows "service_inv C' \<and> rides_evolve (the_world C) (the_world C')"
proof -
  note e = untouched_elsewhere [OF assms(3,4,5)]
  then show ?thesis
    using assms(1,2) same_committed_fleet [of "the_world C" "the_world C'"] thread_ok_untouched [of C _ C']
    by (simp add: service_inv_def)
qed

lemma inv_call:
  assumes inv: "service_inv C" and thr: "threads C t = Some (Call c k)"
    and exec: "exec t ch c (the_world C) = Some (r, w')"
  shows "service_inv \<lparr>the_world = w', threads = (threads C)(t := Some (k r))\<rparr> \<and> rides_evolve (the_world C) w'"
    (is "service_inv ?C' \<and> _")
proof -
  let ?w = "the_world C"
  from inv have k: "keyed_world ?w" and u: "unique_world ?w" and f: "fleet_world ?w" and ts: "\<And>t. thread_ok C t"
    by (auto simp: service_inv_def)
  from ts [of t] thr obtain p where p: "in_phase p t ?w" and obeys: "tx (Call c k) (\<lambda>_ _. True) p"
    by (auto simp: thread_ok_def)
  from obeys have allowed: "tx_allowed p c" by simp
  note st = exec_phase [OF exec p allowed k u f]
  then obtain p' where p': "tx_next p c r = Some p'" "in_phase p' t w'" by (auto simp: steps_to_def)
  have "tx (k r) (\<lambda>_ _. True) p'" using obeys p'(1) by (auto dest: spec [of _ r])
  then have here: "thread_ok ?C' t" using p'(2) by (auto simp: thread_ok_def)
  note eff = exec_effects [OF exec k]
  have "thread_ok ?C' t'" for t'
  proof (cases "t' = t")
    case False
    then show ?thesis
      using thread_ok_untouched [OF ts, of t' ?C'] effects_untouched [OF eff False] by simp
  qed (use here in simp)
  moreover have "fleet_world w' \<and> rides_evolve ?w w'"
    using st same_committed_fleet [OF _ f] by (auto simp: steps_to_def)
  ultimately show ?thesis
    using effects_keyed [OF eff k] effects_unique [OF eff u] by (simp add: service_inv_def)
qed

lemma inv_close:
  assumes inv: "service_inv C"
  shows "service_inv \<lparr>the_world = rollback_world t (the_world C), threads = (threads C)(t := None)\<rparr> \<and>
    rides_evolve (the_world C) (rollback_world t (the_world C))" (is "service_inv ?C' \<and> _")
proof -
  let ?w = "the_world C"
  from inv have k: "keyed_world ?w" and u: "unique_world ?w" and f: "fleet_world ?w" and ts: "\<And>t. thread_ok C t"
    by (auto simp: service_inv_def)
  have e: "effect t ?w (rollback_world t ?w)" by (rule effect.rollback)
  have "thread_ok ?C' t'" for t'
  proof (cases "t' = t")
    case True
    then show ?thesis using in_phase_idle by (auto simp: thread_ok_def)
  next
    case False
    then show ?thesis using thread_ok_untouched [OF ts, of t' ?C'] effect_untouched [OF e False] by simp
  qed
  then show ?thesis
    using effect_keyed [OF e k] effect_unique [OF e u] same_committed_fleet [OF _ f, of "rollback_world t ?w"]
    by (simp add: service_inv_def)
qed

lemma inv_accept:
  assumes "service_inv C" and "threads C t = None"
  shows "service_inv (C\<lparr>threads := (threads C)(t := Some (serve h cfg vtext req))\<rparr>)"
proof -
  have "in_phase Idle t (the_world C)"
    using assms by (auto simp: service_inv_def thread_ok_def dest!: spec [of _ t])
  then show ?thesis
    using assms(1) tx_serve [of h cfg vtext req] by (auto simp: service_inv_def thread_ok_def)
qed

lemma inv_step:
  assumes "step h cfg vtext C C'" and "service_inv C"
  shows "service_inv C' \<and> rides_evolve (the_world C) (the_world C')"
  using assms
proof (cases rule: step.cases)
  case (accept t req)
  then show ?thesis using inv_accept [OF assms(2) accept(2)] by (simp add: rides_evolve_def ride_evolves_def)
next
  case (call t c k ch r w')
  then show ?thesis using inv_call [OF assms(2) call(2,3)] by simp
next
  case (close t p)
  then show ?thesis using inv_close [OF assms(2)] by (simp add: close_db_def)
qed (use inv_elsewhere [OF assms(2), of C'] in simp_all)

lemma inv_reachable: "reachable h cfg vtext C \<Longrightarrow> service_inv C"
  by (induction rule: reachable.induct) (auto simp: inv_init inv_step)

text \<open>
  The interface between the service and what is proved of single requests: a fact about a thread, its program
  (None when there is none) and the world. The laws are what the handlers and the platform owe it: it holds
  at rest, when a request is accepted, after each call of the thread and after its session is closed, and
  nothing another thread does breaks it. Then it holds of every thread in every reachable state.
\<close>

locale thread_fact =
  fixes h :: h3_lib and cfg :: settings and vtext :: "request \<Rightarrow> string"
    and holds :: "http prog option \<Rightarrow> tid \<Rightarrow> world \<Rightarrow> bool"
  assumes at_start: "holds None t (init_world cfg)"
    and accepted: "service_inv C \<Longrightarrow> threads C t = None \<Longrightarrow> holds None t (the_world C) \<Longrightarrow>
      holds (Some (serve h cfg vtext req)) t (the_world C)"
    and called: "service_inv C \<Longrightarrow> threads C t = Some (Call c k) \<Longrightarrow> holds (Some (Call c k)) t (the_world C) \<Longrightarrow>
      exec t ch c (the_world C) = Some (r, w') \<Longrightarrow> holds (Some (k r)) t w'"
    and closed: "holds None t (rollback_world t w)"
    and undisturbed: "untouched t w w' \<Longrightarrow> rides_evolve w w' \<Longrightarrow> fleet_world w \<Longrightarrow> holds q t w \<Longrightarrow> holds q t w'"
begin

lemma holds_elsewhere:
  fixes C C' :: config
  assumes "service_inv C" "threads C' = threads C" "w_drivers (the_world C') = w_drivers (the_world C)"
    "w_rides (the_world C') = w_rides (the_world C)" "w_sessions (the_world C') = w_sessions (the_world C)"
    and "holds (threads C t) t (the_world C)"
  shows "holds (threads C' t) t (the_world C')"
  using assms(1,2,6) untouched_elsewhere [OF assms(3-5)] inv_elsewhere [OF assms(1-5)]
    undisturbed [of t "the_world C" "the_world C'"] by (simp add: service_inv_def)

lemma holds_step:
  assumes step: "step h cfg vtext C C'" and inv: "service_inv C" and ih: "\<And>t. holds (threads C t) t (the_world C)"
  shows "holds (threads C' t) t (the_world C')"
proof -
  have fleet: "fleet_world (the_world C)" and kw: "keyed_world (the_world C)" using inv by (simp_all add: service_inv_def)
  have ev: "rides_evolve (the_world C) (the_world C')" using inv_step [OF step inv] by simp
  note other = undisturbed [OF _ ev fleet ih]
  from step show ?thesis
  proof cases
    case (accept t' req)
    then show ?thesis using ih [of t] accepted [OF inv, of t] by (cases "t = t'") simp_all
  next
    case (call t' c k ch r w')
    then show ?thesis
      using called [OF inv call(2) _ call(3)] ih [of t'] other [of t] effects_untouched [OF exec_effects [OF call(3) kw]]
      by (cases "t = t'") auto
  next
    case (close t' p)
    then show ?thesis
      using closed other [of t] effect_untouched [OF effect.rollback, of t t']
      by (cases "t = t'") (auto simp: close_db_def)
  qed (use holds_elsewhere [OF inv, of C'] ih in simp_all)
qed

lemma holds_reachable: "reachable h cfg vtext C \<Longrightarrow> holds (threads C t) t (the_world C)"
proof (induction arbitrary: t rule: reachable.induct)
  case (step C C')
  show ?case by (rule holds_step [OF step(2) inv_reachable [OF step(1)] step(3)])
qed (simp add: init_config_def at_start)

end

lemma committed_keyed:
  assumes "reachable h cfg vtext C" "lookup (w_rides (the_world C)) i = Some r"
  shows "r_id r = i"
  using inv_reachable [OF assms(1)] assms(2) keyed_table_lookup
  unfolding service_inv_def keyed_world_def by metis

section \<open>What holds of the committed data\<close>

abbreviation rides_of :: "config \<Rightarrow> uuid \<Rightarrow> ride option" where
  "rides_of C \<equiv> lookup (w_rides (the_world C))"

abbreviation drivers_of :: "config \<Rightarrow> uuid \<Rightarrow> driver option" where
  "drivers_of C \<equiv> lookup (w_drivers (the_world C))"

lemma reachable_unique: "reachable h cfg vtext C \<Longrightarrow> unique_world (the_world C)"
  by (simp add: inv_reachable [unfolded service_inv_def])

lemma reachable_fleet:
  assumes "reachable h cfg vtext C"
  shows "fleet_ok (driver_statuses (the_world C)) (rides_of C)"
  using inv_reachable [OF assms] by (simp add: service_inv_def fleet_world_def)

text \<open>C1: however requests interleave, whatever Redis forgets or fails to do, and wherever requests die,
  a driver is never committed to two active rides.\<close>

theorem no_double_booking:
  assumes "reachable h cfg vtext C"
    and "rides_of C i = Some a" and "rides_of C j = Some b"
    and "is_active a" and "is_active b" and "r_driver_id a = Some d" and "r_driver_id b = Some d"
  shows "i = j \<and> a = b"
proof -
  have "i = j"
    using reachable_unique [OF assms(1)] assms
    by (intro driver_index.committed_unique [OF _ assms(2,3)]) (auto simp: unique_world_def active_driver_key_iff)
  then show ?thesis using assms(2,3) by simp
qed

text \<open>C3: an idempotency key backs at most one ride, ever, under any interleaving of retries.\<close>

theorem idempotency_key_backs_one_ride:
  assumes "reachable h cfg vtext C"
    and "rides_of C i = Some a" and "rides_of C j = Some b"
    and "idempotency_key a = Some k" and "idempotency_key b = Some k"
  shows "i = j"
  using reachable_unique [OF assms(1)] assms(4,5)
  by (intro key_index.committed_unique [OF _ assms(2,3)]) (simp_all add: unique_world_def uq_idempotency_key_iff)

text \<open>C2: in every committed state a driver is BUSY exactly when an active ride has it: no crash,
  interleaving or lost lock leaks a BUSY driver, or leaves a driver of an active ride AVAILABLE.\<close>

theorem busy_iff_serving:
  assumes "reachable h cfg vtext C" and "drivers_of C d = Some x"
  shows "(d_status x = BUSY \<longleftrightarrow> (\<exists>i r. rides_of C i = Some r \<and> is_active r \<and> r_driver_id r = Some d))
    \<and> (d_status x = AVAILABLE \<longleftrightarrow> (\<nexists>i r. rides_of C i = Some r \<and> is_active r \<and> r_driver_id r = Some d))"
proof -
  have S: "driver_statuses (the_world C) d = Some (d_status x)"
    using assms(2) by (simp add: driver_statuses_def)
  have "d_status x \<noteq> OFFLINE \<and> (d_status x = BUSY \<longleftrightarrow> serves (rides_of C) d)"
    using reachable_fleet [OF assms(1)] S unfolding fleet_ok_def by blast
  then show ?thesis unfolding serves_def by (cases "d_status x") auto
qed

text \<open>C6: what a committed ride's status says of its row: a REQUESTED ride has no driver; a MATCHED or
  COMPLETED one has a match time and a driver whose row exists; no ride is IN_PROGRESS.\<close>

theorem ride_status_matches_row:
  assumes "reachable h cfg vtext C" and "rides_of C i = Some r"
  shows "r_id r = i \<and> r_status r \<noteq> IN_PROGRESS
    \<and> (r_status r = REQUESTED \<longrightarrow> r_driver_id r = None \<and> matched_at r = None)
    \<and> (r_status r = MATCHED \<or> r_status r = COMPLETED \<longrightarrow>
        matched_at r \<noteq> None \<and> (\<exists>d x. r_driver_id r = Some d \<and> drivers_of C d = Some x))"
proof -
  have fl: "ride_data_ok r" "\<And>d. r_driver_id r = Some d \<Longrightarrow> driver_statuses (the_world C) d \<noteq> None"
    using reachable_fleet [OF assms(1)] assms(2) unfolding fleet_ok_def by blast+
  then have "drivers_of C d \<noteq> None" if "r_driver_id r = Some d" for d
    using that by (auto simp: driver_statuses_def)
  then show ?thesis
    using fl(1) committed_keyed [OF assms] by (auto simp: ride_data_ok_def)
qed

lemma step_rides_evolve:
  assumes "reachable h cfg vtext C" "step h cfg vtext C C'"
  shows "ride_evolves (rides_of C i) (rides_of C' i)"
  using inv_step [OF assms(2) inv_reachable [OF assms(1)]] by (simp add: rides_evolve_def)

text \<open>What an evolution keeps of a row.\<close>

definition ride_history :: "ride \<Rightarrow> ride \<Rightarrow> bool" where
  "ride_history r r' \<longleftrightarrow>
     same_request r r'
     \<and> r_status r \<le> r_status r'
     \<and> (r_driver_id r = None \<or> r_driver_id r' = r_driver_id r)
     \<and> (\<not> is_active r \<longrightarrow> r_status r' = r_status r)"

lemma evolves_history:
  assumes "ride_evolves (Some r) r'" "ride_data_ok r"
  shows "\<exists>x. r' = Some x \<and> ride_history r x"
proof -
  from assms(1) obtain x where x: "r' = Some x" by (cases r') (auto simp: ride_evolves_def)
  consider "x = r" | d where "assigned d r x" | "ended r x"
    using assms(1) x by (auto simp: ride_evolves_def)
  then have "ride_history r x"
  proof cases
    case 1
    then show ?thesis by (simp add: ride_history_def same_request_def)
  next
    case (2 d)
    note a = assignedD [OF 2]
    have "r_driver_id r = None" "is_active r" using assms(2) a(1) by (simp_all add: ride_data_ok_def is_active_iff)
    moreover have "REQUESTED \<le> MATCHED" by (simp add: less_eq_ride_status_def)
    ultimately show ?thesis using a by (simp add: ride_history_def)
  next
    case 3
    note e = endedD [OF 3]
    show ?thesis
      using e ended_active [OF 3] lifecycle_less [OF e(1)] by (simp add: ride_history_def)
  qed
  then show ?thesis using x by blast
qed

lemma ride_history_trans: "ride_history a b \<Longrightarrow> ride_history b c \<Longrightarrow> ride_history a c"
  unfolding ride_history_def same_request_def is_active_def by (elim conjE) (intro conjI; auto)

text \<open>C4: the committed status of a ride changes only along the life cycle: in each step the row stays
  as it is, or goes REQUESTED to MATCHED, or from an active status to CANCELLED, or from a status with a
  driver to COMPLETED; and a ride appears as REQUESTED without a driver.\<close>

theorem rides_follow_lifecycle:
  assumes "reachable h cfg vtext C" and "step h cfg vtext C C'"
  shows "(case (rides_of C i, rides_of C' i) of
      (None, None) \<Rightarrow> True
    | (None, Some r') \<Rightarrow> r_status r' = REQUESTED \<and> r_driver_id r' = None
    | (Some r, None) \<Rightarrow> False
    | (Some r, Some r') \<Rightarrow> r' = r \<or> lifecycle (r_status r) (r_status r'))"
  using step_rides_evolve [OF assms, of i] assignedD(1,2) endedD(1)
  by (auto simp: ride_evolves_def fresh_ride_def intro: lifecycle.match split: option.splits)

text \<open>C5: over any run, a ride is never lost, its rider, pickup, key, zone, price quote and creation time
  never change, its driver is never replaced, its status never goes back, and a completed or cancelled
  ride stays so.\<close>

theorem ride_history_is_monotone:
  assumes "reachable h cfg vtext C" and "(step h cfg vtext)\<^sup>*\<^sup>* C C'" and "rides_of C i = Some r"
  shows "\<exists>r'. rides_of C' i = Some r' \<and> ride_history r r'"
  using assms(2)
proof (induction rule: rtranclp_induct)
  case base
  then show ?case using assms(3) by (simp add: ride_history_def same_request_def)
next
  case (step y z)
  then obtain r' where r': "rides_of y i = Some r'" "ride_history r r'" by blast
  have y: "reachable h cfg vtext y"
    using step(1) assms(1) by (induction rule: rtranclp_induct) (auto intro: reachable.step)
  have "ride_data_ok r'" using reachable_fleet [OF y] r'(1) unfolding fleet_ok_def by blast
  with step_rides_evolve [OF y step(2), of i] r'(1)
  obtain x where "rides_of z i = Some x" "ride_history r' x" using evolves_history by metis
  then show ?case using ride_history_trans [OF r'(2)] by blast
qed

section \<open>Running requests to their end\<close>

text \<open>\<open>run_thread t chs p w\<close> makes the calls of \<open>p\<close> one after the other with the given choices; None when
  a call waits or the choices run out.\<close>

fun run_thread :: "tid \<Rightarrow> choice list \<Rightarrow> 'a prog \<Rightarrow> world \<Rightarrow> ('a \<times> world) option" where
  "run_thread t chs (Return x) w = Some (x, w)"
| "run_thread t chs (Raise e) w = None"
| "run_thread t [] (Call c k) w = None"
| "run_thread t (ch # chs) (Call c k) w =
     (case exec t ch c w of None \<Rightarrow> None | Some (r, w') \<Rightarrow> run_thread t chs (k r) w')"

fun run_requests ::
  "h3_lib \<Rightarrow> settings \<Rightarrow> (request \<Rightarrow> string) \<Rightarrow> (request \<times> choice list) list \<Rightarrow> world \<Rightarrow> (http list \<times> world) option" where
  "run_requests h cfg vtext [] w = Some ([], w)"
| "run_requests h cfg vtext ((req, chs) # reqs) w =
     (case run_thread 0 chs (serve h cfg vtext req) w of
        None \<Rightarrow> None
      | Some (resp, w') \<Rightarrow>
         (case run_requests h cfg vtext reqs (rollback_world 0 w') of
            None \<Rightarrow> None
          | Some (resps, w'') \<Rightarrow> Some (resp # resps, w'')))"

lemma run_thread_steps:
  "run_thread t chs p w = Some (x, w') \<Longrightarrow>
    (step h cfg vtext)\<^sup>*\<^sup>* \<lparr>the_world = w, threads = ths(t := Some p)\<rparr>
                          \<lparr>the_world = w', threads = ths(t := Some (Return x))\<rparr>"
proof (induction t chs p w rule: run_thread.induct)
  case (4 t ch chs c k w)
  from 4(2) obtain r w1 where ex: "exec t ch c w = Some (r, w1)" and rest: "run_thread t chs (k r) w1 = Some (x, w')"
    by (auto split: option.splits)
  have "step h cfg vtext \<lparr>the_world = w, threads = ths(t := Some (Call c k))\<rparr>
                         \<lparr>the_world = w1, threads = ths(t := Some (k r))\<rparr>"
    using step.call [of "\<lparr>the_world = w, threads = ths(t := Some (Call c k))\<rparr>" t c k ch r w1] ex
    by (simp add: fun_upd_def cong: if_cong)
  then show ?case using 4(1) [OF ex refl rest] by (rule converse_rtranclp_into_rtranclp)
qed auto

lemma run_requests_steps:
  "run_requests h cfg vtext reqs w = Some (resps, w') \<Longrightarrow>
    (step h cfg vtext)\<^sup>*\<^sup>* \<lparr>the_world = w, threads = (\<lambda>_. None)\<rparr> \<lparr>the_world = w', threads = (\<lambda>_. None)\<rparr>"
proof (induction h cfg vtext reqs w arbitrary: resps rule: run_requests.induct)
  case (2 h cfg vtext req chs reqs w)
  from 2(2) obtain resp w1 resps' where r1: "run_thread 0 chs (serve h cfg vtext req) w = Some (resp, w1)"
    and r2: "run_requests h cfg vtext reqs (rollback_world 0 w1) = Some (resps', w')"
    by (auto split: option.splits)
  let ?none = "\<lambda>_ :: tid. None :: http prog option"
  have none: "?none(0 := None) = ?none" by auto
  have "step h cfg vtext \<lparr>the_world = w, threads = ?none\<rparr>
      \<lparr>the_world = w, threads = ?none(0 := Some (serve h cfg vtext req))\<rparr>"
    using step.accept [of "\<lparr>the_world = w, threads = ?none\<rparr>" 0] by simp
  moreover note run_thread_steps [OF r1, of h cfg vtext ?none]
  moreover have "step h cfg vtext \<lparr>the_world = w1, threads = ?none(0 := Some (Return resp))\<rparr>
      \<lparr>the_world = rollback_world 0 w1, threads = ?none\<rparr>"
    using step.close [of "\<lparr>the_world = w1, threads = ?none(0 := Some (Return resp))\<rparr>" 0] none
    by (simp add: close_db_def)
  moreover note 2(1) [OF r1 refl r2]
  ultimately show ?case by (meson converse_rtranclp_into_rtranclp rtranclp_trans)
qed simp

lemma reachable_steps: "reachable h cfg vtext C \<Longrightarrow> (step h cfg vtext)\<^sup>*\<^sup>* C C' \<Longrightarrow> reachable h cfg vtext C'"
  by (rotate_tac, induction rule: rtranclp_induct) (auto intro: reachable.step)

end
