(* ===== verification/Replies.thy ===== *)
theory Replies
  imports Isolation Contracts
begin

text \<open>
  What the platform answers. The contracts of the handlers (theories Contracts to Responses) are stated
  over every exchange with replies that are \<open>plausible\<close>; here the platform is shown to give no others, so
  that they hold of the running service.
\<close>

lemma flush_fails:
  "flush_drivers t now ds T = FlushFailed e \<Longrightarrow> e = OtherSQLAlchemyError"
  "flush_rides t now rs R = FlushFailed e' \<Longrightarrow> e' = OtherSQLAlchemyError \<or> e' = IntegrityError"
proof -
  show "flush_drivers t now ds T = FlushFailed e \<Longrightarrow> e = OtherSQLAlchemyError"
    by (induction t now ds T rule: flush_drivers.induct) (auto split: if_splits option.splits)
  show "flush_rides t now rs R = FlushFailed e' \<Longrightarrow> e' = OtherSQLAlchemyError \<or> e' = IntegrityError"
    by (induction t now rs R rule: flush_rides.induct) (auto split: if_splits option.splits written.splits)
qed

lemma flush_then_reply:
  assumes "flush_then t w f = Some (r, w')"
  shows "(\<exists>e. r = RExn e \<and> is_sqlalchemy_error e) \<or> (\<exists>w1. flush_world t w = Flushed w1 \<and> f w1 = Some (r, w'))"
  using assms
  by (auto simp: flush_then_def flush_world_def split: flushed.splits dest!: flush_fails)

lemma load_replies:
  assumes "keyed_world w"
  shows "load_driver_row t i w = Some (r, w') \<Longrightarrow> \<exists>x. r = RDriver x \<and> (\<forall>d. x = Some d \<longrightarrow> d_id d = i)"
    and "load_ride_row t i w = Some (r, w') \<Longrightarrow> \<exists>x. r = RRide x \<and> (\<forall>d. x = Some d \<longrightarrow> r_id d = i)"
  using keyed_views [OF assms]
  by (auto simp: load_driver_row_def load_ride_row_def split: option.splits)

lemma insert_replies:
  "insert_driver t i lat lng h z st w = Some (r, w') \<Longrightarrow> \<exists>x. r = RDriver (Some x)"
  "insert_rider t i lat lng w = Some (r, w') \<Longrightarrow> \<exists>x. r = RRider (Some x)"
  "insert_ride_row t i rider lat lng k zo m w = Some (r, w') \<Longrightarrow>
     (\<exists>e. r = RExn e \<and> is_sqlalchemy_error e) \<or> (\<exists>x. r = RRide (Some x))"
  by (auto simp: insert_driver_def insert_rider_def insert_ride_row_def Let_def split: if_splits written.splits)

lemma set_replies:
  "set_driver t i f w = Some (r, w') \<Longrightarrow> r = RUnit" "set_ride t i g w = Some (r, w') \<Longrightarrow> r = RUnit"
  by (auto simp: set_driver_def set_ride_def split: option.splits)

lemma update_ride_reply:
  "update_ride t i from_st to_st vals w = Some (r, w') \<Longrightarrow>
     (\<exists>e. r = RExn e \<and> is_sqlalchemy_error e) \<or> (\<exists>n. r = RNat n)"
  by (auto simp: update_ride_def split: option.splits if_splits written.splits)

lemma failing_reply: "is_sqlalchemy_error e \<Longrightarrow> database_call c \<Longrightarrow> plausible c (RExn e)"
  by (cases c) (simp_all add: plausible_def keyed_reply_def)

lemma exec_db_plausible:
  assumes "exec_db t ch c w = Some (r, w')" and "keyed_world w" and db: "database_call c"
  shows "plausible c r"
proof -
  note fail = failing_reply [OF _ db]
  have cached: "map_of (id_drivers (w_sessions w t)) i = Some (l, d) \<Longrightarrow> d_id d = i"
      "map_of (id_rides (w_sessions w t)) j = Some (l', x) \<Longrightarrow> r_id x = j" for i j l d l' x
    using keyed_id_drivers [OF assms(2)] keyed_id_rides [OF assms(2)] by (auto dest!: map_of_SomeD)
  note loads = load_replies [OF assms(2)]
  show ?thesis
  proof (cases c)
    case (GetDriver i fresh)
    then have "(\<exists>l d. map_of (id_drivers (w_sessions w t)) i = Some (l, d) \<and> r = RDriver (Some d))
        \<or> load_driver_row t i w = Some (r, w')"
      using assms(1) by (simp split: option.splits prod.splits if_splits)
    then show ?thesis using cached(1) [of i] by (auto simp: GetDriver plausible_def keyed_reply_def split: option.splits dest!: loads)
  next
    case (GetRide i)
    then have "(\<exists>l d. map_of (id_rides (w_sessions w t)) i = Some (l, d) \<and> r = RRide (Some d))
        \<or> load_ride_row t i w = Some (r, w')"
      using assms(1) by (simp split: option.splits prod.splits)
    then show ?thesis using cached(2) [of i] by (auto simp: GetRide plausible_def keyed_reply_def split: option.splits dest!: loads)
  next
    case (RefreshRide i)
    then show ?thesis using assms(1) by (auto simp: plausible_def keyed_reply_def split: option.splits dest!: loads)
  next
    case (RefreshDriver i)
    then show ?thesis using assms(1) by (auto simp: plausible_def keyed_reply_def split: option.splits dest!: loads)
  next
    case (InsertDriver lat lng h z st)
    then show ?thesis using assms(1) fail
      by (auto dest!: flush_then_reply insert_replies simp: plausible_def keyed_reply_def)
  next
    case (InsertRider lat lng)
    then show ?thesis using assms(1) fail
      by (auto dest!: flush_then_reply insert_replies simp: plausible_def keyed_reply_def)
  next
    case (InsertRide rider lat lng k z m)
    then show ?thesis using assms(1) fail
      by (auto dest!: flush_then_reply insert_replies simp: plausible_def keyed_reply_def)
  next
    case (UpdateRide i from_st to_st vals)
    then show ?thesis using assms(1) fail
      by (auto dest!: update_ride_reply simp: plausible_def keyed_reply_def)
  next
    case Flush
    then show ?thesis using assms(1) fail by (auto dest!: flush_then_reply simp: plausible_def keyed_reply_def)
  next
    case Commit
    then show ?thesis using assms(1) fail by (auto dest!: flush_then_reply simp: plausible_def keyed_reply_def)
  qed (use assms(1) db in \<open>auto simp: plausible_def keyed_reply_def Let_def dest: set_replies split: if_splits\<close>)
qed

lemma exec_other_plausible:
  "exec_other t ch c w = Some (r, w') \<Longrightarrow> \<not> database_call c \<Longrightarrow> plausible c r"
  by (cases c) (auto simp: plausible_def keyed_reply_def split: prod.splits if_splits)

lemma platform_plausible:
  assumes "exec t ch c w = Some (r, w')" and "keyed_world w"
  shows "plausible c r"
proof (cases "database_call c")
  case True
  then show ?thesis
    using assms exec_db_plausible [OF _ assms(2) True] failing_reply [OF _ True]
    by (auto simp: exec_def split: if_splits option.splits prod.splits reply.splits)
next
  case False
  have "is_redis_call c \<Longrightarrow> is_redis_error e \<Longrightarrow> plausible c (RExn e)" for e
    by (cases c) (simp_all add: plausible_def keyed_reply_def)
  then show ?thesis
    using assms(1) False exec_other_plausible
    by (fastforce simp: exec_def split: if_splits option.splits prod.splits)
qed

text \<open>Whatever a request asks of the platform, from whatever state in which rows carry their keys (as in
  every reachable one), the answer is of the type the code expects, a row read by its key is that row, a
  database call raises nothing but an SQLAlchemy error, a Redis command nothing but a Redis error, and
  nothing else raises; so the platform is a dependency that the handlers can rely on.\<close>

definition platform_answers :: "tid \<Rightarrow> call \<Rightarrow> world \<Rightarrow> reply \<Rightarrow> world \<Rightarrow> bool" where
  "platform_answers t c w r w' \<longleftrightarrow> (\<exists>ch. exec t ch c w = Some (r, w'))"

interpretation platform: dependency "platform_answers t" keyed_world for t
  by unfold_locales (auto simp: platform_answers_def intro: platform_plausible effects_keyed exec_effects)

end
