(* ===== verification/Progress.thy ===== *)
theory Progress
  imports Concurrency Replies
begin

text \<open>
  Requests wait for each other's row locks (and, through the unique indexes, for each other's uncommitted
  keys). Here: who waits for whom, that the waiting never goes in a circle, and that every mix of
  requests in flight can therefore be served to the end. The order is: a request that waits for a ride
  holds nothing, one that waits for a driver holds no driver.
\<close>

section \<open>Objects in the session\<close>

text \<open>An attribute is only set on an object that the session has loaded. For the statuses the session
  protocol says so; for the location it is this protocol, whose state is the driver just read.\<close>

definition loc_allowed :: "uuid option \<Rightarrow> call \<Rightarrow> bool" where
  "loc_allowed s c = (case c of SetDriverLocation d _ _ _ _ \<Rightarrow> s = Some d | _ \<Rightarrow> True)"

definition loc_next :: "uuid option \<Rightarrow> call \<Rightarrow> reply \<Rightarrow> uuid option option" where
  "loc_next s c r =
     (case c of
        GetDriver d _ \<Rightarrow>
          (case r of RDriver (Some x) \<Rightarrow> if d_id x = d then Some (Some d) else None | _ \<Rightarrow> Some None)
      | _ \<Rightarrow> Some None)"

abbreviation loc :: "'a prog \<Rightarrow> uuid option \<Rightarrow> bool" where
  "loc p \<equiv> obeys loc_allowed loc_next p (\<lambda>_ _. True)"

fun moves :: "call \<Rightarrow> bool" where
  "moves (SetDriverLocation _ _ _ _ _) = True"
| "moves _ = False"

abbreviation stays :: "'a prog \<Rightarrow> bool" where
  "stays \<equiv> all_calls (\<lambda>c. \<not> moves c)"

lemma stays_loc: "stays p \<Longrightarrow> loc p s"
  by (induction p arbitrary: s) (auto simp: loc_allowed_def split: option.split call.splits)

lemma all_calls_tell [simp]:
  "all_calls P (emit_event ty data) \<longleftrightarrow> P (Emit ty data)"
  "all_calls P (record_metric oc x) \<longleftrightarrow> P (RecordMatch oc x)"
  "all_calls P record_contention \<longleftrightarrow> P RecordLockContention"
  by (simp_all add: emit_event_def record_metric_def record_contention_def)

lemma all_calls_try: "all_calls P p \<Longrightarrow> (\<And>e. all_calls P (g e)) \<Longrightarrow> all_calls P (try_except p g)"
  unfolding try_except_def by (rule all_calls_handle) auto

lemma all_calls_finally_must:
  "all_calls P p \<Longrightarrow> all_calls P q \<Longrightarrow> all_calls P (try_finally p q)"
  "all_calls P r \<Longrightarrow> all_calls P (must_exist r)"
  unfolding try_finally_def must_exist_def
  by (auto intro!: all_calls_handle all_calls_pbind split: option.split)

lemma all_calls_if: "(b \<Longrightarrow> all_calls P p) \<Longrightarrow> (\<not> b \<Longrightarrow> all_calls P q) \<Longrightarrow> all_calls P (if b then p else q)"
  by simp

lemmas all_calls_intros = all_calls_if all_calls_handle all_calls_pbind all_calls_try all_calls_finally_must

lemmas stays_defs = repo_defs Let_def

lemma stays_search: "stays (search_rings h cell target ks cs)"
  by (induction ks arbitrary: cs) (auto intro!: all_calls_intros simp: stays_defs split: sum.split if_split)

lemma stays_surge: "stays (zone_surge cfg z now)" "stays (surge_of_zones cfg now' zs)"
proof -
  show s: "stays (zone_surge cfg z now)" for z now
    by (auto intro!: all_calls_intros simp: zone_surge_def stays_defs split: option.split)
  show "stays (surge_of_zones cfg now' zs)"
    by (induction zs) (auto intro!: all_calls_intros s)
qed

lemma stays_counts: "stays (sum_counts ss)"
  by (induction ss) (auto intro!: all_calls_intros simp: stays_defs)

lemma stays_assign: "stays (assign_candidate r d)"
  by (auto intro!: all_calls_intros simp: assign_candidate_def stays_defs split: option.split)

lemma stays_try: "stays (try_candidates cfg r cs)"
  by (induction cfg r cs rule: try_candidates.induct)
    (auto intro!: all_calls_intros stays_assign
      simp: acquire_driver_lock_def acquire_lock_def release_lock_def stays_defs split: option.split)

lemma stays_match: "stays (match_ride h cfg i)"
  by (auto intro!: all_calls_intros stays_try stays_search
      simp: match_ride_def find_ranked_candidates_def stays_defs)

lemma stays_create: "stays (create_ride h cfg rider lat lng key)"
  by (auto intro!: all_calls_intros stays_surge simp: create_ride_def insert_ride_def stays_defs split: option.split)

lemma stays_finish: "stays (finish_ride from_st to_st ev i)"
  by (auto intro!: all_calls_intros simp: finish_ride_def transition_or_raise_def free_driver_def stays_defs split: option.split)

lemma stays_request: "stays (request_ride h cfg rider lat lng key)"
  by (auto intro!: all_calls_intros stays_create stays_match simp: request_ride_def stays_defs split: exn.split)

lemmas stays_handlers = stays_request stays_finish stays_surge stays_counts

lemma loc_get_driver:
  "loc (pbind (ask (GetDriver d False) un_driver) f) s"
  if "\<And>x. loc (f (Some x)) (Some (d_id x))" and "\<And>s. loc (f None) s"
proof (rule obeys_pbindI [where R = "\<lambda>res s'. \<forall>x :: driver. res = Inr (Some x) \<longrightarrow> s' = Some (d_id x)"])
  show "obeys loc_allowed loc_next (ask (GetDriver d False) un_driver)
      (\<lambda>res s'. \<forall>x. res = Inr (Some x) \<longrightarrow> s' = Some (d_id x)) s"
    by (auto simp: obeys_ask loc_allowed_def loc_next_def ask_result_def split: reply.splits option.splits if_splits)
next
  fix x s' assume "\<forall>y :: driver. (Inr x :: exn + driver option) = Inr (Some y) \<longrightarrow> s' = Some (d_id y)"
  then show "loc (f x) s'" using that by (cases x) auto
qed simp

lemma loc_set_location:
  assumes "stays (f ())"
  shows "loc (pbind (ask (SetDriverLocation d lat lng c z) un_unit) f) (Some d)"
  by (rule obeys_pbindI [where R = "\<lambda>_ _. True"])
    (auto simp: obeys_ask loc_allowed_def assms intro: stays_loc)

lemma loc_update_location: "loc (update_driver_location h cfg d lat lng) s"
  unfolding update_driver_location_def update_location_def driver_get_by_id_def Let_def pbind_assoc
  by (rule loc_get_driver)
    (auto simp: pbind_assoc intro!: loc_set_location all_calls_intros)

lemma loc_handle: "loc p s \<Longrightarrow> loc (respond st f p) s"
  unfolding respond_def by (rule obeys_handleI [where R = "\<lambda>_ _. True"]) auto

lemma loc_stays: "stays p \<Longrightarrow> loc (respond st f p) s"
  by (rule loc_handle) (rule stays_loc)

lemma loc_serve: "loc (serve h cfg vtext req) s"
proof (cases "\<exists>d lat lng. req = PatchDriverLocation d lat lng")
  case True
  then show ?thesis by (auto simp: serve_def intro!: loc_handle [OF loc_update_location])
next
  case False
  then show ?thesis
    by (cases req)
      (auto intro!: loc_stays stays_handlers all_calls_intros
        simp: serve_def list_drivers_def create_driver_def get_driver_def create_rider_def get_ride_def cancel_ride_def
          complete_ride_def get_zone_surge_def get_stats_def surge_by_zone_def health_def stays_defs split: option.split)
qed

section \<open>Who waits for whom\<close>

definition locks_driver :: "tid \<Rightarrow> world \<Rightarrow> bool" where
  "locks_driver t w \<longleftrightarrow> (\<exists>i. row_lock (w_drivers w) i = Some t)"

definition locks_ride :: "tid \<Rightarrow> world \<Rightarrow> bool" where
  "locks_ride t w \<longleftrightarrow> (\<exists>i. row_lock (w_rides w) i = Some t)"

definition fresh_id :: "uuid \<Rightarrow> world \<Rightarrow> bool" where
  "fresh_id i w \<longleftrightarrow> i \<notin> set (row_ids (w_drivers w)) \<and> i \<notin> set (row_ids (w_rides w))
     \<and> i \<notin> set (row_ids (w_riders w)) \<and> i \<notin> (fst \<circ> snd) ` set (w_redis w)"

lemma fresh_id_exists: "\<exists>i. fresh_id i w"
proof -
  let ?A = "set (row_ids (w_drivers w)) \<union> set (row_ids (w_rides w)) \<union> set (row_ids (w_riders w))
      \<union> (fst \<circ> snd) ` set (w_redis w)"
  have "finite ?A" by simp
  then have "\<exists>i. i \<notin> ?A" by (rule ex_new_if_finite [OF infinite_UNIV_listI])
  then show ?thesis unfolding fresh_id_def by blast
qed

text \<open>A blocked flush waits for the driver it would write.\<close>

lemma flush_drivers_blocked:
  "flush_drivers t now xs T = FlushBlocked \<Longrightarrow> \<exists>i. dirty xs i \<and> locked_by_other t T i"
proof (induction xs arbitrary: T)
  case (Cons p xs)
  obtain i l c where p: "p = (i, l, c)" by (cases p) auto
  have more: "dirty xs j \<Longrightarrow> dirty (p # xs) j" for j by (auto simp: dirty_def)
  have put: "locked_by_other t (put t i y T) j \<Longrightarrow> locked_by_other t T j" for y j
    by (auto simp: locked_by_other_iff split: if_splits)
  consider "l = c" | "l \<noteq> c" "locked_by_other t T i" | "l \<noteq> c" "\<not> locked_by_other t T i" by blast
  then show ?case
  proof cases
    case 1
    then show ?thesis using Cons more by (force simp: p)
  next
    case 2
    then show ?thesis by (auto simp: p dirty_def)
  next
    case 3
    then obtain x where "flush_drivers t now xs (put t i (driver_delta now l c x) T) = FlushBlocked"
      using Cons.prems by (auto simp: p split: option.splits)
    then show ?thesis using Cons.IH more put by blast
  qed
qed simp

lemma flush_blocked:
  assumes "flush_world t w = FlushBlocked" and "objects_ok p (w_sessions w t)"
  obtains i where "dirty (id_drivers (w_sessions w t)) i" "locked_by_other t (w_drivers w) i"
proof -
  have "flush_rides t n (id_rides (w_sessions w t)) T = Flushed T" for n T
    by (rule flush_rides_clean) (rule objects_ok_rides [OF assms(2)])
  then have "flush_drivers t (now_seconds w) (id_drivers (w_sessions w t)) (w_drivers w) = FlushBlocked"
    using assms(1) by (auto simp: flush_world_def split: flushed.splits)
  then show thesis using flush_drivers_blocked that by blast
qed

lemma locked_other_driver: "locked_by_other t (w_drivers w) i \<Longrightarrow> \<exists>t'. t' \<noteq> t \<and> locks_driver t' w"
  by (auto simp: locked_by_other_iff locks_driver_def)

lemma locked_other_ride: "locked_by_other t (w_rides w) i \<Longrightarrow> \<exists>t'. t' \<noteq> t \<and> locks_ride t' w"
  by (auto simp: locked_by_other_iff locks_ride_def)

lemma flush_waits:
  assumes block: "flush_world t w = FlushBlocked" and phase: "in_phase p t w"
  shows "\<not> locks_driver t w \<and> (\<exists>t'. t' \<noteq> t \<and> locks_driver t' w)"
proof -
  have o: "objects_ok p (w_sessions w t)" and locks: "driver_locks_ok p t (w_drivers w)"
    using phase by (simp_all add: in_phase_def)
  obtain i where i: "dirty (id_drivers (w_sessions w t)) i" "locked_by_other t (w_drivers w) i"
    using flush_blocked [OF block o] .
  have "\<not> locks_driver t w"
    using objects_ok_dirty(1) [OF o i(1)] locks i(2)
    by (cases p) (auto simp: driver_locks_ok_def locks_driver_def locked_by_other_iff)
  then show ?thesis using locked_other_driver [OF i(2)] by blast
qed

lemma write_ride_waits: "write_ride t i x (w_rides w) = Blocked \<Longrightarrow> \<exists>t'. t' \<noteq> t \<and> locks_ride t' w"
  by (auto simp: write_ride_def Let_def unique_check_def list_ex_iff split: if_splits option.splits
      dest: locked_other_ride)

lemma holds_nothing:
  assumes "in_phase p t w" and "p = Idle \<or> (\<exists>d. p = Claimed d)"
  shows "\<not> locks_driver t w \<and> \<not> locks_ride t w"
  using assms by (auto simp: in_phase_def driver_locks_ok_def locks_driver_def locks_ride_def)

text \<open>A call without a failing dependency either gets an answer or waits for a lock.\<close>

definition set_ready :: "call \<Rightarrow> tid \<Rightarrow> world \<Rightarrow> bool" where
  "set_ready c t w =
     (case c of SetDriverLocation d _ _ _ _ \<Rightarrow> map_of (id_drivers (w_sessions w t)) d \<noteq> None \<or> broken (w_sessions w t)
      | _ \<Rightarrow> True)"

lemma other_call_answers:
  assumes "fresh_id i w" and "\<not> database_call c"
  shows "exec t (smooth i) c w \<noteq> None"
  using assms by (cases c) (auto simp: exec_def smooth_def fresh_id_def split: prod.split)

definition waits_for_driver :: "tid \<Rightarrow> world \<Rightarrow> bool" where
  "waits_for_driver t w \<longleftrightarrow> \<not> locks_driver t w \<and> (\<exists>t'. t' \<noteq> t \<and> locks_driver t' w)"

definition waits_for_ride :: "tid \<Rightarrow> world \<Rightarrow> bool" where
  "waits_for_ride t w \<longleftrightarrow> \<not> locks_driver t w \<and> \<not> locks_ride t w \<and> (\<exists>t'. t' \<noteq> t \<and> locks_ride t' w)"

lemma update_ride_waits:
  assumes "update_ride t i from_st to_st vals w = None" and "in_phase p t w" and "p = Idle \<or> (\<exists>d. p = Claimed d)"
  shows "waits_for_ride t w"
proof -
  have "\<exists>t'. t' \<noteq> t \<and> locks_ride t' w"
    using assms(1) by (auto simp: update_ride_def split: option.splits if_splits written.splits
        dest: locked_other_ride write_ride_waits)
  then show ?thesis using holds_nothing [OF assms(2,3)] by (simp add: waits_for_ride_def)
qed

lemma insert_ride_waits:
  assumes "insert_ride_row t i rider lat lng k z m w = None" and "in_phase Idle t w" and "fresh_id i w"
  shows "waits_for_ride t w"
proof -
  have "\<exists>t'. t' \<noteq> t \<and> locks_ride t' w"
    using assms(1,3) by (auto simp: insert_ride_row_def Let_def fresh_id_def split: option.splits if_splits written.splits
        dest: write_ride_waits)
  then show ?thesis using holds_nothing [OF assms(2)] by (simp add: waits_for_ride_def)
qed

lemma flush_then_waits:
  assumes "flush_then t w f = None" and "in_phase p t w" and "\<And>w'. f w' \<noteq> None"
  shows "waits_for_driver t w"
proof -
  have "flush_world t w = FlushBlocked"
    using assms(1,3) by (cases "flush_world t w") (simp_all add: flush_then_def)
  then show ?thesis using flush_waits [OF _ assms(2)] by (simp add: waits_for_driver_def)
qed

lemma set_status_answers:
  assumes "in_phase p t w" and "(st = BUSY \<and> p = Seen d) \<or> (st = AVAILABLE \<and> (\<exists>r. p = Found r d))"
  shows "set_driver t d f w \<noteq> None"
  using assms by (auto simp: in_phase_def objects_ok_def set_driver_def)

lemma loads_answer: "load_driver_row t i w \<noteq> None" "load_ride_row t i w \<noteq> None"
  by (simp_all add: load_driver_row_def load_ride_row_def split: option.split)

lemma call_answers_or_waits:
  assumes phase: "in_phase p t w" and allowed: "tx_allowed p c" and ready: "set_ready c t w" and fresh: "fresh_id i w"
    and stuck: "exec t (smooth i) c w = None"
  shows "waits_for_driver t w \<or> waits_for_ride t w"
proof -
  have db: "database_call c" using other_call_answers [OF fresh] stuck by blast
  with stuck have nb: "\<not> broken (w_sessions w t)" and ex: "exec_db t (smooth i) c w = None"
    by (auto simp: exec_def smooth_def split: if_splits)
  then have p: "p \<noteq> Broken" using phase by (simp add: in_phase_def)
  note flush = flush_then_waits [OF _ phase]
  show ?thesis
  proof (cases c)
    case (UpdateRide r from_st to_st vals)
    then have "p = Idle \<or> (\<exists>d. p = Claimed d)" using allowed p by (auto simp: tx_allowed_def)
    then show ?thesis using update_ride_waits [OF _ phase] ex UpdateRide by simp
  next
    case (InsertRide rider lat lng k z m)
    then have "p = Idle" using allowed p by (simp add: tx_allowed_def)
    then show ?thesis using insert_ride_waits [OF _ _ fresh] ex InsertRide phase by (simp add: flush_idle smooth_def)
  next
    case (SetDriverStatus d st)
    then have "set_driver t d (\<lambda>x. x\<lparr>d_status := st\<rparr>) w \<noteq> None"
      using allowed p by (intro set_status_answers [OF phase]) (auto simp: tx_allowed_def)
    then show ?thesis using ex SetDriverStatus by simp
  next
    case Flush
    then show ?thesis using flush [of "\<lambda>w. Some (RUnit, w)"] ex by simp
  next
    case Commit
    then show ?thesis using flush [of "\<lambda>w. Some (RUnit, commit_world t w)"] ex by simp
  next
    case (InsertDriver lat lng h z st)
    then show ?thesis
      using ex flush [of "insert_driver t i lat lng h z st"] fresh allowed p phase
      by (simp add: tx_allowed_def flush_idle smooth_def insert_driver_def fresh_id_def Let_def)
  next
    case (InsertRider lat lng)
    then show ?thesis
      using ex fresh allowed p phase
      by (simp add: tx_allowed_def flush_idle smooth_def insert_rider_def fresh_id_def Let_def)
  next
    case (SetDriverLocation d lat lng h z)
    then show ?thesis using ex ready nb by (auto simp: set_ready_def set_driver_def)
  next
    case (SetRideStatus r st)
    then show ?thesis using allowed p by (simp add: tx_allowed_def)
  qed (use ex db in \<open>auto simp: smooth_def Let_def loads_answer split: option.splits if_splits\<close>)
qed

section \<open>Some request can always go on\<close>

text \<open>A thread can go on when its next call gets an answer, no dependency failing, or when its handler has
  ended and its session can be closed.\<close>

fun ended_prog :: "'a prog \<Rightarrow> bool" where
  "ended_prog (Call c k) = False"
| "ended_prog _ = True"

inductive smooth_step :: "config \<Rightarrow> config \<Rightarrow> bool" where
  answer: "threads C t = Some (Call c k) \<Longrightarrow> exec t (smooth i) c (the_world C) = Some (r, w') \<Longrightarrow>
    smooth_step C \<lparr>the_world = w', threads = (threads C)(t := Some (k r))\<rparr>"
| close: "threads C t = Some p \<Longrightarrow> ended_prog p \<Longrightarrow> smooth_step C (close_db t C)"

lemma smooth_step_step: "smooth_step C C' \<Longrightarrow> step h cfg vtext C C'"
  by (induction rule: smooth_step.induct) (auto intro: step.intros)

definition loc_ok :: "config \<Rightarrow> bool" where
  "loc_ok C \<longleftrightarrow>
     (\<forall>t p. threads C t = Some p \<longrightarrow>
        (\<exists>s. loc p s \<and> (\<forall>d. s = Some d \<longrightarrow> map_of (id_drivers (w_sessions (the_world C) t)) d \<noteq> None
                                      \<or> broken (w_sessions (the_world C) t))))"

definition can_go_on :: "config \<Rightarrow> tid \<Rightarrow> bool" where
  "can_go_on C t \<longleftrightarrow>
     (\<exists>p. threads C t = Some p \<and>
        (ended_prog p \<or> (\<exists>c k i. p = Call c k \<and> exec t (smooth i) c (the_world C) \<noteq> None)))"

lemma goes_on_or_waits:
  assumes inv: "service_inv C" "loc_ok C" and t: "threads C t \<noteq> None" and "\<not> can_go_on C t"
  shows "waits_for_driver t (the_world C) \<or> waits_for_ride t (the_world C)"
proof -
  from t obtain q where q: "threads C t = Some q" by auto
  with assms(4) obtain c k where c: "q = Call c k" by (cases q) (auto simp: can_go_on_def)
  obtain p where p: "in_phase p t (the_world C)" and tx: "tx q (\<lambda>_ _. True) p"
    using inv(1) q by (auto simp: service_inv_def thread_ok_def dest!: spec [of _ t])
  obtain s where s: "loc q s" "\<And>d. s = Some d \<Longrightarrow> map_of (id_drivers (w_sessions (the_world C) t)) d \<noteq> None
      \<or> broken (w_sessions (the_world C) t)"
    using inv(2) q unfolding loc_ok_def by blast
  have ready: "set_ready c t (the_world C)"
    using s by (auto simp: c set_ready_def loc_allowed_def split: call.splits)
  obtain i where i: "fresh_id i (the_world C)" using fresh_id_exists by blast
  show ?thesis
  proof (rule call_answers_or_waits [OF p _ ready i])
    show "tx_allowed p c" using tx by (simp add: c)
    show "exec t (smooth i) c (the_world C) = None"
      using assms(4) q c unfolding can_go_on_def by blast
  qed
qed

lemma lock_holder_active:
  assumes "service_inv C" and "locks_driver t (the_world C) \<or> locks_ride t (the_world C)"
  shows "threads C t \<noteq> None"
proof
  assume "threads C t = None"
  then have "in_phase Idle t (the_world C)"
    using assms(1) by (auto simp: service_inv_def thread_ok_def dest!: spec [of _ t])
  then show False using holds_nothing [of Idle t] assms(2) by simp
qed

text \<open>The chain of waiting requests ends after at most two steps.\<close>

lemma some_request_goes_on:
  assumes inv: "service_inv C" "loc_ok C" and t: "threads C t \<noteq> None"
  shows "\<exists>t'. can_go_on C t'"
proof -
  note waits = goes_on_or_waits [OF inv]
  have driver: "can_go_on C t'" if "locks_driver t' (the_world C)" for t'
    using waits [of t'] lock_holder_active [OF inv(1), of t'] that
    by (auto simp: waits_for_driver_def waits_for_ride_def)
  have ride: "\<exists>t''. can_go_on C t''" if "locks_ride t' (the_world C)" for t'
    using waits [of t'] lock_holder_active [OF inv(1), of t'] that driver
    by (auto simp: waits_for_driver_def waits_for_ride_def)
  show ?thesis
    using waits [OF t] driver ride by (auto simp: waits_for_driver_def waits_for_ride_def)
qed

text \<open>The location protocol along a run.\<close>

definition loc_thread :: "http prog \<Rightarrow> session \<Rightarrow> bool" where
  "loc_thread p se \<longleftrightarrow> (\<exists>s. loc p s \<and> (\<forall>d. s = Some d \<longrightarrow> map_of (id_drivers se) d \<noteq> None \<or> broken se))"

lemma loc_ok_iff: "loc_ok C \<longleftrightarrow> (\<forall>t p. threads C t = Some p \<longrightarrow> loc_thread p (w_sessions (the_world C) t))"
  by (simp add: loc_ok_def loc_thread_def)

lemma get_driver_loads:
  assumes "exec t ch (GetDriver d fresh) w = Some (RDriver (Some x), w')"
  shows "map_of (id_drivers (w_sessions w' t)) d \<noteq> None"
  using assms
  by (auto simp: exec_def load_driver_row_def update_conv' split: if_splits option.splits prod.splits)

lemma loc_thread_call:
  assumes call: "loc_thread (Call c k) (w_sessions w t)" and ex: "exec t ch c w = Some (r, w')" and k: "keyed_world w"
  shows "loc_thread (k r) (w_sessions w' t)"
proof -
  from call obtain s where s: "loc (Call c k) s" by (auto simp: loc_thread_def)
  have pl: "plausible c r" by (rule platform_plausible [OF ex k])
  show ?thesis
  proof (cases "\<exists>d fresh x. c = GetDriver d fresh \<and> r = RDriver (Some x)")
    case True
    then obtain d fresh x where c: "c = GetDriver d fresh" and r: "r = RDriver (Some x)" by blast
    have "d_id x = d" using pl by (simp add: c r plausible_def keyed_reply_def)
    then have "loc (k r) (Some d)"
      using s by (auto simp: c r loc_next_def dest: spec [of _ r])
    then show ?thesis using get_driver_loads ex by (auto simp: loc_thread_def c r)
  next
    case False
    then have "loc_next s c r = Some None" by (cases c; cases r) (auto simp: loc_next_def split: option.split)
    then have "loc (k r) None" using s by (auto dest: spec [of _ r])
    then show ?thesis by (auto simp: loc_thread_def)
  qed
qed

definition loc_holds :: "http prog option \<Rightarrow> tid \<Rightarrow> world \<Rightarrow> bool" where
  "loc_holds q t w \<longleftrightarrow> (\<forall>p. q = Some p \<longrightarrow> loc_thread p (w_sessions w t))"

interpretation located: thread_fact h cfg vtext loc_holds for h cfg vtext
proof
  fix C t c k ch r w'
  assume "service_inv C" "loc_holds (Some (Call c k)) t (the_world C)" "exec t ch c (the_world C) = Some (r, w')"
  then show "loc_holds (Some (k r)) t w'"
    using loc_thread_call by (simp add: loc_holds_def service_inv_def)
next
  fix C t req
  show "loc_holds (Some (serve h cfg vtext req)) t (the_world C)"
    using loc_serve [of h cfg vtext req None] by (auto simp: loc_holds_def loc_thread_def)
qed (simp_all add: loc_holds_def untouched_def)

lemma finite_threads: "reachable h cfg vtext C \<Longrightarrow> finite {t. threads C t \<noteq> None}"
proof (induction rule: reachable.induct)
  case (step C C')
  from step(2) have "\<exists>t. {x. threads C' x \<noteq> None} \<subseteq> insert t {x. threads C x \<noteq> None}"
    by cases (auto simp: close_db_def)
  then show ?case using step(3) finite_subset by blast
qed (simp add: init_config_def)

lemma reachable_threads:
  assumes "reachable h cfg vtext C"
  shows "loc_ok C \<and> finite {t. threads C t \<noteq> None}"
  using located.holds_reachable [OF assms] finite_threads [OF assms] by (simp add: loc_ok_iff loc_holds_def)

section \<open>Every mix of requests can be served to the end\<close>

definition subprog :: "('a prog \<times> 'a prog) set" where
  "subprog = {(k r, Call c k) | c k r. True}"

lemma wf_subprog: "wf subprog"
  unfolding wf_def
proof (intro allI impI)
  fix P :: "'a prog \<Rightarrow> bool" and p assume step: "\<forall>x. (\<forall>y. (y, x) \<in> subprog \<longrightarrow> P y) \<longrightarrow> P x"
  show "P p"
  proof (induction p)
    case (Call c k)
    then have "\<forall>y. (y, Call c k) \<in> subprog \<longrightarrow> P y" by (auto simp: subprog_def)
    then show ?case using step by blast
  qed (use step in \<open>auto simp: subprog_def\<close>)
qed

definition in_flight :: "config \<Rightarrow> http prog multiset" where
  "in_flight C = image_mset (\<lambda>t. the (threads C t)) (mset_set {t. threads C t \<noteq> None})"

lemma in_flight_split:
  assumes "{x. threads C x \<noteq> None} = insert t A" and "finite A" and "t \<notin> A"
  shows "in_flight C = add_mset (the (threads C t)) (image_mset (\<lambda>t. the (threads C t)) (mset_set A))"
  unfolding in_flight_def assms(1) using assms(2,3) by simp

lemma other_threads_same:
  "finite A \<Longrightarrow> t \<notin> A \<Longrightarrow> image_mset (\<lambda>x. the ((f(t := y)) x)) (mset_set A) = image_mset (\<lambda>x. the (f x)) (mset_set A)"
  by (rule image_mset_cong) auto

lemma smooth_step_decreases:
  assumes "smooth_step C C'" and fin: "finite {t. threads C t \<noteq> None}"
  shows "(in_flight C', in_flight C) \<in> mult subprog"
  using assms(1)
proof cases
  case (answer t c k i r w')
  let ?A = "{x. threads C x \<noteq> None} - {t}"
  let ?rest = "image_mset (\<lambda>t. the (threads C t)) (mset_set ?A)"
  have A: "finite ?A" "t \<notin> ?A" using fin by auto
  have "{x. threads C' x \<noteq> None} = insert t ?A" "{x. threads C x \<noteq> None} = insert t ?A" using answer by auto
  then have "in_flight C' = add_mset (k r) ?rest" "in_flight C = add_mset (Call c k) ?rest"
    using in_flight_split [of C' t ?A] in_flight_split [of C t ?A] A other_threads_same [OF A] answer(1,2) by simp_all
  moreover have "(k r, Call c k) \<in> subprog" by (auto simp: subprog_def)
  ultimately show ?thesis
    using one_step_implies_mult [of "{#Call c k#}" "{#k r#}" subprog ?rest] by simp
next
  case (close t p)
  let ?A = "{x. threads C x \<noteq> None} - {t}"
  let ?rest = "image_mset (\<lambda>t. the (threads C t)) (mset_set ?A)"
  have A: "finite ?A" "t \<notin> ?A" using fin by auto
  have set: "{x. threads C' x \<noteq> None} = ?A" "{x. threads C x \<noteq> None} = insert t ?A"
    using close by (auto simp: close_db_def)
  have "in_flight C' = ?rest"
    unfolding in_flight_def set(1) using other_threads_same [OF A, of "threads C" None] by (simp add: close close_db_def)
  moreover have "in_flight C = add_mset p ?rest"
    using in_flight_split [OF set(2) A] close by simp
  ultimately show ?thesis using one_step_implies_mult [of "{#p#}" "{#}" subprog ?rest] by simp
qed

lemma can_go_on_step: "can_go_on C t \<Longrightarrow> \<exists>C'. smooth_step C C'"
  unfolding can_go_on_def by (fastforce intro: smooth_step.intros)

lemma serves_to_the_end:
  "reachable h cfg vtext C \<Longrightarrow> \<exists>C'. smooth_step\<^sup>*\<^sup>* C C' \<and> (\<forall>t. threads C' t = None)"
proof (induction C rule: wf_induct_rule [OF wf_inv_image [OF wf_mult [OF wf_subprog], of in_flight]])
  case (1 C)
  note inv = inv_reachable [OF 1(2)] reachable_threads [OF 1(2)]
  show ?case
  proof (cases "\<forall>t. threads C t = None")
    case False
    then obtain C1 where step: "smooth_step C C1"
      using some_request_goes_on inv can_go_on_step by blast
    have "reachable h cfg vtext C1" by (rule reachable.step [OF 1(2) smooth_step_step [OF step]])
    moreover have "(C1, C) \<in> inv_image (mult subprog) in_flight"
      using smooth_step_decreases [OF step] inv by simp
    ultimately show ?thesis using 1(1) step by (meson converse_rtranclp_into_rtranclp)
  qed auto
qed

text \<open>C7: requests never deadlock. In every reachable state some request in flight can go on, with no
  dependency failing: the waiting for row locks and for uncommitted keys never goes in a circle. And from
  every reachable state all requests in flight can be served to their end, each by calls that the database
  answers, and its session closed.\<close>

theorem requests_never_deadlock:
  assumes "reachable h cfg vtext C"
  shows "(threads C t \<noteq> None \<longrightarrow> (\<exists>t'. can_go_on C t'))
    \<and> (\<exists>C'. smooth_step\<^sup>*\<^sup>* C C' \<and> (\<forall>t. threads C' t = None))"
  using some_request_goes_on inv_reachable [OF assms] reachable_threads [OF assms] serves_to_the_end [OF assms]
  by blast

end
