(* ===== verification/Acknowledged.thy ===== *)
theory Acknowledged
  imports Progress
begin

text \<open>
  What a client is told of a ride is committed. A session reads a ride cleanly when its transaction has
  written no ride; every ride in a response was read cleanly before, and what was read cleanly is, or was,
  a committed row, of which the current row is a later version.
\<close>

section \<open>Clean reads\<close>

text \<open>The state, over plausible replies: whether the transaction has written no ride, and the rides read cleanly so far.\<close>

type_synonym reads = "bool \<times> ride set"

fun writes_ride :: "call \<Rightarrow> bool" where
  "writes_ride (InsertRide _ _ _ _ _ _) = True"
| "writes_ride (UpdateRide _ _ _ _) = True"
| "writes_ride (SetRideStatus _ _) = True"
| "writes_ride _ = False"

fun reads_ride :: "call \<Rightarrow> bool" where
  "reads_ride (GetRide _) = True"
| "reads_ride (RefreshRide _) = True"
| "reads_ride _ = False"

definition now_clean :: "bool \<Rightarrow> call \<Rightarrow> reply \<Rightarrow> bool" where
  "now_clean b c r \<longleftrightarrow>
     (if \<not> database_call c then b
      else if \<exists>e. r = RExn e then True
      else if c = Commit \<or> c = Rollback then True
      else if writes_ride c then b \<and> r = RNat 0
      else b)"

definition reads_next :: "reads \<Rightarrow> call \<Rightarrow> reply \<Rightarrow> reads option" where
  "reads_next s c r =
     (if \<not> plausible c r then None
      else Some (now_clean (fst s) c r,
             (case r of RRide (Some x) \<Rightarrow> if fst s \<and> reads_ride c then insert x (snd s) else snd s | _ \<Rightarrow> snd s)))"

abbreviation acks :: "'a prog \<Rightarrow> (exn + 'a \<Rightarrow> reads \<Rightarrow> bool) \<Rightarrow> reads \<Rightarrow> bool" where
  "acks \<equiv> obeys (\<lambda>_ _. True) reads_next"

lemma acks_any: "acks p (\<lambda>_ _. True) s"
  by (induction p arbitrary: s) (auto split: option.split)

abbreviation quiet :: "'a prog \<Rightarrow> bool" where
  "quiet \<equiv> all_calls (\<lambda>c. \<not> writes_ride c)"

text \<open>A program that writes no ride leaves the transaction clean and forgets no read.\<close>

lemma quiet_acks:
  "quiet p \<Longrightarrow> acks p (\<lambda>_ (b, D). (fst s \<longrightarrow> b) \<and> snd s \<subseteq> D) s"
proof (induction p arbitrary: s)
  case (Call c k)
  have "acks (k r) (\<lambda>_ (b, D). (fst s \<longrightarrow> b) \<and> snd s \<subseteq> D) s'" if n: "reads_next s c r = Some s'" for r s'
  proof -
    have s': "(fst s \<longrightarrow> fst s') \<and> snd s \<subseteq> snd s'"
      using n Call.prems by (auto simp: reads_next_def now_clean_def split: reply.splits option.splits if_splits)
    have "acks (k r) (\<lambda>_ (b, D). (fst s' \<longrightarrow> b) \<and> snd s' \<subseteq> D) s'"
      using Call by auto
    then show ?thesis by (rule obeys_mono) (use s' in auto)
  qed
  then show ?case by (simp split: option.split)
qed auto

lemma acks_ask: "acks (ask c proj) Q s \<longleftrightarrow> (\<forall>r s'. reads_next s c r = Some s' \<longrightarrow> Q (ask_result proj r) s')"
  by (simp add: obeys_ask)

text \<open>Committing, and reading a ride from a clean transaction.\<close>

lemma commit_cleans: "acks db_commit (\<lambda>_ (b, D). b) s" "acks db_rollback (\<lambda>_ (b, D). b) s"
  by (auto simp: acks_ask reads_next_def now_clean_def)

definition told :: "exn + ride \<Rightarrow> reads \<Rightarrow> bool" where
  "told res s \<longleftrightarrow> (\<forall>r. res = Inr r \<longrightarrow> r \<in> snd s)"

lemma read_told:
  assumes "fst s" and "reads_ride c"
  shows "acks (must_exist (ask c un_ride)) (\<lambda>res s'. fst s' \<and> told res s') s"
proof -
  have "acks (ask c un_ride) (\<lambda>res s'. fst s' \<and> (\<forall>x. res = Inr (Some x) \<longrightarrow> x \<in> snd s')) s"
    using assms by (cases c)
      (auto simp: acks_ask reads_next_def now_clean_def ask_result_def split: reply.splits option.splits)
  then show ?thesis
    unfolding must_exist_def by (rule obeys_pbindI) (auto simp: told_def split: option.split)
qed

lemma quiet_told:
  assumes "quiet p" and "r \<in> snd s"
  shows "acks (pbind p (\<lambda>_. Return r)) told s"
  by (rule obeys_pbindI [OF quiet_acks [OF assms(1)]]) (use assms(2) in \<open>auto simp: told_def\<close>)

section \<open>The handlers\<close>

lemmas quiet_defs = repo_defs Let_def

lemma quiet_search: "quiet (search_rings h cell target ks cs)"
  by (induction ks arbitrary: cs) (auto intro!: all_calls_intros simp: quiet_defs split: sum.split if_split)

lemma quiet_lock: "quiet (acquire_driver_lock cfg d)" "quiet (release_lock k tk)"
  by (auto intro!: all_calls_intros simp: acquire_driver_lock_def acquire_lock_def release_lock_def split: option.split)

lemma acks_finish: "acks (finish_ride from_st to_st ev i) told s"
  unfolding finish_ride_def
proof (rule obeys_pbindI [OF acks_any])
  fix r s1
  show "acks (pbind (free_driver r) (\<lambda>_. pbind db_commit (\<lambda>_. pbind (refresh_ride (r_id r)) (\<lambda>ride.
       pbind (emit_event ev [(''ride_id'', JStr (r_id ride)),
        (''driver_id'', case r_driver_id ride of Some d \<Rightarrow> JStr d | None \<Rightarrow> JNull)]) (\<lambda>_. Return ride))))) told s1"
  proof (rule obeys_pbindI [OF acks_any], rule obeys_pbindI [OF commit_cleans(1)])
    fix s2 :: reads assume "case s2 of (b, D) \<Rightarrow> b"
    then have "fst s2" by auto
    then show "acks (pbind (refresh_ride (r_id r)) (\<lambda>ride.
       pbind (emit_event ev [(''ride_id'', JStr (r_id ride)),
        (''driver_id'', case r_driver_id ride of Some d \<Rightarrow> JStr d | None \<Rightarrow> JNull)]) (\<lambda>_. Return ride))) told s2"
      by (intro obeys_pbindI [OF read_told]) (auto intro!: quiet_told simp: told_def)
  qed (auto simp: told_def)
qed (simp add: told_def)

text \<open>The matcher ends clean, and with a ride read cleanly.\<close>

definition clean_told :: "exn + ride option \<Rightarrow> reads \<Rightarrow> bool" where
  "clean_told res s \<longleftrightarrow> fst s \<and> (\<forall>r. res = Inr (Some r) \<longrightarrow> r \<in> snd s)"

lemma quiet_clean: "quiet p \<Longrightarrow> fst s \<Longrightarrow> acks p (\<lambda>_ s'. fst s') s"
  by (rule obeys_mono [OF quiet_acks]) auto

lemma quiet_clean_told:
  "quiet p \<Longrightarrow> fst s \<Longrightarrow> acks (pbind p (\<lambda>_. Raise e)) clean_told s"
  "quiet p \<Longrightarrow> fst s \<Longrightarrow> acks (pbind p (\<lambda>_. Return None)) clean_told s"
  by (rule obeys_pbindI [OF quiet_clean]; auto simp: clean_told_def)+

lemma acks_update:
  assumes "fst s"
  shows "acks (transition_status i from_st to_st vals) (\<lambda>res s'. res = Inr True \<or> fst s') s"
proof -
  have "acks (ask (UpdateRide i from_st to_st vals) un_nat) (\<lambda>res s'. (\<exists>n. res = Inr n \<and> 0 < n) \<or> fst s') s"
    using assms
    by (auto simp: acks_ask reads_next_def now_clean_def ask_result_def plausible_def split: reply.splits option.splits)
  then show ?thesis
    unfolding transition_status_def by (rule obeys_pbindI) auto
qed

lemma acks_assigned:
  "acks (handle db_commit
      (\<lambda>_. pbind (refresh_ride i) (\<lambda>ride'. pbind (load_driver d) (\<lambda>driver'. pbind (emit_event ev (data ride' driver')) (\<lambda>_. Return (Some ride')))))
      (\<lambda>e. if e = IntegrityError then pbind db_rollback (\<lambda>_. pbind (load_driver d') (\<lambda>_. Return None)) else Raise e))
    clean_told s"
proof (rule obeys_handleI [OF commit_cleans(1)])
  fix s' :: reads assume "case s' of (b, D) \<Rightarrow> b"
  then have s': "fst s'" by auto
  show "acks (pbind (refresh_ride i) (\<lambda>ride'. pbind (load_driver d) (\<lambda>driver'. pbind (emit_event ev (data ride' driver')) (\<lambda>_. Return (Some ride')))))
      clean_told s'"
  proof (rule obeys_pbindI [OF read_told [OF s']])
    fix r s2 assume "fst s2 \<and> told (Inr r) s2"
    then have s2: "fst s2" "r \<in> snd s2" by (auto simp: told_def)
    have "acks (pbind (load_driver d) (\<lambda>x. emit_event ev (data r x))) (\<lambda>_ (b, D). (fst s2 \<longrightarrow> b) \<and> snd s2 \<subseteq> D) s2"
      by (rule quiet_acks) (auto intro!: all_calls_intros)
    then have "acks (pbind (pbind (load_driver d) (\<lambda>x. emit_event ev (data r x))) (\<lambda>_. Return (Some r))) clean_told s2"
      by (rule obeys_pbindI) (use s2 in \<open>auto simp: clean_told_def\<close>)
    then show "acks (pbind (load_driver d) (\<lambda>driver'. pbind (emit_event ev (data r driver')) (\<lambda>_. Return (Some r)))) clean_told s2"
      by (simp add: pbind_assoc)
  qed (auto simp: clean_told_def)
next
  fix e and s' :: reads assume "case s' of (b, D) \<Rightarrow> b"
  then have s': "fst s'" by auto
  have "acks (pbind (pbind db_rollback (\<lambda>_. load_driver d')) (\<lambda>_. Return None)) clean_told s'"
    by (rule quiet_clean_told(2) [OF _ s']) (auto intro!: all_calls_intros)
  then show "acks (if e = IntegrityError then pbind db_rollback (\<lambda>_. pbind (load_driver d') (\<lambda>_. Return None)) else Raise e)
      clean_told s'"
    using s' by (simp add: pbind_assoc clean_told_def)
qed

lemma acks_abort:
  assumes "fst s"
  shows "acks (pbind db_rollback (\<lambda>_. pbind (load_ride i) (\<lambda>ride'. Raise (f ride')))) clean_told s"
proof (rule obeys_pbindI [OF quiet_clean [OF _ assms]])
  fix s2 assume s2: "fst (s2 :: reads)"
  show "acks (pbind (load_ride i) (\<lambda>ride'. Raise (f ride'))) clean_told s2"
    by (rule obeys_pbindI [OF quiet_clean [OF _ s2]]) (auto simp: clean_told_def intro!: all_calls_intros)
qed (auto simp: clean_told_def)

lemma acks_assign:
  assumes "fst s"
  shows "acks (assign_candidate ride candidate) clean_told s"
  unfolding assign_candidate_def
proof (rule obeys_pbindI [OF quiet_clean [OF _ assms]])
  show "quiet (driver_get_by_id (d_id candidate) True)" by (simp add: driver_get_by_id_def)
  fix found s1 assume s1: "fst (s1 :: reads)"
  have claim: "acks (pbind (ask (SetDriverStatus d BUSY) un_unit) (\<lambda>_. pbind utc_now (\<lambda>now.
      pbind (transition_status i [REQUESTED] MATCHED [DriverId d, MatchedAt now]) f))) clean_told s1"
    if "\<And>s'. acks (f True) clean_told s'" "\<And>s'. fst s' \<Longrightarrow> acks (f False) clean_told s'" for d i f
  proof (rule obeys_pbindI [OF quiet_clean [OF _ s1]])
    fix s2 assume "fst (s2 :: reads)"
    then show "acks (pbind utc_now (\<lambda>now.
      pbind (transition_status i [REQUESTED] MATCHED [DriverId d, MatchedAt now]) f)) clean_told s2"
    proof (rule obeys_pbindI [OF quiet_clean [rotated]])
      fix now s3 assume "fst (s3 :: reads)"
      from acks_update [OF this] show "acks (pbind (transition_status i [REQUESTED] MATCHED [DriverId d, MatchedAt now]) f) clean_told s3"
      proof (rule obeys_pbindI)
        fix b s' assume "Inr b = Inr True \<or> fst (s' :: reads)"
        then show "acks (f b) clean_told s'" using that by (cases b) auto
      qed (auto simp: clean_told_def)
    qed (auto simp: clean_told_def)
  qed (auto simp: clean_told_def)
  show "acks (case found of None \<Rightarrow> Return None | Some driver \<Rightarrow>
      if d_status driver \<noteq> AVAILABLE then Return None
      else pbind (ask (SetDriverStatus (d_id driver) BUSY) un_unit) (\<lambda>_.
          pbind utc_now (\<lambda>now.
          pbind (transition_status (r_id ride) [REQUESTED] MATCHED
                   [DriverId (d_id driver), MatchedAt now]) (\<lambda>transitioned.
          if \<not> transitioned then
            pbind db_rollback (\<lambda>_.
            pbind (load_ride (r_id ride)) (\<lambda>ride'.
            Raise (InvalidRideStateError (''ride '' @ r_id ride' @
              '' is no longer REQUESTED (concurrently cancelled or completed?)''))))
          else
            handle db_commit
              (\<lambda>_. pbind (refresh_ride (r_id ride)) (\<lambda>ride'.
                   pbind (load_driver (d_id driver)) (\<lambda>driver'.
                   pbind (emit_event ''DRIVER_ASSIGNED''
                     [(''ride_id'', JStr (r_id ride')), (''driver_id'', JStr (d_id driver')),
                      (''pickup_lat'', JNum (pickup_lat ride')), (''pickup_lng'', JNum (pickup_lng ride'))]) (\<lambda>_.
                   Return (Some ride')))))
              (\<lambda>e. if e = IntegrityError
                   then pbind db_rollback (\<lambda>_. pbind (load_driver (d_id candidate)) (\<lambda>_. Return None))
                   else Raise e))))) clean_told s1"
    using s1 by (auto simp: clean_told_def split: option.split intro!: claim acks_assigned acks_abort)
qed (simp add: clean_told_def)

definition settled :: "exn + ride \<Rightarrow> reads \<Rightarrow> bool" where
  "settled res s \<longleftrightarrow> fst s \<and> told res s"

lemma settled_simps [simp]:
  "settled (Inl e) s \<longleftrightarrow> fst s" "settled (Inr r) s \<longleftrightarrow> fst s \<and> r \<in> snd s"
  by (auto simp: settled_def told_def)

lemma quiet_then:
  assumes "quiet p" and "fst s" and "\<And>x s'. fst s' \<Longrightarrow> acks (q x) settled s'"
  shows "acks (pbind p q) settled s"
  by (rule obeys_pbindI [OF quiet_clean [OF assms(1,2)]]) (use assms(3) in simp_all)

text \<open>What holds of the loop: clean at its end, and a ride it returns was read cleanly.\<close>

lemma acks_try:
  assumes "fst s"
  shows "acks (try_candidates cfg ride cs) settled s"
  using assms
proof (induction cfg ride cs arbitrary: s rule: try_candidates.induct)
  case (1 cfg ride s)
  then have "acks (emit_event ev x) (\<lambda>_ s'. fst s') s" for ev x by (intro quiet_clean) auto
  then show ?case by (auto intro!: obeys_pbindI)
next
  case (2 cfg ride candidate dist rest s)
  let ?Q = settled
  have locked: "acks (pbind (try_finally (assign_candidate ride candidate) (release_lock (lock_key (d_id candidate)) token))
      (\<lambda>oc. case oc of Some matched \<Rightarrow> Return matched | None \<Rightarrow> try_candidates cfg ride rest)) ?Q s'"
    if s': "fst s'" for token s'
  proof (rule obeys_pbindI [OF obeys_try_finallyI [OF acks_assign [OF s'], of _ clean_told]])
    fix res s1 assume s1: "clean_told res s1"
    show "acks (release_lock (lock_key (d_id candidate)) token)
        (\<lambda>fin s''. case fin of Inr _ \<Rightarrow> clean_told res s'' | Inl e \<Rightarrow> clean_told (Inl e) s'') s1"
      by (rule obeys_mono [OF quiet_acks [OF quiet_lock(2)]])
        (use s1 in \<open>auto simp: clean_told_def split: sum.split\<close>)
  next
    fix oc s1 assume "clean_told (Inr oc) s1"
    then show "acks (case oc of Some matched \<Rightarrow> Return matched | None \<Rightarrow> try_candidates cfg ride rest) ?Q s1"
      using 2(1,2) by (auto simp: clean_told_def split: option.split)
  qed (auto simp: clean_told_def)
  show ?case
    unfolding try_candidates.simps
    by (rule obeys_pbindI [OF quiet_clean [OF quiet_lock(1) 2(3)]])
      (auto split: option.split intro!: quiet_then locked 2(1,2))
qed

lemma acks_match:
  assumes "fst s"
  shows "acks (match_ride h cfg i) settled s"
  unfolding match_ride_def
proof (rule quiet_then [OF _ assms])
  show "quiet (load_ride i)" by (auto intro!: all_calls_intros)
  fix ride s1 assume s1: "fst (s1 :: reads)"
  have "quiet (find_ranked_candidates h cfg lat lng n k)" for lat lng n k
    unfolding find_ranked_candidates_def Let_def by (auto intro!: all_calls_intros quiet_search)
  then show "acks (if r_status ride \<noteq> REQUESTED
      then Raise (ValueError (''ride '' @ r_id ride @ '' is not in REQUESTED status (got '' @ ride_status_str (r_status ride) @ '')''))
      else pbind (find_ranked_candidates h cfg (pickup_lat ride) (pickup_lng ride)
                (match_target_candidates cfg) (match_max_ring cfg)) (\<lambda>ranked.
       pbind (emit_event ''CANDIDATES_FOUND''
         [(''ride_id'', JStr (r_id ride)), (''candidate_count'', JInt (int (length ranked)))]) (\<lambda>_.
       try_candidates cfg ride ranked))) settled s1"
    using s1 by (cases "r_status ride = REQUESTED") (auto intro!: quiet_then acks_try)
qed

text \<open>Creating a ride ends clean as well: its insert is committed, or failed.\<close>

definition id_clean :: "exn + uuid \<Rightarrow> reads \<Rightarrow> bool" where
  "id_clean res s \<longleftrightarrow> (case res of Inl e \<Rightarrow> True | Inr i \<Rightarrow> fst s)"

lemma id_clean_simps [simp]: "id_clean (Inl e) s" "id_clean (Inr i) s \<longleftrightarrow> fst s"
  by (simp_all add: id_clean_def)

lemma quiet_id: "quiet p \<Longrightarrow> fst s \<Longrightarrow> acks p id_clean s"
  by (rule obeys_mono [OF quiet_clean]) (auto simp: id_clean_def split: sum.split)

lemma acks_insert: "acks (insert_ride cfg rider lat lng key zone surge) id_clean s"
  unfolding insert_ride_def
proof (rule obeys_handleI)
  show "acks (pbind (ride_create rider lat lng key (Some zone) (Some (multiplier surge))) (\<lambda>ride.
        pbind db_commit (\<lambda>_. Return (r_id ride)))) id_clean s"
  proof (rule obeys_pbindI [OF acks_any])
    fix ride s1
    show "acks (pbind db_commit (\<lambda>_. Return (r_id ride))) id_clean s1"
      by (rule obeys_pbindI [OF commit_cleans(1)]) auto
  qed simp
next
  fix i s1 assume "id_clean (Inr i) s1"
  then have s1: "fst s1" by simp
  show "acks (pbind (load_ride i) (\<lambda>_. pbind (emit_event ''RIDE_REQUESTED''
            [(''ride_id'', JStr i), (''rider_id'', JStr rider), (''zone_id'', JStr zone),
             (''surge_multiplier'', JNum (multiplier surge)),
             (''pickup_lat'', JNum lat), (''pickup_lng'', JNum lng)]) (\<lambda>_. Return i))) id_clean s1"
    by (rule quiet_id [OF _ s1]) (auto intro!: all_calls_intros)
next
  fix e s1
  have winner: "quiet (case key of None \<Rightarrow> Raise IntegrityError
              | Some k \<Rightarrow> pbind (get_by_idempotency_key k) (\<lambda>winner.
                  case winner of None \<Rightarrow> Raise IntegrityError | Some w \<Rightarrow> Return (r_id w)))"
    by (auto intro!: all_calls_intros simp: quiet_defs split: option.split list.split)
  have "acks (pbind db_rollback (\<lambda>_. case key of None \<Rightarrow> Raise IntegrityError
              | Some k \<Rightarrow> pbind (get_by_idempotency_key k) (\<lambda>winner.
                  case winner of None \<Rightarrow> Raise IntegrityError | Some w \<Rightarrow> Return (r_id w)))) id_clean s1"
    by (rule obeys_pbindI [OF commit_cleans(2)]) (rule quiet_id [OF winner], auto)
  then show "acks (if e = IntegrityError then pbind db_rollback (\<lambda>_. case key of None \<Rightarrow> Raise IntegrityError
              | Some k \<Rightarrow> pbind (get_by_idempotency_key k) (\<lambda>winner.
                  case winner of None \<Rightarrow> Raise IntegrityError | Some w \<Rightarrow> Return (r_id w)))
           else Raise e) id_clean s1" by simp
qed

lemma acks_create:
  assumes "fst s"
  shows "acks (create_ride h cfg rider lat lng key) id_clean s"
  unfolding create_ride_def
proof (rule obeys_pbindI [OF quiet_clean [OF _ assms]])
  show "quiet (case key of None \<Rightarrow> Return None | Some k \<Rightarrow> get_by_idempotency_key k)"
    by (auto intro!: all_calls_intros simp: quiet_defs split: option.split)
  fix existing s1 assume s1: "fst (s1 :: reads)"
  show "acks (case existing of
       Some ride \<Rightarrow> if \<not> ride_matches ride rider lat lng
         then Raise (IdempotencyKeyConflictError (case key of Some k \<Rightarrow> k | None \<Rightarrow> []) (r_id ride))
         else Return (r_id ride)
     | None \<Rightarrow> let zone_id = zone_id_for_point h lat lng (surge_zone_resolution cfg) in
         pbind (zone_surge cfg zone_id None) (\<lambda>surge. insert_ride cfg rider lat lng key zone_id surge)) id_clean s1"
    using s1 by (auto simp: Let_def split: option.split intro!: obeys_pbindI [OF acks_any] acks_insert)
qed simp

lemma acks_load: "fst s \<Longrightarrow> acks (load_ride i) settled s"
  by (rule obeys_mono [OF read_told]) (auto simp: settled_def)

lemma settled_told: "settled res s \<Longrightarrow> told res s"
  by (simp add: settled_def)

lemma acks_request:
  assumes "fst s"
  shows "acks (request_ride h cfg rider lat lng idem_key) told s"
proof -
  define key where "key = (if idem_key = Some [] then None else idem_key)"
  show ?thesis
    unfolding request_ride_def key_def [symmetric] Let_def
  proof (rule obeys_pbindI [OF acks_create [OF assms]])
    fix i s1 assume "id_clean (Inr i) s1"
    then have s1: "fst s1" by simp
    show "acks (pbind (load_ride i) (\<lambda>ride.
         if r_status ride = REQUESTED then
           pbind perf_counter (\<lambda>start.
           handle (match_ride h cfg i)
             (\<lambda>matched. pbind perf_counter (\<lambda>t. pbind (record_metric OMatched (t - start)) (\<lambda>_. Return matched)))
             (\<lambda>e. case e of
                NoAvailableDriverError _ \<Rightarrow>
                  pbind perf_counter (\<lambda>t. pbind (record_metric OUnmatched (t - start)) (\<lambda>_. load_ride i))
              | _ \<Rightarrow> pbind perf_counter (\<lambda>t. pbind (record_metric OError (t - start)) (\<lambda>_. Raise e))))
         else Return ride)) told s1"
    proof (rule obeys_pbindI [OF acks_load [OF s1]])
      fix ride s2 assume s2: "settled (Inr ride) s2"
      have timed: "acks (pbind perf_counter (\<lambda>t. pbind (record_metric oc (t - start)) (\<lambda>_. q))) settled s'"
        if "fst s'" "\<And>s3. fst s3 \<Longrightarrow> snd s' \<subseteq> snd s3 \<Longrightarrow> acks q settled s3" for oc start q s'
      proof -
        have "acks (pbind (pbind perf_counter (\<lambda>t. record_metric oc (t - start))) (\<lambda>_. q)) settled s'"
          by (rule obeys_pbindI [OF quiet_acks]) (use that in \<open>auto intro!: all_calls_intros\<close>)
        then show ?thesis by (simp add: pbind_assoc)
      qed
      have matching: "acks (handle (match_ride h cfg i)
             (\<lambda>matched. pbind perf_counter (\<lambda>t. pbind (record_metric OMatched (t - start)) (\<lambda>_. Return matched)))
             (\<lambda>e. case e of
                NoAvailableDriverError _ \<Rightarrow>
                  pbind perf_counter (\<lambda>t. pbind (record_metric OUnmatched (t - start)) (\<lambda>_. load_ride i))
              | _ \<Rightarrow> pbind perf_counter (\<lambda>t. pbind (record_metric OError (t - start)) (\<lambda>_. Raise e)))) settled s3"
        if "fst s3" for start s3
        by (rule obeys_handleI [OF acks_match [OF that]])
          (auto intro!: timed acks_load split: exn.split simp: subset_iff)
      have answer: "acks (pbind perf_counter (\<lambda>start.
           handle (match_ride h cfg i)
             (\<lambda>matched. pbind perf_counter (\<lambda>t. pbind (record_metric OMatched (t - start)) (\<lambda>_. Return matched)))
             (\<lambda>e. case e of
                NoAvailableDriverError _ \<Rightarrow>
                  pbind perf_counter (\<lambda>t. pbind (record_metric OUnmatched (t - start)) (\<lambda>_. load_ride i))
              | _ \<Rightarrow> pbind perf_counter (\<lambda>t. pbind (record_metric OError (t - start)) (\<lambda>_. Raise e))))) settled s2"
        using s2 by (intro quiet_then matching) auto
      show "acks (if r_status ride = REQUESTED then
           pbind perf_counter (\<lambda>start.
           handle (match_ride h cfg i)
             (\<lambda>matched. pbind perf_counter (\<lambda>t. pbind (record_metric OMatched (t - start)) (\<lambda>_. Return matched)))
             (\<lambda>e. case e of
                NoAvailableDriverError _ \<Rightarrow>
                  pbind perf_counter (\<lambda>t. pbind (record_metric OUnmatched (t - start)) (\<lambda>_. load_ride i))
              | _ \<Rightarrow> pbind perf_counter (\<lambda>t. pbind (record_metric OError (t - start)) (\<lambda>_. Raise e))))
         else Return ride) told s2"
        using s2 obeys_mono [OF answer, of told] settled_told by (auto simp: told_def [of "Inr _"])
    qed (simp add: told_def)
  qed (simp add: told_def)
qed

lemma acks_get:
  assumes "fst s"
  shows "acks (get_ride i) told s"
proof -
  have "acks (ask (GetRide i) un_ride) (\<lambda>res s'. \<forall>x. res = Inr (Some x) \<longrightarrow> x \<in> snd s') s"
    using assms
    by (auto simp: acks_ask reads_next_def now_clean_def ask_result_def split: reply.splits option.splits)
  then show ?thesis
    unfolding get_ride_def ride_get_by_id_def
    by (rule obeys_pbindI) (auto simp: told_def split: option.split)
qed

section \<open>Responses\<close>

definition told_response :: "http \<Rightarrow> ride set \<Rightarrow> bool" where
  "told_response resp D \<longleftrightarrow> (\<forall>status rr. resp = Response status (BRide rr) \<longrightarrow> (\<exists>r \<in> D. rr = to_ride_response r))"

definition answers_told :: "exn + http \<Rightarrow> reads \<Rightarrow> bool" where
  "answers_told res s \<longleftrightarrow> (\<forall>resp. res = Inr resp \<longrightarrow> told_response resp (snd s))"

lemma errors_tell_nothing [simp]:
  "told_response (error_response status code msg) D" "told_response (handle_exception e) D"
proof -
  show "told_response (error_response status code msg) D" for status code msg
    by (simp add: told_response_def error_response_def)
  then show "told_response (handle_exception e) D"
    by (cases e rule: handle_exception.cases) (simp_all add: told_response_def [of "ServerError _"])
qed

lemma acks_respond_ride:
  assumes "acks p told s"
  shows "acks (respond status (\<lambda>r. BRide (to_ride_response r)) p) answers_told s"
  unfolding respond_def
  by (rule obeys_handleI [OF assms]) (auto simp: answers_told_def told_def told_response_def [of "Response _ _"])

lemma acks_respond_other:
  "(\<And>x rr. f x \<noteq> BRide rr) \<Longrightarrow> acks (respond status f p) answers_told s"
  unfolding respond_def
  by (rule obeys_handleI [OF acks_any]) (auto simp: answers_told_def told_response_def [of "Response _ _"])

lemma acks_health: "acks (respond status (\<lambda>b. b) health) answers_told s"
proof -
  have "acks health (\<lambda>res _. \<forall>b rr. res = Inr b \<longrightarrow> b \<noteq> BRide rr) s"
    unfolding health_def by (rule obeys_pbindI [OF acks_any], rule obeys_pbindI [OF acks_any]) auto
  then show ?thesis
    unfolding respond_def by (rule obeys_handleI) (auto simp: answers_told_def told_response_def [of "Response _ _"])
qed

lemma acks_endpoint: "fst s \<Longrightarrow> acks (endpoint h cfg req) answers_told s"
proof (cases req)
  case PostRide
  then show ?thesis if "fst s" using that by (simp add: acks_respond_ride acks_request)
next
  case ReadRide
  then show ?thesis if "fst s" using that by (simp add: acks_respond_ride acks_get)
next
  case CancelRide
  then show ?thesis by (simp add: acks_respond_ride acks_finish cancel_ride_def)
next
  case CompleteRide
  then show ?thesis by (simp add: acks_respond_ride acks_finish complete_ride_def)
next
  case ReadHealth
  then show ?thesis by (simp add: acks_health)
qed (simp_all add: acks_respond_other)

lemma acks_serve: "fst s \<Longrightarrow> acks (serve h cfg vtext req) answers_told s"
  by (simp add: serve_def acks_endpoint answers_told_def)

section \<open>Clean reads on the platform\<close>

definition durable :: "world \<Rightarrow> ride \<Rightarrow> bool" where
  "durable w r \<longleftrightarrow> (\<exists>r'. lookup (w_rides w) (r_id r) = Some r' \<and> ride_history r r')"

lemma ride_history_refl [simp]: "ride_history r r"
  by (simp add: ride_history_def same_request_def)

lemma committed_durable: "keyed_world w \<Longrightarrow> lookup (w_rides w) i = Some r \<Longrightarrow> durable w r"
  using keyed_table_lookup [of r_id "w_rides w" i r] by (auto simp: durable_def keyed_world_def)

lemma durable_evolves:
  assumes "durable w r" and "rides_evolve w w'" and "fleet_world w"
  shows "durable w' r"
proof -
  obtain r' where r': "lookup (w_rides w) (r_id r) = Some r'" "ride_history r r'"
    using assms(1) by (auto simp: durable_def)
  have "ride_data_ok r'" using assms(3) r'(1) by (auto simp: fleet_world_def fleet_ok_def)
  then obtain x where "lookup (w_rides w') (r_id r) = Some x" "ride_history r' x"
    using evolves_history assms(2) r'(1) unfolding rides_evolve_def by metis
  then show ?thesis using ride_history_trans [OF r'(2)] by (auto simp: durable_def)
qed

text \<open>What the state of a thread's reads says of the platform.\<close>

definition reads_ok :: "reads \<Rightarrow> tid \<Rightarrow> world \<Rightarrow> bool" where
  "reads_ok s t w \<longleftrightarrow>
     (broken (w_sessions w t) \<longrightarrow> id_rides (w_sessions w t) = []) \<and>
     (fst s \<longrightarrow> \<not> locks_ride t w \<and> (\<forall>(i, l, c) \<in> set (id_rides (w_sessions w t)). durable w c)) \<and>
     (\<forall>r \<in> snd s. durable w r)"

text \<open>A statement that writes no ride and ends no transaction leaves the table of rides, and adds to the
  session only rides that it sees.\<close>

definition ride_side :: "tid \<Rightarrow> world \<Rightarrow> world \<Rightarrow> bool" where
  "ride_side t w w' \<longleftrightarrow> w_rides w' = w_rides w \<and> broken (w_sessions w' t) = broken (w_sessions w t) \<and>
     (\<forall>(i, l, c) \<in> set (id_rides (w_sessions w' t)).
        (\<exists>l. (i, l, c) \<in> set (id_rides (w_sessions w t))) \<or> (\<exists>j. view t (w_rides w) j = Some c))"

lemma ride_side_same:
  "w_rides w' = w_rides w \<Longrightarrow> broken (w_sessions w' t) = broken (w_sessions w t)
    \<Longrightarrow> id_rides (w_sessions w' t) = id_rides (w_sessions w t) \<Longrightarrow> ride_side t w w'"
  by (auto simp: ride_side_def)

lemma see_driver_rides [simp]:
  "id_rides (see_driver d se) = id_rides se" "broken (see_driver d se) = broken se"
  "id_rides (fold see_driver ds se) = id_rides se" "broken (fold see_driver ds se) = broken se"
proof -
  show one: "id_rides (see_driver d se) = id_rides se" "broken (see_driver d se) = broken se" for d se
    by (simp_all add: see_driver_def)
  show "id_rides (fold see_driver ds se) = id_rides se" "broken (fold see_driver ds se) = broken se"
    by (induction ds arbitrary: se) (simp_all add: one)
qed

lemma see_rides_broken [simp]: "broken (fold see_ride rs se) = broken se"
  by (induction rs arbitrary: se) (simp_all add: see_ride_def)

lemma see_rides_objects:
  "(i, l, c) \<in> set (id_rides (fold see_ride rs se)) \<Longrightarrow> (i, l, c) \<in> set (id_rides se) \<or> c \<in> set rs"
proof (induction rs arbitrary: se)
  case (Cons x rs)
  have "(i, l, c) \<in> set (id_rides se) \<or> c = x" if "(i, l, c) \<in> set (id_rides (see_ride x se))"
    using that set_update_subset [of "r_id x" "(x, x)" "id_rides se"] by (auto simp: see_ride_def split: if_splits)
  then show ?case using Cons.IH [of "see_ride x se"] Cons.prems by auto
qed simp

lemma load_ride_side:
  assumes "load_ride_row t i w = Some (r, w')"
  shows "ride_side t w w'"
  using assms set_update_subset
  by (fastforce simp: load_ride_row_def ride_side_def split: option.splits)

lemma load_driver_side: "load_driver_row t i w = Some (r, w') \<Longrightarrow> ride_side t w w'"
  by (auto simp: load_driver_row_def split: option.splits intro!: ride_side_same)

lemma set_driver_side: "set_driver t i f w = Some (r, w') \<Longrightarrow> ride_side t w w'"
  by (auto simp: set_driver_def split: option.splits intro!: ride_side_same)

lemma flush_side:
  assumes "flush_world t w = Flushed w'" and "objects_ok p (w_sessions w t)"
  shows "ride_side t w w'"
  using flush_phase(1,3) [OF assms] by (force simp: ride_side_def)

lemma ride_side_trans: "ride_side t w w1 \<Longrightarrow> w_rides w2 = w_rides w1 \<Longrightarrow>
    broken (w_sessions w2 t) = broken (w_sessions w1 t) \<Longrightarrow> id_rides (w_sessions w2 t) = id_rides (w_sessions w1 t)
    \<Longrightarrow> ride_side t w w2"
  by (simp add: ride_side_def)

lemma exec_db_side:
  assumes ex: "exec_db t ch c w = Some (r, w')" and "\<nexists>e. r = RExn e" and o: "objects_ok p (w_sessions w t)"
    and c: "c \<noteq> Commit" "c \<noteq> Rollback" "\<not> writes_ride c" "database_call c"
  shows "ride_side t w w'"
proof -
  note flushed = flush_then_reply [of t w _ r w'] flush_side [OF _ o]
  show ?thesis
  proof (cases c)
    case (SelectRides P)
    then have w': "w' = session_upd t (fold see_ride (filter P (view_rows t (w_rides w)))) w"
      using ex by (simp add: Let_def)
    show ?thesis
      by (auto simp: w' ride_side_def view_rows_iff dest!: see_rides_objects)
  next
    case (InsertDriver lat lng h z st)
    then obtain w1 where w1: "flush_world t w = Flushed w1" "insert_driver t (ch_id ch) lat lng h z st w1 = Some (r, w')"
      using ex flushed(1) assms(2) by auto
    show ?thesis
      by (rule ride_side_trans [OF flushed(2) [OF w1(1)]])
        (use w1(2) in \<open>auto simp: insert_driver_def Let_def split: if_splits\<close>)
  next
    case (InsertRider lat lng)
    then obtain w1 where w1: "flush_world t w = Flushed w1" "insert_rider t (ch_id ch) lat lng w1 = Some (r, w')"
      using ex flushed(1) assms(2) by auto
    show ?thesis
      by (rule ride_side_trans [OF flushed(2) [OF w1(1)]])
        (use w1(2) in \<open>auto simp: insert_rider_def Let_def split: if_splits\<close>)
  next
    case Flush
    then show ?thesis using ex flushed assms(2) by auto
  qed (use ex c in \<open>auto simp: Let_def intro: load_driver_side load_ride_side set_driver_side ride_side_same
       split: option.splits if_splits\<close>)
qed

lemma durable_same: "w_rides w' = w_rides w \<Longrightarrow> durable w' = durable w"
  by (simp add: durable_def fun_eq_iff)

lemma view_durable: "\<not> locks_ride t w \<Longrightarrow> keyed_world w \<Longrightarrow> view t (w_rides w) i = Some r \<Longrightarrow> durable w r"
  using committed_durable by (simp add: locks_ride_def view_unlocked)

text \<open>The ride in a reply to a clean read.\<close>

lemma read_durable:
  assumes ex: "exec_db t ch c w = Some (RRide (Some x), w')" and "reads_ride c" and k: "keyed_world w"
    and ok: "reads_ok s t w" and clean: "fst s"
  shows "durable w x"
proof -
  have objs: "\<And>i l c. (i, l, c) \<in> set (id_rides (w_sessions w t)) \<Longrightarrow> durable w c" and none: "\<not> locks_ride t w"
    using ok clean by (auto simp: reads_ok_def)
  have load: "durable w x" if "load_ride_row t i w = Some (RRide (Some x), w')" for i
    using that view_durable [OF none k] by (auto simp: load_ride_row_def split: option.splits)
  show ?thesis
    using assms(1,2) load objs by (cases c) (auto split: option.splits dest: map_of_SomeD)
qed

lemma reads_ok_side:
  assumes ok: "reads_ok s t w" and side: "ride_side t w w'" and k: "keyed_world w" and D: "\<And>x. x \<in> D \<Longrightarrow> durable w x"
    and "\<not> broken (w_sessions w t)"
  shows "reads_ok (fst s, D) t w'"
proof -
  have same: "w_rides w' = w_rides w" using side by (simp add: ride_side_def)
  have "durable w c" if "fst s" "(i, l, c) \<in> set (id_rides (w_sessions w' t))" for i l c
    using that ok side view_durable [OF _ k] unfolding reads_ok_def ride_side_def by fastforce
  moreover have "\<not> broken (w_sessions w' t)" using side assms(5) by (simp add: ride_side_def)
  ultimately show ?thesis
    using ok D by (auto simp: reads_ok_def durable_same [OF same] locks_ride_def same)
qed

lemma reads_ok_cleared:
  assumes "id_rides (w_sessions w' t) = []" and "\<not> locks_ride t w'" and "\<And>x. x \<in> D \<Longrightarrow> durable w' x"
  shows "reads_ok (b, D) t w'"
  using assms by (simp add: reads_ok_def)

lemma fail_no_locks: "\<not> locks_ride t (fail_world t w)" "\<not> locks_ride t (rollback_world t w)" "\<not> locks_ride t (commit_world t w)"
  by (simp_all add: locks_ride_def)

text \<open>A failed statement leaves a session without objects and locks; a broken one stays as it was.\<close>

lemma failed_cleared:
  assumes "exec t ch c w = Some (RExn e, w')" and "database_call c"
  shows "w' = w \<and> broken (w_sessions w t) \<or> (\<exists>w1. w' = fail_world t w1)"
proof -
  have db: "\<exists>w1. w' = fail_world t w1" if "exec_db t ch c w = Some (RExn e, w')"
    using that assms(2) by (cases c)
      (auto simp: flush_then_def insert_driver_def insert_rider_def insert_ride_row_def update_ride_def Let_def
        load_driver_row_def load_ride_row_def set_driver_def set_ride_def
        split: flushed.splits option.splits if_splits written.splits)
  show ?thesis
    using assms db by (auto simp: exec_def split: if_splits option.splits prod.splits reply.splits)
qed

lemma succeeded:
  assumes "exec t ch c w = Some (r, w')" and "database_call c" and "\<nexists>e. r = RExn e"
  shows "exec_db t ch c w = Some (r, w') \<and> (c = Rollback \<or> \<not> broken (w_sessions w t))"
  using assms by (auto simp: exec_def split: if_splits option.splits prod.splits reply.splits)

lemma other_call_rides:
  "exec t ch c w = Some (r, w') \<Longrightarrow> \<not> database_call c \<Longrightarrow> w_rides w' = w_rides w \<and> w_sessions w' = w_sessions w"
  by (cases c) (auto simp: exec_def split: option.splits prod.splits if_splits)

text \<open>The invariant after a call, by the kind of call and answer.\<close>

lemma reads_ok_other_call:
  assumes "\<not> database_call c" and pl: "plausible c r" and "reads_ok s t w" and ex: "exec t ch c w = Some (r, w')"
  shows "\<exists>s'. reads_next s c r = Some s' \<and> reads_ok s' t w'"
proof -
  have "\<not> reads_ride c" using assms(1) by (cases c) simp_all
  then have "reads_next s c r = Some s"
    using pl assms(1) by (cases s) (auto simp: reads_next_def now_clean_def split: reply.splits option.splits)
  then show ?thesis
    using assms(3) other_call_rides [OF ex assms(1)] durable_same [of w' w] by (auto simp: reads_ok_def locks_ride_def)
qed

lemma reads_ok_failed:
  assumes phase: "in_phase p t w" and "database_call c" and pl: "plausible c (RExn e)" and ok: "reads_ok s t w"
    and ex: "exec t ch c w = Some (RExn e, w')" and old: "\<And>x. x \<in> snd s \<Longrightarrow> durable w' x"
  shows "\<exists>s'. reads_next s c (RExn e) = Some s' \<and> reads_ok s' t w'"
proof -
  have "reads_next s c (RExn e) = Some (True, snd s)"
    using pl assms(2) by (auto simp: reads_next_def now_clean_def)
  moreover have "reads_ok (True, snd s) t w'"
    using failed_cleared [OF ex assms(2)]
  proof (elim disjE conjE exE)
    assume w: "w' = w" "broken (w_sessions w t)"
    then have "p = Broken" using phase by (simp add: in_phase_def)
    then have "\<not> locks_ride t w" using phase by (simp add: in_phase_def locks_ride_def)
    then show ?thesis using ok w old by (intro reads_ok_cleared) (auto simp: reads_ok_def)
  qed (use old fail_no_locks in \<open>auto intro!: reads_ok_cleared\<close>)
  ultimately show ?thesis by blast
qed

lemma reads_ok_ended:
  assumes c: "c = Commit \<or> c = Rollback" and pl: "plausible c r" and "\<nexists>e. r = RExn e"
    and ex: "exec t ch c w = Some (r, w')" and old: "\<And>x. x \<in> snd s \<Longrightarrow> durable w' x"
  shows "\<exists>s'. reads_next s c r = Some s' \<and> reads_ok s' t w'"
proof -
  have d: "database_call c" using c by auto
  have "reads_next s c r = Some (True, snd s)"
    using pl c assms(3) d by (auto simp: reads_next_def now_clean_def split: reply.splits option.splits)
  moreover have "id_rides (w_sessions w' t) = [] \<and> \<not> locks_ride t w'"
    using succeeded [OF ex d assms(3)] c fail_no_locks by (auto simp: flush_then_def split: flushed.splits)
  ultimately show ?thesis using old reads_ok_cleared by blast
qed

lemma reads_ok_wrote:
  assumes phase: "in_phase p t w" and allowed: "tx_allowed p c" and c: "writes_ride c" and pl: "plausible c r"
    and "\<nexists>e. r = RExn e" and ok: "reads_ok s t w" and ex: "exec t ch c w = Some (r, w')"
    and old: "\<And>x. x \<in> snd s \<Longrightarrow> durable w' x"
  shows "\<exists>s'. reads_next s c r = Some s' \<and> reads_ok s' t w'"
proof -
  have d: "database_call c" and nr: "\<not> reads_ride c" using c by (cases c; simp)+
  have db: "exec_db t ch c w = Some (r, w')" "\<not> broken (w_sessions w t)"
    using succeeded [OF ex d assms(5)] c by auto
  have nx: "reads_next s c r = Some (fst s \<and> r = RNat 0, snd s)"
    using pl c d nr assms(5) by (auto simp: reads_next_def now_clean_def split: reply.splits option.splits)
  have "w' = w" if "r = RNat 0"
    using db(1) c that allowed phase db(2)
    by (cases c) (auto simp: update_ride_def flush_then_def insert_ride_row_def Let_def set_ride_def
        split: flushed.splits option.splits if_splits written.splits)
  moreover have "\<not> broken (w_sessions w' t)"
    using db c assms(5) by (cases c)
      (auto simp: update_ride_def flush_then_def insert_ride_row_def Let_def set_ride_def see_ride_def flush_world_def
        split: flushed.splits option.splits if_splits written.splits)
  ultimately have "reads_ok (fst s \<and> r = RNat 0, snd s) t w'"
    using ok old by (cases "r = RNat 0") (auto simp: reads_ok_def)
  then show ?thesis using nx by blast
qed

lemma reads_ok_read:
  assumes phase: "in_phase p t w" and k: "keyed_world w" and d: "database_call c" and "c \<noteq> Commit" "c \<noteq> Rollback"
    and "\<not> writes_ride c" and pl: "plausible c r" and "\<nexists>e. r = RExn e" and ok: "reads_ok s t w"
    and ex: "exec t ch c w = Some (r, w')"
  shows "\<exists>s'. reads_next s c r = Some s' \<and> reads_ok s' t w'"
proof -
  have db: "exec_db t ch c w = Some (r, w')" "\<not> broken (w_sessions w t)"
    using succeeded [OF ex d assms(8)] assms(5) by simp_all
  have o: "objects_ok p (w_sessions w t)" using phase by (simp add: in_phase_def)
  have side: "ride_side t w w'" by (rule exec_db_side [OF db(1) assms(8) o assms(4,5,6) d])
  define D where "D = (case r of RRide (Some x) \<Rightarrow> if fst s \<and> reads_ride c then insert x (snd s) else snd s | _ \<Rightarrow> snd s)"
  have "durable w x" if "x \<in> D" for x
    using that ok read_durable [OF _ _ k ok] db(1)
    by (auto simp: D_def reads_ok_def split: reply.splits option.splits if_splits)
  then have "reads_ok (fst s, D) t w'" by (intro reads_ok_side [OF ok side k _ db(2)])
  moreover have "reads_next s c r = Some (fst s, D)"
    using pl d assms(4-6,8) by (auto simp: reads_next_def now_clean_def D_def)
  ultimately show ?thesis by blast
qed

lemma reads_ok_call:
  assumes phase: "in_phase p t w" and allowed: "tx_allowed p c" and k: "keyed_world w" and fleet: "fleet_world w"
    and ok: "reads_ok s t w" and ex: "exec t ch c w = Some (r, w')" and ev: "rides_evolve w w'"
  shows "\<exists>s'. reads_next s c r = Some s' \<and> reads_ok s' t w'"
proof -
  have pl: "plausible c r" by (rule platform_plausible [OF ex k])
  have old: "durable w' x" if "x \<in> snd s" for x
    using that ok durable_evolves [OF _ ev fleet] by (auto simp: reads_ok_def)
  consider "\<not> database_call c" | e where "database_call c" "r = RExn e"
    | "\<nexists>e. r = RExn e" "c = Commit \<or> c = Rollback" | "\<nexists>e. r = RExn e" "writes_ride c"
    | "database_call c" "\<nexists>e. r = RExn e" "c \<noteq> Commit" "c \<noteq> Rollback" "\<not> writes_ride c" by blast
  then show ?thesis
  proof cases
    case 1
    then show ?thesis by (rule reads_ok_other_call [OF _ pl ok ex])
  next
    case 2
    with reads_ok_failed [OF phase _ _ ok _ old] pl ex show ?thesis by blast
  next
    case 3
    then show ?thesis using reads_ok_ended [OF _ pl _ ex old] by blast
  next
    case 4
    then show ?thesis using reads_ok_wrote [OF phase allowed _ pl _ ok ex old] by blast
  next
    case 5
    then show ?thesis using reads_ok_read [OF phase k _ _ _ _ pl _ ok ex] by blast
  qed
qed

section \<open>In the running service\<close>

definition tells_thread :: "http prog \<Rightarrow> tid \<Rightarrow> world \<Rightarrow> bool" where
  "tells_thread q t w \<longleftrightarrow> (\<exists>s. acks q answers_told s \<and> reads_ok s t w)"

definition tells_durable :: "http prog option \<Rightarrow> tid \<Rightarrow> world \<Rightarrow> bool" where
  "tells_durable q t w \<longleftrightarrow>
     (case q of None \<Rightarrow> id_rides (w_sessions w t) = [] | Some p \<Rightarrow> tells_thread p t w)"

lemma reads_ok_other:
  assumes ok: "reads_ok s t w" and un: "untouched t w w'" and ev: "rides_evolve w w'" and fleet: "fleet_world w"
  shows "reads_ok s t w'"
proof -
  have "w_sessions w' t = w_sessions w t" "locks_ride t w' \<longleftrightarrow> locks_ride t w"
    using un by (auto simp: untouched_def same_rows_def locks_ride_def)
  then show ?thesis using ok durable_evolves [OF _ ev fleet] by (fastforce simp: reads_ok_def)
qed

lemma tells_durable_call:
  assumes inv: "service_inv C" and thr: "threads C t = Some (Call c k)" and ih: "tells_thread (Call c k) t (the_world C)"
    and ex: "exec t ch c (the_world C) = Some (r, w')"
  shows "tells_thread (k r) t w'"
proof -
  let ?w = "the_world C"
  have kw: "keyed_world ?w" and fleet: "fleet_world ?w" using inv by (simp_all add: service_inv_def)
  have ev: "rides_evolve ?w w'" using inv_call [OF inv thr ex] by simp
  obtain p where p: "in_phase p t ?w" "tx (Call c k) (\<lambda>_ _. True) p"
    using inv thr by (auto simp: service_inv_def thread_ok_def dest!: spec [of _ t])
  obtain s where s: "acks (Call c k) answers_told s" "reads_ok s t ?w"
    using ih unfolding tells_thread_def by blast
  have "tx_allowed p c" using p(2) by simp
  from reads_ok_call [OF p(1) this kw fleet s(2) ex ev]
  obtain s' where s': "reads_next s c r = Some s'" "reads_ok s' t w'" by blast
  have "acks (k r) answers_told s'" using s(1) s'(1) by (auto dest: spec [of _ r])
  then show ?thesis using s'(2) unfolding tells_thread_def by blast
qed

lemma tells_durable_accept:
  assumes inv: "service_inv C" and idle: "threads C t = None" and fresh: "id_rides (w_sessions (the_world C) t) = []"
  shows "tells_thread (serve h cfg vtext req) t (the_world C)"
proof -
  have "in_phase Idle t (the_world C)"
    using inv idle by (auto simp: service_inv_def thread_ok_def dest!: spec [of _ t])
  then have "reads_ok (True, {}) t (the_world C)"
    using fresh by (simp add: reads_ok_def in_phase_def locks_ride_def)
  moreover have "acks (serve h cfg vtext req) answers_told (True, {})" by (rule acks_serve) simp
  ultimately show ?thesis unfolding tells_thread_def by blast
qed

interpretation told: thread_fact h cfg vtext tells_durable for h cfg vtext
proof
  fix t :: tid and w w' :: world and q
  assume "untouched t w w'" "rides_evolve w w'" "fleet_world w" "tells_durable q t w"
  then show "tells_durable q t w'"
    using reads_ok_other [of _ t w w'] unfolding tells_durable_def tells_thread_def
    by (cases q) (auto simp: untouched_def)
qed (simp_all add: tells_durable_def tells_durable_call tells_durable_accept init_world_def)

text \<open>C8: what the service tells a client of a ride is committed, and stays so. Whenever the handler of a
  request has ended with a response that shows a ride (created, matched, read, cancelled or completed),
  under any interleaving and with any dependency failing: the ride is in the database, as shown or in a
  later version of it, of the same rider, pickup, zone, price and key, with the same driver once it had
  one, its status never behind the one shown, and a final status unchanged.\<close>

theorem acknowledged_rides_are_durable:
  assumes "reachable h cfg vtext C" and "threads C t = Some (Return (Response status (BRide rr)))"
  shows "\<exists>r r'. rr = to_ride_response r \<and> rides_of C (rr_id rr) = Some r' \<and> ride_history r r'"
proof -
  obtain s where s: "acks (Return (Response status (BRide rr))) answers_told s" "reads_ok s t (the_world C)"
    using told.holds_reachable [OF assms(1), of t] assms(2) by (auto simp: tells_durable_def tells_thread_def)
  then obtain r where r: "r \<in> snd s" "rr = to_ride_response r"
    by (auto simp: answers_told_def told_response_def)
  then have "durable (the_world C) r" using s(2) by (simp add: reads_ok_def)
  then show ?thesis using r(2) by (auto simp: durable_def to_ride_response_def)
qed

end
