(* ===== verification/Scenario.thy ===== *)
theory Scenario
  imports Concurrency
begin

text \<open>
  The model run from end to end on concrete requests: a driver and a rider sign up, a ride is requested
  and matched; then the request is retried, a second ride finds no driver, the first is cancelled. The
  grid has one cell per degree of latitude and disks of a single cell. The two worlds this leaves are
  the concrete inputs of the witnesses.
\<close>

lemma replicate_numeral: "replicate (numeral k) x = x # replicate (pred_numeral k) x"
  by (simp add: numeral_eq_Suc)

lemmas handler_defs = serve_def valid_point_def respond_def create_driver_def driver_create_def must_exist_def
  ask_def create_rider_def rider_create_def request_ride_def create_ride_def ride_matches_def zone_surge_def
  insert_ride_def repo_defs match_ride_def find_ranked_candidates_def assign_candidate_def
  acquire_driver_lock_def acquire_lock_def release_lock_def emit_event_def record_metric_def
  record_contention_def try_except_def try_finally_def lock_key_def surge_formula_def default_settings_def
  cells_within_ring_def latlng_to_h3_def zone_id_for_point_def point_h3_def unary_def rank_candidates_def
  ACTIVE_RIDE_STATUSES_def cancel_ride_def finish_ride_def transition_or_raise_def free_driver_def

lemmas platform_defs = exec_def smooth_def flush_then_def flush_world_def init_world_def fresh_session_def
  session_upd_def insert_driver_def Let_def row_ids_def put_def see_driver_def empty_table_def
  commit_world_def commit_table_def view_def outcome_of_def List.map_filter_def row_lock_def
  drop_pending_def load_driver_row_def rollback_world_def rollback_table_def locked_by_other_def
  insert_rider_def insert_ride_row_def load_ride_row_def see_ride_def driver_object_def ride_object_def
  set_driver_def update_ride_def write_ride_def unique_check_def key_in_def driver_delta_def
  ride_delta_def view_rows_def redis_set_nx_px_def release_script_def live_def numeric_4_2_def
  active_driver_key_def uq_idempotency_key_def emit_def publish_def init_bus_def record_match_def push_attempt_def
  init_tracker_def deque_append_def init_db_tracker_def fail_world_def

definition morning :: "(request \<times> choice list) list" where
  "morning =
     [(PostDriver 3 0, replicate 6 (smooth ''d1'')),
      (PostRider 3 0, replicate 5 (smooth ''p1'')),
      (PostRide ''p1'' 3 0 (Some ''k''), replicate 40 (smooth ''r1''))]"

definition matched_r1 :: ride where
  "matched_r1 = \<lparr>r_id = ''r1'', r_rider_id = ''p1'', r_driver_id = Some ''d1'', r_status = MATCHED,
     pickup_lat = 3, pickup_lng = 0, matched_at = Some 0, fare = None, surge_multiplier = Some 1,
     r_zone_id = Some ''ccc'', idempotency_key = Some ''k'', created_at = 0, updated_at = 0\<rparr>"

definition unmatched_r2 :: ride where
  "unmatched_r2 = \<lparr>r_id = ''r2'', r_rider_id = ''p1'', r_driver_id = None, r_status = REQUESTED,
     pickup_lat = 5, pickup_lng = 0, matched_at = None, fare = None, surge_multiplier = Some 1,
     r_zone_id = Some ''ccccc'', idempotency_key = None, created_at = 0, updated_at = 0\<rparr>"

definition available_d1 :: driver where
  "available_d1 = \<lparr>d_id = ''d1'', current_lat = 3, current_lng = 0, d_h3_index = ''ccc'', d_zone_id = ''ccc'',
     d_status = AVAILABLE, last_updated_at = 0\<rparr>"

definition rider_p1 :: rider where
  "rider_p1 = \<lparr>p_id = ''p1'', p_pickup_lat = 3, p_pickup_lng = 0, requested_at = 0\<rparr>"

definition attempt_at_0 :: "outcome \<Rightarrow> match_attempt" where
  "attempt_at_0 oc = \<lparr>outcome = oc, latency_seconds = 0, attempted_at = 0\<rparr>"

definition matched_world :: world where
  "matched_world = (init_world default_settings)\<lparr>
     w_drivers := \<lparr>committed = [(''d1'', available_d1\<lparr>d_status := BUSY\<rparr>)], pending = []\<rparr>,
     w_rides := \<lparr>committed = [(''r1'', matched_r1)], pending = []\<rparr>,
     w_riders := \<lparr>committed = [(''p1'', rider_p1)], pending = []\<rparr>,
     w_metrics := (init_tracker 500)\<lparr>recent := [attempt_at_0 OMatched]\<rparr>\<rparr>"

definition two_rides_world :: world where
  "two_rides_world = (init_world default_settings)\<lparr>
     w_drivers := \<lparr>committed = [(''d1'', available_d1\<lparr>d_status := BUSY\<rparr>)], pending = []\<rparr>,
     w_rides := \<lparr>committed = [(''r1'', matched_r1), (''r2'', unmatched_r2)], pending = []\<rparr>,
     w_riders := \<lparr>committed = [(''p1'', rider_p1)], pending = []\<rparr>,
     w_metrics := (init_tracker 500)\<lparr>recent := [attempt_at_0 OMatched, attempt_at_0 OUnmatched],
       failed_matches_total := 1\<rparr>\<rparr>"

definition cancelled_world :: world where
  "cancelled_world = (init_world default_settings)\<lparr>
     w_drivers := \<lparr>committed = [(''d1'', available_d1)], pending = []\<rparr>,
     w_rides := \<lparr>committed = [(''r2'', unmatched_r2), (''r1'', matched_r1\<lparr>r_status := CANCELLED\<rparr>)], pending = []\<rparr>,
     w_riders := \<lparr>committed = [(''p1'', rider_p1)], pending = []\<rparr>,
     w_metrics := (init_tracker 500)\<lparr>recent := [attempt_at_0 OMatched, attempt_at_0 OUnmatched],
       failed_matches_total := 1\<rparr>\<rparr>"

lemmas scenario_rows = matched_r1_def unmatched_r2_def available_d1_def rider_p1_def attempt_at_0_def
  matched_world_def two_rides_world_def cancelled_world_def

lemma morning_run:
  "run_requests point_h3 default_settings (\<lambda>_. []) morning (init_world default_settings) =
     Some ([Response 201 (BDriver available_d1), Response 201 (BRider rider_p1), Response 201 (BRide (to_ride_response matched_r1))],
           matched_world)"
  by (simp add: morning_def handler_defs platform_defs scenario_rows replicate_numeral upto.simps fun_upd_idem)

text \<open>A retry with the same key and parameters returns the ride and changes nothing.\<close>

lemma retry_run:
  "run_requests point_h3 default_settings (\<lambda>_. [])
     [(PostRide ''p1'' 3 0 (Some ''k''), replicate 9 (smooth ''x''))] matched_world =
     Some ([Response 201 (BRide (to_ride_response matched_r1))], matched_world)"
  by (simp add: handler_defs platform_defs scenario_rows replicate_numeral upto.simps fun_upd_idem)

lemma unmatched_run:
  "run_requests point_h3 default_settings (\<lambda>_. [])
     [(PostRide ''p1'' 5 0 None, replicate 40 (smooth ''r2''))] matched_world =
     Some ([Response 201 (BRide (to_ride_response unmatched_r2))], two_rides_world)"
  by (simp add: handler_defs platform_defs scenario_rows replicate_numeral upto.simps fun_upd_idem)

lemma cancel_run:
  "run_requests point_h3 default_settings (\<lambda>_. []) [(CancelRide ''r1'', replicate 40 (smooth ''x''))] two_rides_world =
     Some ([Response 200 (BRide (to_ride_response (matched_r1\<lparr>r_status := CANCELLED\<rparr>)))], cancelled_world)"
  by (simp add: handler_defs platform_defs scenario_rows replicate_numeral upto.simps fun_upd_idem)

definition resting :: "world \<Rightarrow> config" where
  "resting w = \<lparr>the_world = w, threads = (\<lambda>_. None)\<rparr>"

abbreviation demo_reachable :: "config \<Rightarrow> bool" where
  "demo_reachable \<equiv> reachable point_h3 default_settings (\<lambda>_. [])"

abbreviation demo_steps :: "config \<Rightarrow> config \<Rightarrow> bool" where
  "demo_steps \<equiv> (step point_h3 default_settings (\<lambda>_. []))\<^sup>*\<^sup>*"

lemma matched_reachable: "demo_reachable (resting matched_world)"
  using reachable_steps [OF reachable.start run_requests_steps [OF morning_run, folded resting_def init_config_def]]
  by (simp add: init_config_def resting_def)

lemma matched_to_two: "demo_steps (resting matched_world) (resting two_rides_world)"
  using run_requests_steps [OF unmatched_run] by (simp add: resting_def)

lemma two_to_cancelled: "demo_steps (resting two_rides_world) (resting cancelled_world)"
  using run_requests_steps [OF cancel_run] by (simp add: resting_def)

lemma two_reachable: "demo_reachable (resting two_rides_world)"
  by (rule reachable_steps [OF matched_reachable matched_to_two])

lemma cancelled_reachable: "demo_reachable (resting cancelled_world)"
  by (rule reachable_steps [OF two_reachable two_to_cancelled])

section \<open>Witnesses of the invariants\<close>

lemma demo_rows [simp]:
  "rides_of (resting two_rides_world) ''r1'' = Some matched_r1"
  "rides_of (resting two_rides_world) ''r2'' = Some unmatched_r2"
  "drivers_of (resting two_rides_world) ''d1'' = Some (available_d1\<lparr>d_status := BUSY\<rparr>)"
  "rides_of (resting cancelled_world) ''r1'' = Some (matched_r1\<lparr>r_status := CANCELLED\<rparr>)"
  "drivers_of (resting cancelled_world) ''d1'' = Some available_d1"
  by (simp_all add: resting_def two_rides_world_def cancelled_world_def)

lemma matched_r1_facts [simp]:
  "is_active matched_r1" "r_driver_id matched_r1 = Some ''d1''" "idempotency_key matched_r1 = Some ''k''"
  "r_status matched_r1 = MATCHED"
  by (simp_all add: matched_r1_def is_active_iff)

theorem no_double_booking_witness:
  "{j. \<exists>b. rides_of (resting two_rides_world) j = Some b \<and> is_active b \<and> r_driver_id b = Some ''d1''} = {''r1''}"
  using no_double_booking [OF two_reachable demo_rows(1), of _ _ "''d1''"] by auto

theorem idempotency_key_backs_one_ride_witness:
  "{j. \<exists>b. rides_of (resting two_rides_world) j = Some b \<and> idempotency_key b = Some ''k''} = {''r1''}"
  using idempotency_key_backs_one_ride [OF two_reachable demo_rows(1), of _ _ "''k''"] by auto

theorem busy_iff_serving_witness:
  "(\<exists>i r. rides_of (resting two_rides_world) i = Some r \<and> is_active r \<and> r_driver_id r = Some ''d1'')
   \<and> (\<nexists>i r. rides_of (resting cancelled_world) i = Some r \<and> is_active r \<and> r_driver_id r = Some ''d1'')"
  using busy_iff_serving [OF two_reachable demo_rows(3)] busy_iff_serving [OF cancelled_reachable demo_rows(5)]
  by (simp add: available_d1_def)

theorem ride_status_matches_row_witness:
  "\<exists>d x. r_driver_id matched_r1 = Some d \<and> drivers_of (resting two_rides_world) d = Some x"
  using ride_status_matches_row [OF two_reachable demo_rows(1)] by simp

theorem rides_follow_lifecycle_witness:
  "case (rides_of (resting two_rides_world) ''r1'',
         rides_of ((resting two_rides_world)\<lparr>the_world := (the_world (resting two_rides_world))\<lparr>w_redis := []\<rparr>\<rparr>) ''r1'') of
     (Some r, Some r') \<Rightarrow> r' = r | _ \<Rightarrow> False"
proof -
  have "step point_h3 default_settings (\<lambda>_. []) (resting two_rides_world)
      ((resting two_rides_world)\<lparr>the_world := (the_world (resting two_rides_world))\<lparr>w_redis := []\<rparr>\<rparr>)"
    by (rule step.redis_loses_keys) simp
  from rides_follow_lifecycle [OF two_reachable this, of "''r1''"]
  show ?thesis by (simp add: resting_def two_rides_world_def)
qed

theorem ride_history_is_monotone_witness:
  "\<exists>r'. rides_of (resting cancelled_world) ''r1'' = Some r' \<and> ride_history matched_r1 r' \<and> r_status r' = CANCELLED"
  using ride_history_is_monotone [OF two_reachable two_to_cancelled demo_rows(1)]
  by (auto simp: demo_rows)

end
