(* ===== verification/Service.thy ===== *)
theory Service
  imports Acknowledged Responses Scenario
begin

text \<open>
  The contracts of the handlers meet the running service: what a request in flight has exchanged with the
  platform is a plausible trace of its handler, so that whatever holds of every such trace holds of the
  responses that the service gives, under any interleaving.
\<close>

section \<open>What is left of a program\<close>

fun after :: "'a prog \<Rightarrow> (call \<times> reply) list \<Rightarrow> 'a prog option" where
  "after p [] = Some p"
| "after (Call c k) ((c', r) # t) = (if c' = c then after (k r) t else None)"
| "after _ (_ # _) = None"

lemma after_snoc: "after p tr = Some (Call c k) \<Longrightarrow> after p (tr @ [(c, r)]) = Some (k r)"
  by (induction p tr rule: after.induct) (auto split: if_splits)

lemma after_trace: "after p tr = Some q \<Longrightarrow> trace q t res \<Longrightarrow> trace p (tr @ t) res"
  by (induction p tr rule: after.induct) (auto split: if_splits intro: trace.intros)

section \<open>Rereading within a session\<close>

text \<open>The ride that was read last, with no database call since: the argument of \<open>session_reads\<close>.\<close>

fun last_read :: "ride option \<Rightarrow> (call \<times> reply) list \<Rightarrow> ride option" where
  "last_read m [] = m"
| "last_read m ((GetRide i, RRide (Some r)) # t) = last_read (Some r) t"
| "last_read m ((c, r) # t) = last_read (if database_call c then None else m) t"

lemma session_reads_append:
  "session_reads m (t1 @ t2) \<longleftrightarrow> session_reads m t1 \<and> session_reads (last_read m t1) t2"
  by (induction m t1 rule: last_read.induct) auto

lemma last_read_append: "last_read m (t1 @ t2) = last_read (last_read m t1) t2"
  by (induction m t1 rule: last_read.induct) auto

definition remembers :: "ride option \<Rightarrow> session \<Rightarrow> bool" where
  "remembers m se \<longleftrightarrow> (\<forall>r. m = Some r \<longrightarrow> (\<exists>l. map_of (id_rides se) (r_id r) = Some (l, r)))"

lemma get_ride_remembers:
  assumes ex: "exec t ch (GetRide i) w = Some (RRide (Some r), w')" and k: "keyed_world w"
  shows "remembers (Some r) (w_sessions w' t)"
    and "remembers m (w_sessions w t) \<Longrightarrow> m = Some r' \<Longrightarrow> r_id r' = i \<Longrightarrow> r = r'"
proof -
  have id: "r_id r = i"
    using platform_plausible [OF ex k] by (simp add: plausible_def keyed_reply_def)
  have "exec_db t ch (GetRide i) w = Some (RRide (Some r), w')"
    using ex by (auto simp: exec_def split: if_splits option.splits)
  then consider (cached) l where "map_of (id_rides (w_sessions w t)) i = Some (l, r)" "w' = w"
    | (loaded) "map_of (id_rides (w_sessions w t)) i = None" "load_ride_row t i w = Some (RRide (Some r), w')"
    by (auto split: option.splits)
  note cases = this
  show "remembers (Some r) (w_sessions w' t)"
    using cases by cases (auto simp: remembers_def id load_ride_row_def update_conv' split: option.splits)
  show "r = r'" if "remembers m (w_sessions w t)" "m = Some r'" "r_id r' = i"
    using cases by cases (use that in \<open>auto simp: remembers_def\<close>)
qed

lemma session_reads_step:
  assumes ex: "exec t ch c w = Some (r, w')" and k: "keyed_world w" and m: "remembers m (w_sessions w t)"
  shows "session_reads m [(c, r)] \<and> remembers (last_read m [(c, r)]) (w_sessions w' t)"
proof (cases "\<exists>i x. c = GetRide i \<and> r = RRide (Some x)")
  case True
  then obtain i x where c: "c = GetRide i" and r: "r = RRide (Some x)" by blast
  show ?thesis
    using get_ride_remembers [OF ex [unfolded c r] k] m by (auto simp: c r split: option.split)
next
  case False
  then have "last_read m [(c, r)] = (if database_call c then None else m)" "session_reads m [(c, r)]"
    by (cases c; cases r; auto split: option.split)+
  then show ?thesis
    using other_call_rides [OF ex] m by (auto simp: remembers_def)
qed

section \<open>The history of a request in flight\<close>

definition history :: "h3_lib \<Rightarrow> settings \<Rightarrow> (request \<Rightarrow> string) \<Rightarrow> http prog \<Rightarrow> session \<Rightarrow> bool" where
  "history h cfg vtext q se \<longleftrightarrow>
     (\<exists>req tr. after (serve h cfg vtext req) tr = Some q \<and> plausible_trace tr \<and> session_reads None tr
        \<and> remembers (last_read None tr) se)"

definition histories :: "h3_lib \<Rightarrow> settings \<Rightarrow> (request \<Rightarrow> string) \<Rightarrow> http prog option \<Rightarrow> tid \<Rightarrow> world \<Rightarrow> bool" where
  "histories h cfg vtext q t w \<longleftrightarrow> (\<forall>p. q = Some p \<longrightarrow> history h cfg vtext p (w_sessions w t))"

lemma history_start: "history h cfg vtext (serve h cfg vtext req) se"
proof -
  have "after (serve h cfg vtext req) [] = Some (serve h cfg vtext req)" by simp
  moreover have "plausible_trace []" "session_reads None []" "remembers (last_read None []) se"
    by (simp_all add: plausible_trace_def remembers_def)
  ultimately show ?thesis unfolding history_def by blast
qed

lemma history_call:
  assumes "history h cfg vtext (Call c k) (w_sessions w t)" and ex: "exec t ch c w = Some (r, w')" and k: "keyed_world w"
  shows "history h cfg vtext (k r) (w_sessions w' t)"
proof -
  obtain req tr where tr: "after (serve h cfg vtext req) tr = Some (Call c k)" "plausible_trace tr"
      "session_reads None tr" "remembers (last_read None tr) (w_sessions w t)"
    using assms(1) unfolding history_def by blast
  have "plausible_trace (tr @ [(c, r)])"
    using tr(2) platform_plausible [OF ex k] by (simp add: plausible_trace_def)
  moreover have "session_reads None (tr @ [(c, r)])"
      "remembers (last_read None (tr @ [(c, r)])) (w_sessions w' t)"
    using session_reads_step [OF ex k tr(4)] tr(3) by (simp_all add: session_reads_append last_read_append)
  ultimately show ?thesis using after_snoc [OF tr(1)] unfolding history_def by blast
qed

interpretation recorded: thread_fact h cfg vtext "histories h cfg vtext" for h cfg vtext
proof
  fix C t c k ch r w'
  assume "service_inv C" "histories h cfg vtext (Some (Call c k)) t (the_world C)" "exec t ch c (the_world C) = Some (r, w')"
  then show "histories h cfg vtext (Some (k r)) t w'"
    using history_call by (simp add: histories_def service_inv_def)
qed (simp_all add: histories_def history_start untouched_def)


section \<open>Witnesses\<close>

text \<open>The rider asks for the ride of \<open>morning\<close>: the configuration when the handler has ended.\<close>

lemma ride_shown:
  "\<exists>w'. run_thread 0 (replicate 3 (smooth ''x'')) (serve point_h3 default_settings (\<lambda>_. []) (ReadRide ''r1'')) matched_world
    = Some (Response 200 (BRide (to_ride_response matched_r1)), w')"
  by (simp add: handler_defs platform_defs scenario_rows replicate_numeral upto.simps get_ride_def)

lemma shown_reachable:
  "\<exists>w'. demo_reachable \<lparr>the_world = w', threads = [0 \<mapsto> Return (Response 200 (BRide (to_ride_response matched_r1)))]\<rparr>"
proof -
  obtain w' where w': "run_thread 0 (replicate 3 (smooth ''x''))
      (serve point_h3 default_settings (\<lambda>_. []) (ReadRide ''r1'')) matched_world
      = Some (Response 200 (BRide (to_ride_response matched_r1)), w')"
    using ride_shown by blast
  have "demo_steps (resting matched_world)
      \<lparr>the_world = matched_world, threads = [0 \<mapsto> serve point_h3 default_settings (\<lambda>_. []) (ReadRide ''r1'')]\<rparr>"
    using step.accept [of "resting matched_world" 0] by (simp add: resting_def r_into_rtranclp)
  with run_thread_steps [OF w'] have "demo_steps (resting matched_world)
      \<lparr>the_world = w', threads = [0 \<mapsto> Return (Response 200 (BRide (to_ride_response matched_r1)))]\<rparr>"
    by (rule rtranclp_trans [rotated])
  then show ?thesis using reachable_steps [OF matched_reachable] by blast
qed


theorem acknowledged_rides_are_durable_witness:
  "\<exists>(w' :: world) r r'. lookup (w_rides w') ''r1'' = Some r' \<and> ride_history r r' \<and> r_driver_id r = Some ''d1''"
proof -
  obtain w' where "demo_reachable \<lparr>the_world = w',
      threads = [0 \<mapsto> Return (Response 200 (BRide (to_ride_response matched_r1)))]\<rparr>"
    using shown_reachable by blast
  from acknowledged_rides_are_durable [OF this, of 0] obtain r r' where
    "to_ride_response matched_r1 = to_ride_response r" "lookup (w_rides w') ''r1'' = Some r'" "ride_history r r'"
    by (auto simp: to_ride_response_def matched_r1_def)
  moreover then have "r_driver_id r = Some ''d1''" by (simp add: to_ride_response_def matched_r1_def)
  ultimately show ?thesis by blast
qed

text \<open>Two requests for the same ride, both in flight.\<close>

definition contended :: config where
  "contended = \<lparr>the_world = matched_world,
     threads = [0 \<mapsto> serve point_h3 default_settings (\<lambda>_. []) (CancelRide ''r1''),
                1 \<mapsto> serve point_h3 default_settings (\<lambda>_. []) (CompleteRide ''r1'')]\<rparr>"

lemma contended_reachable: "demo_reachable contended"
proof -
  have "demo_steps (resting matched_world)
      \<lparr>the_world = matched_world, threads = [0 \<mapsto> serve point_h3 default_settings (\<lambda>_. []) (CancelRide ''r1'')]\<rparr>"
    using step.accept [of "resting matched_world" 0] by (simp add: resting_def r_into_rtranclp)
  moreover have "demo_steps
      \<lparr>the_world = matched_world, threads = [0 \<mapsto> serve point_h3 default_settings (\<lambda>_. []) (CancelRide ''r1'')]\<rparr> contended"
    using step.accept [of "\<lparr>the_world = matched_world,
        threads = [0 \<mapsto> serve point_h3 default_settings (\<lambda>_. []) (CancelRide ''r1'')]\<rparr>" 1]
    by (simp add: contended_def r_into_rtranclp)
  ultimately show ?thesis using reachable_steps [OF matched_reachable] by (meson rtranclp_trans)
qed

theorem requests_never_deadlock_witness:
  "(\<exists>t'. can_go_on contended t') \<and> (\<exists>C'. smooth_step\<^sup>*\<^sup>* contended C' \<and> (\<forall>t. threads C' t = None))"
  using requests_never_deadlock [OF contended_reachable, of 0] by (simp add: contended_def)

end
