(* ===== verification/ReadModel.thy ===== *)
theory ReadModel
  imports Service
begin

text \<open>
  What the service says. First, per handler: every success carries the status and the model its route
  declares. Then, on the platform: what the reading endpoints report is what is committed.
\<close>

section \<open>Declared responses\<close>

text \<open>The \<open>status_code\<close> and \<open>response_model\<close> of each route, and what the body says of the request.\<close>

fun declared :: "request \<Rightarrow> int \<Rightarrow> body \<Rightarrow> bool" where
  "declared (ListDrivers st) status b \<longleftrightarrow> status = 200 \<and> (\<exists>ds. b = BDrivers ds)"
| "declared (PostDriver lat lng) status b \<longleftrightarrow> status = 201 \<and> (\<exists>d. b = BDriver d)"
| "declared (ReadDriver i) status b \<longleftrightarrow> status = 200 \<and> (\<exists>d. b = BDriver d \<and> d_id d = i)"
| "declared (PatchDriverLocation i lat lng) status b \<longleftrightarrow> status = 200 \<and> (\<exists>d. b = BDriver d)"
| "declared (PostRider lat lng) status b \<longleftrightarrow> status = 201 \<and> (\<exists>p. b = BRider p)"
| "declared (PostRide rider lat lng idem_key) status b \<longleftrightarrow> status = 201 \<and> (\<exists>r. b = BRide r)"
| "declared (ReadRide i) status b \<longleftrightarrow> status = 200 \<and> (\<exists>r. b = BRide r \<and> rr_id r = i)"
| "declared (CancelRide i) status b \<longleftrightarrow> status = 200 \<and> (\<exists>r. b = BRide r \<and> rr_id r = i)"
| "declared (CompleteRide i) status b \<longleftrightarrow> status = 200 \<and> (\<exists>r. b = BRide r \<and> rr_id r = i)"
| "declared (ReadZoneSurge z) status b \<longleftrightarrow> status = 200
     \<and> (\<exists>s. b = BSurge s \<and> s_zone_id s = z)"
| "declared ReadStats status b \<longleftrightarrow> status = 200 \<and> (\<exists>s. b = BStats s)"
| "declared ReadHealth status b \<longleftrightarrow> status = 200
     \<and> (\<exists>db redis. b = BHealth (if db \<and> redis then ''ok'' else ''degraded'') db redis)"

definition delivers :: "'a prog \<Rightarrow> ('a \<Rightarrow> bool) \<Rightarrow> bool" where
  "delivers p P \<longleftrightarrow> ensures p (\<lambda>res t. \<forall>x. res = Inr x \<longrightarrow> P x)"

lemma delivers_pbindI: "(\<And>x. delivers (f x) P) \<Longrightarrow> delivers (pbind p f) P"
  unfolding delivers_def
  by (rule ensures_pbindI [where R = "\<lambda>_ _. True"]) (simp_all add: ensures_def)

lemma delivers_simps [simp]: "delivers (Return x) P \<longleftrightarrow> P x" "delivers (Raise e) P" "delivers p (\<lambda>_. True)"
  by (simp_all add: delivers_def wp) (simp add: ensures_def)

lemma delivers_reads:
  "delivers (get_driver i) (\<lambda>d. d_id d = i)" "delivers (get_ride i) (\<lambda>r. r_id r = i)"
  "delivers (finish_ride from_st to_st ev i) (\<lambda>r. r_id r = i)" "delivers (zone_surge cfg z now) (\<lambda>s. s_zone_id s = z)"
  "delivers health (\<lambda>b. \<exists>db redis. b = BHealth (if db \<and> redis then ''ok'' else ''degraded'') db redis)"
proof -
  show "delivers (finish_ride from_st to_st ev i) (\<lambda>r. r_id r = i)"
    unfolding delivers_def by (rule ensures_mono [OF ensures_finish]) (auto simp: finish_outcome_def)
  show "delivers (zone_surge cfg z now) (\<lambda>s. s_zone_id s = z)"
    unfolding zone_surge_def Let_def by (intro delivers_pbindI) simp
  show "delivers health (\<lambda>b. \<exists>db redis. b = BHealth (if db \<and> redis then ''ok'' else ''degraded'') db redis)"
    unfolding health_def by (intro delivers_pbindI) auto
qed (auto simp: delivers_def get_driver_def get_ride_def repo_defs wp split: option.split)

lemma exception_is_error: "handle_exception e = Response status b \<Longrightarrow> is_error_body b"
  by (induction e rule: handle_exception.induct) (auto simp: error_response_def)

definition conforms :: "request \<Rightarrow> http \<Rightarrow> bool" where
  "conforms req resp \<longleftrightarrow>
     (\<forall>status b. resp = Response status b \<longrightarrow> \<not> is_error_body b \<longrightarrow> declared req status b)"

lemma conforms_respond:
  assumes "delivers p P" and "\<And>x. P x \<Longrightarrow> declared req status (f x)"
  shows "delivers (respond status f p) (conforms req)"
  unfolding respond_def delivers_def
  by (rule ensures_handleI [OF assms(1) [unfolded delivers_def]])
    (auto simp: wp conforms_def assms(2) dest: exception_is_error)

lemma conforms_endpoint: "delivers (endpoint h cfg req) (conforms req)"
proof (cases req)
  case (ReadDriver i)
  then show ?thesis using conforms_respond [OF delivers_reads(1)] by simp
next
  case (ReadRide i)
  then show ?thesis using conforms_respond [OF delivers_reads(2)] by (simp add: to_ride_response_def)
next
  case (CancelRide i)
  then show ?thesis using conforms_respond [OF delivers_reads(3)] by (simp add: to_ride_response_def cancel_ride_def)
next
  case (CompleteRide i)
  then show ?thesis using conforms_respond [OF delivers_reads(3)] by (simp add: to_ride_response_def complete_ride_def)
next
  case (ReadZoneSurge z)
  then show ?thesis using conforms_respond [OF delivers_reads(4)] by (simp add: get_zone_surge_def)
next
  case ReadHealth
  then show ?thesis using conforms_respond [OF delivers_reads(5)] by simp
qed (simp_all add: conforms_respond [where P = "\<lambda>_. True"])

lemma conforms_serve: "delivers (serve h cfg vtext req) (conforms req)"
  by (simp add: serve_def conforms_endpoint conforms_def error_response_def)



section \<open>A program that runs alone\<close>

text \<open>As \<open>run_thread\<close>, but with the way the program ended and the choices that are left.\<close>

fun run_prog :: "tid \<Rightarrow> choice list \<Rightarrow> 'a prog \<Rightarrow> world \<Rightarrow> ((exn + 'a) \<times> choice list \<times> world) option" where
  "run_prog t chs (Return x) w = Some (Inr x, chs, w)"
| "run_prog t chs (Raise e) w = Some (Inl e, chs, w)"
| "run_prog t [] (Call c k) w = None"
| "run_prog t (ch # chs) (Call c k) w =
     (case exec t ch c w of None \<Rightarrow> None | Some (r, w') \<Rightarrow> run_prog t chs (k r) w')"

lemma run_thread_prog: "run_thread t chs p w = Some (x, w') \<Longrightarrow> \<exists>chs'. run_prog t chs p w = Some (Inr x, chs', w')"
  by (induction t chs p w rule: run_thread.induct) (auto split: option.splits)

lemma run_prog_exchange:
  "run_prog t chs p w = Some (res, chs', w') \<Longrightarrow> \<exists>tr. exchange (platform_answers t) p w tr res w'"
proof (induction t chs p w rule: run_prog.induct)
  case (4 t ch chs c k w)
  then obtain r w1 where ex: "exec t ch c w = Some (r, w1)" and "run_prog t chs (k r) w1 = Some (res, chs', w')"
    by (auto split: option.splits)
  with 4(1) obtain tr where "exchange (platform_answers t) (k r) w1 tr res w'" by blast
  with ex have "exchange (platform_answers t) (Call c k) w ((c, r) # tr) res w'"
    by (intro exchange.answered) (auto simp: platform_answers_def)
  then show ?case by blast
qed (auto intro: exchange.intros)

lemma run_prog_handle:
  "run_prog t chs (handle p f g) w =
     (case run_prog t chs p w of
        None \<Rightarrow> None
      | Some (Inr x, chs', w') \<Rightarrow> run_prog t chs' (f x) w'
      | Some (Inl e, chs', w') \<Rightarrow> run_prog t chs' (g e) w')"
  by (induction t chs p w rule: run_prog.induct) (simp_all split: option.split)

text \<open>\<open>alone t p w P\<close>: when \<open>p\<close> ends without an exception, served alone from the state \<open>w\<close>, its result and the
  state are as \<open>P\<close> says.\<close>

definition alone :: "tid \<Rightarrow> 'a prog \<Rightarrow> world \<Rightarrow> ('a \<Rightarrow> world \<Rightarrow> bool) \<Rightarrow> bool" where
  "alone t p w P \<longleftrightarrow> (\<forall>chs x chs' w'. run_prog t chs p w = Some (Inr x, chs', w') \<longrightarrow> P x w')"

lemma aloneD: "alone t p w P \<Longrightarrow> run_thread t chs p w = Some (x, w') \<Longrightarrow> P x w'"
  using run_thread_prog unfolding alone_def by fast

lemma alone_simps [simp]: "alone t (Return x) w P \<longleftrightarrow> P x w" "alone t (Raise e) w P"
  by (simp_all add: alone_def)

lemma alone_mono: "alone t p w P \<Longrightarrow> (\<And>x w'. P x w' \<Longrightarrow> Q x w') \<Longrightarrow> alone t p w Q"
  by (simp add: alone_def)

lemma alone_pbindI: "alone t p w (\<lambda>x w'. alone t (f x) w' P) \<Longrightarrow> alone t (pbind p f) w P"
  unfolding alone_def pbind_def run_prog_handle by (fastforce split: option.splits sum.splits)

lemma alone_respond:
  assumes "alone t p w (\<lambda>x _. B (f x))"
  shows "alone t (respond status f p) w (\<lambda>resp _. \<forall>st b. resp = Response st b \<longrightarrow> \<not> is_error_body b \<longrightarrow> B b)"
  using assms unfolding alone_def respond_def run_prog_handle
  by (fastforce split: option.splits sum.splits dest: exception_is_error)

lemma alone_ask:
  assumes "\<And>ch r w'. exec t ch c w = Some (r, w') \<Longrightarrow> \<nexists>e. r = RExn e \<Longrightarrow> \<forall>x. proj r = Some x \<longrightarrow> P x w'"
  shows "alone t (ask c proj) w P"
proof -
  have "P x w'" if run: "run_prog t chs (ask c proj) w = Some (Inr x, chs', w')" for chs x chs' w'
  proof -
    obtain ch chs1 r w1 where e: "exec t ch c w = Some (r, w1)"
        "run_prog t chs1 (case r of RExn e \<Rightarrow> Raise e
           | _ \<Rightarrow> (case proj r of Some x \<Rightarrow> Return x | None \<Rightarrow> Raise (ValueError ''ill-typed reply''))) w1
         = Some (Inr x, chs', w')"
      using run by (cases chs) (auto simp: ask_def split: option.splits)
    from e(2) have "w1 = w'" "proj r = Some x" "\<nexists>e. r = RExn e"
      by (auto split: reply.splits option.splits)
    then show ?thesis using assms [OF e(1)] by blast
  qed
  then show ?thesis by (simp add: alone_def)
qed

section \<open>A session at rest\<close>

definition idle :: "tid \<Rightarrow> world \<Rightarrow> bool" where
  "idle t w \<longleftrightarrow> w_sessions w t = fresh_session
     \<and> (\<forall>i. row_lock (w_drivers w) i \<noteq> Some t) \<and> (\<forall>i. row_lock (w_rides w) i \<noteq> Some t)"

definition rests :: "http prog option \<Rightarrow> tid \<Rightarrow> world \<Rightarrow> bool" where
  "rests q t w \<longleftrightarrow> (q = None \<longrightarrow> w_sessions w t = fresh_session)"

interpretation resting: thread_fact h cfg vtext rests for h cfg vtext
  by unfold_locales (simp_all add: rests_def init_world_def untouched_def rollback_world_def session_upd_def)

lemma idle_reachable:
  assumes "reachable h cfg vtext C" and "threads C t = None"
  shows "idle t (the_world C)"
proof -
  have "in_phase Idle t (the_world C)"
    using inv_reachable [OF assms(1)] assms(2) by (auto simp: service_inv_def thread_ok_def dest!: spec [of _ t])
  then show ?thesis
    using resting.holds_reachable [OF assms(1), of t] assms(2) holds_nothing [of Idle t "the_world C"]
    by (simp add: idle_def rests_def locks_driver_def locks_ride_def)
qed

section \<open>What is committed\<close>

definition holding :: "'a table \<Rightarrow> ('a \<Rightarrow> bool) \<Rightarrow> uuid set" where
  "holding T P = {i. \<exists>x. lookup T i = Some x \<and> P x}"

lemma filter_map_filter_card:
  assumes "distinct ks"
  shows "length (filter P (List.map_filter f ks)) = card {i \<in> set ks. \<exists>x. f i = Some x \<and> P x}"
  using assms
proof (induction ks)
  case (Cons k ks)
  have "{i \<in> set (k # ks). \<exists>x. f i = Some x \<and> P x} =
      (if \<exists>x. f k = Some x \<and> P x then insert k {i \<in> set ks. \<exists>x. f i = Some x \<and> P x} else {i \<in> set ks. \<exists>x. f i = Some x \<and> P x})"
    by auto
  with Cons show ?case by (auto simp: List.map_filter_simps split: option.split)
qed (simp add: List.map_filter_simps)

lemma lookup_row_id: "lookup T i = Some x \<Longrightarrow> i \<in> set (row_ids T)"
  using not_row_id [of i T] by auto

lemma idle_rows:
  assumes "\<forall>i. row_lock T i \<noteq> Some t"
  shows "length (filter P (view_rows t T)) = card (holding T P)"
    and "set (view_rows t T) = ran (lookup T)"
    and "keyed_table key T \<Longrightarrow> distinct (map key (view_rows t T))"
proof -
  have v: "view_rows t T = List.map_filter (lookup T) (row_ids T)"
    unfolding view_rows_def by (rule arg_cong2 [where f = List.map_filter]) (use assms view_unlocked in \<open>auto intro!: ext\<close>)
  have d: "distinct (row_ids T)" by (simp add: row_ids_def)
  show "length (filter P (view_rows t T)) = card (holding T P)"
    unfolding v filter_map_filter_card [OF d] holding_def using lookup_row_id [of T] by (intro arg_cong [of _ _ card]) blast
  show "set (view_rows t T) = ran (lookup T)"
    unfolding v List.map_filter_def ran_def using lookup_row_id [of T] by (force simp: image_iff)
  show "distinct (map key (view_rows t T))" if k: "keyed_table key T"
  proof -
    have "map key (List.map_filter (lookup T) ks) = filter (\<lambda>i. lookup T i \<noteq> None) ks" for ks
      by (induction ks) (auto simp: List.map_filter_simps keyed_table_lookup [OF k] split: option.split)
    then show ?thesis using d by (simp add: v)
  qed
qed

section \<open>The reading endpoints\<close>

definition surge_now :: "settings \<Rightarrow> world \<Rightarrow> string \<Rightarrow> surge_result" where
  "surge_now cfg w z =
     (let since = now_seconds w - real_of_int (surge_demand_window_seconds cfg);
          dem = card (holding (w_rides w) (\<lambda>r. r_zone_id r = Some z \<and> since \<le> created_at r \<and> is_active r));
          sply = card (holding (w_drivers w) (\<lambda>d. d_status d = AVAILABLE \<and> d_zone_id d = z))
      in \<lparr>s_zone_id = z, s_demand = dem, s_supply = sply, multiplier = surge_formula cfg dem sply\<rparr>)"

definition recent_zones :: "settings \<Rightarrow> world \<Rightarrow> string set" where
  "recent_zones cfg w = {z. \<exists>i r. lookup (w_rides w) i = Some r \<and> r_zone_id r = Some z
     \<and> now_seconds w - real_of_int (surge_demand_window_seconds cfg) \<le> created_at r}"

text \<open>What the body says of the committed rows, the clock and the trackers.\<close>

fun reported :: "settings \<Rightarrow> world \<Rightarrow> request \<Rightarrow> body \<Rightarrow> bool" where
  "reported cfg w (ListDrivers st) b \<longleftrightarrow> (\<exists>ds. b = BDrivers ds \<and> distinct (map d_id ds)
     \<and> set ds = {d \<in> ran (lookup (w_drivers w)). \<forall>s. st = Some s \<longrightarrow> d_status d = s})"
| "reported cfg w (ReadDriver i) b \<longleftrightarrow> (\<exists>d. b = BDriver d \<and> lookup (w_drivers w) i = Some d)"
| "reported cfg w (ReadRide i) b \<longleftrightarrow> (\<exists>r. b = BRide (to_ride_response r) \<and> lookup (w_rides w) i = Some r)"
| "reported cfg w (ReadZoneSurge z) b \<longleftrightarrow> b = BSurge (surge_now cfg w z)"
| "reported cfg w ReadStats b \<longleftrightarrow> (\<exists>s. b = BStats s
     \<and> st_available_drivers s = card (holding (w_drivers w) (\<lambda>d. d_status d = AVAILABLE))
     \<and> st_busy_drivers s = card (holding (w_drivers w) (\<lambda>d. d_status d = BUSY))
     \<and> st_active_rides s = card (holding (w_rides w) is_active)
     \<and> st_completed_rides s = card (holding (w_rides w) (\<lambda>r. r_status r = COMPLETED))
     \<and> st_cancelled_rides s = card (holding (w_rides w) (\<lambda>r. r_status r = CANCELLED))
     \<and> st_failed_matches s = failed_matches_total (w_metrics w)
     \<and> st_lock_contention_count s = lock_contention_total (w_metrics w)
     \<and> (\<exists>zones. distinct zones \<and> set zones = recent_zones cfg w
          \<and> st_surge_by_zone s = map (\<lambda>z. (z, surge_now cfg w z)) zones))"
| "reported cfg w _ b \<longleftrightarrow> True"

lemma exec_success:
  "exec t ch c w = Some (r, w') \<Longrightarrow> database_call c \<Longrightarrow> \<nexists>e. r = RExn e \<Longrightarrow> exec_db t ch c w = Some (r, w')"
  using succeeded by blast

lemma alone_db:
  assumes "database_call c" and "\<And>ch r w'. exec_db t ch c w = Some (r, w') \<Longrightarrow> \<forall>x. proj r = Some x \<longrightarrow> P x w'"
  shows "alone t (ask c proj) w P"
  by (rule alone_ask) (rule assms(2), rule exec_success [OF _ assms(1)])

lemma alone_count:
  assumes "idle t w"
  shows "alone t (ask (CountDrivers P) un_nat) w (\<lambda>n w'. n = card (holding (w_drivers w) P) \<and> w' = w)"
    and "alone t (ask (CountRides Q) un_nat) w (\<lambda>n w'. n = card (holding (w_rides w) Q) \<and> w' = w)"
proof -
  have d: "length (filter P (view_rows t (w_drivers w))) = card (holding (w_drivers w) P)"
    and r: "length (filter Q (view_rows t (w_rides w))) = card (holding (w_rides w) Q)"
    using assms by (simp_all add: idle_def idle_rows(1))
  show "alone t (ask (CountDrivers P) un_nat) w (\<lambda>n w'. n = card (holding (w_drivers w) P) \<and> w' = w)"
    by (rule alone_db) (auto simp: d)
  show "alone t (ask (CountRides Q) un_nat) w (\<lambda>n w'. n = card (holding (w_rides w) Q) \<and> w' = w)"
    by (rule alone_db) (auto simp: r)
qed

lemma alone_now: "alone t utc_now w (\<lambda>x w'. x = now_seconds w \<and> w' = w)"
  by (rule alone_ask) (auto simp: exec_def split: option.splits if_splits)

lemma alone_local:
  "alone t (ask MetricsSnapshot un_snapshot) w (\<lambda>s w'. s = snapshot (now_seconds w) (w_metrics w) \<and> w' = w)"
  "alone t (ask DbPercentiles un_triple) w (\<lambda>_ w'. w' = w)"
  by (rule alone_ask; auto simp: exec_def split: option.splits if_splits prod.splits)+

lemma alone_then:
  assumes "alone t p w (\<lambda>x w'. P x \<and> w' = w)" and "\<And>x. P x \<Longrightarrow> alone t (f x) w Q"
  shows "alone t (pbind p f) w Q"
  by (rule alone_pbindI [OF alone_mono [OF assms(1)]]) (use assms(2) in blast)

lemma active_in: "r_status r \<in> set ACTIVE_RIDE_STATUSES \<longleftrightarrow> is_active r"
  by (simp add: is_active_iff ACTIVE_RIDE_STATUSES_def)

lemma alone_zone_surge:
  assumes "idle t w"
  shows "alone t (zone_surge cfg z (Some (now_seconds w))) w (\<lambda>s w'. s = surge_now cfg w z \<and> w' = w)"
    and "alone t (zone_surge cfg z None) w (\<lambda>s w'. s = surge_now cfg w z \<and> w' = w)"
proof -
  let ?counts = "\<lambda>now. pbind (count_recent_active_in_zone z (now - real_of_int (surge_demand_window_seconds cfg))) (\<lambda>dem.
     pbind (count_available_in_zone z) (\<lambda>sply.
     Return \<lparr>s_zone_id = z, s_demand = dem, s_supply = sply, multiplier = surge_formula cfg dem sply\<rparr>))"
  have counts: "alone t (?counts (now_seconds w)) w (\<lambda>s w'. s = surge_now cfg w z \<and> w' = w)"
    unfolding count_recent_active_in_zone_def count_available_in_zone_def active_in
    by (intro alone_then [OF alone_count(2) [OF assms]] alone_then [OF alone_count(1) [OF assms]])
      (simp add: surge_now_def Let_def)
  then show "alone t (zone_surge cfg z (Some (now_seconds w))) w (\<lambda>s w'. s = surge_now cfg w z \<and> w' = w)"
    by (simp add: zone_surge_def Let_def)
  show "alone t (zone_surge cfg z None) w (\<lambda>s w'. s = surge_now cfg w z \<and> w' = w)"
    unfolding zone_surge_def Let_def option.case by (rule alone_then [OF alone_now]) (simp only: counts)
qed

lemma alone_surge_of_zones:
  assumes "idle t w"
  shows "alone t (surge_of_zones cfg (now_seconds w) zs) w (\<lambda>s w'. s = map (\<lambda>z. (z, surge_now cfg w z)) zs \<and> w' = w)"
proof (induction zs)
  case (Cons z zs)
  show ?case
    unfolding surge_of_zones.simps
    by (rule alone_then [OF alone_zone_surge(1) [OF assms]], rule alone_then [OF Cons]) simp
qed simp

lemma alone_surge_by_zone:
  assumes "idle t w"
  shows "alone t (surge_by_zone cfg None) w (\<lambda>s w'. (\<exists>zones. distinct zones \<and> set zones = recent_zones cfg w
     \<and> s = map (\<lambda>z. (z, surge_now cfg w z)) zones) \<and> w' = w)"
proof -
  let ?since = "now_seconds w - real_of_int (surge_demand_window_seconds cfg)"
  have zones: "alone t (list_recent_zone_ids ?since) w (\<lambda>zs w'. (distinct zs \<and> set zs = recent_zones cfg w) \<and> w' = w)"
    unfolding list_recent_zone_ids_def
  proof (rule alone_db)
    fix ch r w'
    let ?l = "List.map_filter r_zone_id (filter (\<lambda>r. r_zone_id r \<noteq> None \<and> ?since \<le> created_at r) (view_rows t (w_rides w)))"
    assume "exec_db t ch (SelectRideZones (\<lambda>r. r_zone_id r \<noteq> None \<and> ?since \<le> created_at r)) w = Some (r, w')"
    then have r: "r = RStrs (remdups ?l)" "w' = w" unfolding exec_db_simps by blast+
    have "set (view_rows t (w_rides w)) = ran (lookup (w_rides w))" using assms by (simp add: idle_def idle_rows(2))
    then have "set ?l = recent_zones cfg w"
      by (force simp: List.map_filter_def recent_zones_def ran_def)
    then show "\<forall>x. un_strs r = Some x \<longrightarrow> (distinct x \<and> set x = recent_zones cfg w) \<and> w' = w"
      unfolding r by (simp only: un_strs.simps option.inject) (metis distinct_remdups set_remdups)
  qed simp
  show ?thesis
    unfolding surge_by_zone_def Let_def option.case
    by (rule alone_then [OF alone_now], simp only:, rule alone_then [OF zones], rule alone_mono [OF alone_surge_of_zones [OF assms]]) blast
qed

lemma alone_status_counts:
  assumes "idle t w"
  shows "alone t (count_rides_by_status st) w (\<lambda>n w'. n = card (holding (w_rides w) (\<lambda>r. r_status r = st)) \<and> w' = w)"
    and "alone t (count_drivers_by_status ds) w (\<lambda>n w'. n = card (holding (w_drivers w) (\<lambda>d. d_status d = ds)) \<and> w' = w)"
  unfolding count_rides_by_status_def count_drivers_by_status_def by (rule alone_count [OF assms])+

lemma finite_holding: "finite (holding T P)"
  by (rule finite_subset [OF _ finite_set [of "row_ids T"]]) (use lookup_row_id [of T] in \<open>auto simp: holding_def\<close>)

lemma holding_active:
  "card (holding T is_active) = card (holding T (\<lambda>r. r_status r = REQUESTED))
     + card (holding T (\<lambda>r. r_status r = MATCHED)) + card (holding T (\<lambda>r. r_status r = IN_PROGRESS))"
proof -
  let ?H = "\<lambda>st. holding T (\<lambda>r. r_status r = st)"
  have "holding T is_active = ?H REQUESTED \<union> (?H MATCHED \<union> ?H IN_PROGRESS)"
    by (auto simp: holding_def is_active_iff)
  moreover have "?H MATCHED \<inter> ?H IN_PROGRESS = {}" "?H REQUESTED \<inter> (?H MATCHED \<union> ?H IN_PROGRESS) = {}"
    by (auto simp: holding_def)
  ultimately show ?thesis by (simp only: card_Un_disjoint finite_holding finite_UnI add.assoc)
qed

lemma alone_sum_counts:
  assumes "idle t w"
  shows "alone t (sum_counts ss) w (\<lambda>n w'. n = (\<Sum>s \<leftarrow> ss. card (holding (w_rides w) (\<lambda>r. r_status r = s))) \<and> w' = w)"
proof (induction ss)
  case (Cons s ss)
  show ?case
    unfolding sum_counts.simps
    by (rule alone_then [OF alone_status_counts(1) [OF assms]], rule alone_then [OF Cons]) simp
qed simp

lemma alone_stats:
  assumes "idle t w"
  shows "alone t (get_stats cfg) w (\<lambda>s _. reported cfg w ReadStats (BStats s))"
proof -
  note c = alone_status_counts [OF assms]
  show ?thesis
    unfolding get_stats_def
    apply (rule alone_then [OF alone_sum_counts [OF assms]])
    apply (rule alone_then [OF alone_local(1)])
    apply (rule alone_then [where P = "\<lambda>_. True"], rule alone_mono [OF alone_local(2)], simp)
    apply (rule alone_then [OF alone_surge_by_zone [OF assms]])
    apply (rule alone_then [OF c(2)], rule alone_then [OF c(2)], rule alone_then [OF c(1)], rule alone_then [OF c(1)])
    apply (simp add: snapshot_fields ACTIVE_RIDE_STATUSES_def holding_active)
    done
qed

lemma alone_select:
  assumes "idle t w" and "keyed_world w"
  shows "alone t (ask (SelectDrivers P) un_drivers) w
    (\<lambda>ds _. distinct (map d_id ds) \<and> set ds = {d \<in> ran (lookup (w_drivers w)). P d})"
proof (rule alone_db)
  fix ch r w'
  let ?rows = "filter P (view_rows t (w_drivers w))"
  assume "exec_db t ch (SelectDrivers P) w = Some (r, w')"
  then obtain ordered where o: "mset ordered = mset ?rows" "r = RDrivers (map (driver_object (w_sessions w t)) ordered)"
    by (auto simp: Let_def split: if_splits)
  have "driver_object (w_sessions w t) = (\<lambda>d. d)"
    using assms(1) by (auto simp: idle_def driver_object_def fresh_session_def)
  then have r: "r = RDrivers ordered" using o(2) by simp
  have "distinct (map d_id (view_rows t (w_drivers w)))"
    using assms by (simp add: idle_def idle_rows(3) keyed_world_def)
  then have "distinct (map d_id ?rows)" by (rule distinct_map_filter)
  then have "distinct (map d_id ordered)"
    using o(1) mset_eq_imp_distinct_iff [of "map d_id ordered" "map d_id ?rows"] by (simp add: mset_map)
  moreover have "set ordered = {d \<in> ran (lookup (w_drivers w)). P d}"
    using mset_eq_setD [OF o(1)] assms(1) idle_rows(2) [of "w_drivers w" t] by (auto simp: idle_def)
  ultimately show "\<forall>x. un_drivers r = Some x \<longrightarrow> distinct (map d_id x) \<and> set x = {d \<in> ran (lookup (w_drivers w)). P d}"
    by (simp add: r)
qed simp

lemma alone_get:
  assumes "idle t w"
  shows "alone t (ask (GetDriver i b) un_driver) w (\<lambda>d _. d = lookup (w_drivers w) i)"
    and "alone t (ask (GetRide i) un_ride) w (\<lambda>r _. r = lookup (w_rides w) i)"
proof -
  have v: "view t (w_drivers w) i = lookup (w_drivers w) i" "view t (w_rides w) i = lookup (w_rides w) i"
    using assms by (simp_all add: idle_def view_unlocked)
  show "alone t (ask (GetDriver i b) un_driver) w (\<lambda>d _. d = lookup (w_drivers w) i)"
    by (rule alone_db) (use assms v in \<open>auto simp: idle_def fresh_session_def load_driver_row_def split: option.splits\<close>)
  show "alone t (ask (GetRide i) un_ride) w (\<lambda>r _. r = lookup (w_rides w) i)"
    by (rule alone_db) (use assms v in \<open>auto simp: idle_def fresh_session_def load_ride_row_def split: option.splits\<close>)
qed

lemma alone_reads:
  assumes "idle t w" and "keyed_world w"
  shows "alone t (list_drivers st) w (\<lambda>ds _. reported cfg w (ListDrivers st) (BDrivers ds))"
    and "alone t (get_driver i) w (\<lambda>d _. reported cfg w (ReadDriver i) (BDriver d))"
    and "alone t (get_ride i) w (\<lambda>r _. reported cfg w (ReadRide i) (BRide (to_ride_response r)))"
proof -
  show "alone t (list_drivers st) w (\<lambda>ds _. reported cfg w (ListDrivers st) (BDrivers ds))"
    unfolding list_drivers_def list_by_status_def list_all_drivers_def
    by (cases st) (auto intro: alone_mono [OF alone_select [OF assms]])
  show "alone t (get_driver i) w (\<lambda>d _. reported cfg w (ReadDriver i) (BDriver d))"
    unfolding get_driver_def driver_get_by_id_def
    by (rule alone_pbindI [OF alone_mono [OF alone_get(1) [OF assms(1)]]]) (simp split: option.split)
  show "alone t (get_ride i) w (\<lambda>r _. reported cfg w (ReadRide i) (BRide (to_ride_response r)))"
    unfolding get_ride_def ride_get_by_id_def
    by (rule alone_pbindI [OF alone_mono [OF alone_get(2) [OF assms(1)]]]) (auto split: option.split)
qed

lemma alone_reported:
  assumes "idle t w" and "keyed_world w"
  shows "alone t (serve h cfg vtext req) w
    (\<lambda>resp _. \<forall>st b. resp = Response st b \<longrightarrow> \<not> is_error_body b \<longrightarrow> reported cfg w req b)"
proof (cases "valid_request req")
  case False
  then show ?thesis by (simp add: serve_def error_response_def)
next
  case True
  have trivial: "alone t p w (\<lambda>resp _. \<forall>st b. resp = Response st b \<longrightarrow> \<not> is_error_body b \<longrightarrow> True)" for p
    by (simp add: alone_def)
  have "alone t (endpoint h cfg req) w
      (\<lambda>resp _. \<forall>st b. resp = Response st b \<longrightarrow> \<not> is_error_body b \<longrightarrow> reported cfg w req b)"
  proof (cases req)
    case (ListDrivers st)
    then show ?thesis using alone_respond [OF alone_reads(1) [OF assms]] by simp
  next
    case (ReadDriver i)
    then show ?thesis using alone_respond [OF alone_reads(2) [OF assms]] by simp
  next
    case (ReadRide i)
    then show ?thesis using alone_respond [OF alone_reads(3) [OF assms]] by simp
  next
    case (ReadZoneSurge z)
    have "alone t (get_zone_surge cfg z) w (\<lambda>s _. reported cfg w req (BSurge s))"
      unfolding get_zone_surge_def by (rule alone_mono [OF alone_zone_surge(2) [OF assms(1)]]) (simp add: ReadZoneSurge)
    from alone_respond [OF this] show ?thesis by (simp add: ReadZoneSurge)
  next
    case ReadStats
    then show ?thesis using alone_respond [OF alone_stats [OF assms(1)]] by simp
  qed (use trivial in simp_all)
  then show ?thesis using True by (simp add: serve_def)
qed

text \<open>C10: the reading endpoints report what is committed. In every reachable state, whatever other requests
  have in progress, a request that is served without another step in between and succeeds has the
  status and model its route declares, and reports: exactly the committed drivers (with the wanted status, each once); the committed row of the driver or
  ride asked for; the demand, supply and multiplier of a zone as the committed rides and drivers give
  them; the counts of committed rows per status, the counters of the trackers, and the surge of exactly
  the zones with a recent ride.\<close>

theorem reads_report_what_is_committed:
  assumes "reachable h cfg vtext C" and "threads C t = None"
    and run: "run_thread t chs (serve h cfg vtext req) (the_world C) = Some (Response status b, w')" and "\<not> is_error_body b"
  shows "declared req status b \<and> reported cfg (the_world C) req b"
proof
  have k: "keyed_world (the_world C)" using inv_reachable [OF assms(1)] by (simp add: service_inv_def)
  obtain tr where "exchange (platform_answers t) (serve h cfg vtext req) (the_world C) tr (Inr (Response status b)) w'"
    using run_thread_prog [OF run] run_prog_exchange by blast
  from platform.contract [OF conforms_serve [unfolded delivers_def] this k] assms(4)
  show "declared req status b" by (simp add: conforms_def)
  from aloneD [OF alone_reported [OF idle_reachable [OF assms(1,2)] k] run] assms(4)
  show "reported cfg (the_world C) req b" by blast
qed

theorem reads_report_what_is_committed_witness:
  "declared (ReadRide ''r1'') 200 (BRide (to_ride_response matched_r1))
    \<and> reported default_settings matched_world (ReadRide ''r1'') (BRide (to_ride_response matched_r1))"
proof -
  obtain w' where "run_thread 0 (replicate 3 (smooth ''x''))
      (serve point_h3 default_settings (\<lambda>_. []) (ReadRide ''r1'')) matched_world
      = Some (Response 200 (BRide (to_ride_response matched_r1)), w')"
    using ride_shown by blast
  with reads_report_what_is_committed [OF matched_reachable, of 0 "replicate 3 (smooth ''x'')" "ReadRide ''r1''"]
  show ?thesis by (simp add: resting_def)
qed

end
