(* ===== verification/Undisturbed.thy ===== *)
theory Undisturbed
  imports ReadModel SearchProps
begin

text \<open>
  A request that is served while nothing else happens and no dependency fails: a calculus of what a program
  then gives, and the answers of the platform to the statements of a request, in terms of the committed data.
\<close>

section \<open>Serving without failures\<close>

primrec served :: "tid \<Rightarrow> 'a prog \<Rightarrow> (exn + 'a \<Rightarrow> world \<Rightarrow> bool) \<Rightarrow> world \<Rightarrow> bool" where
  "served t (Return x) P w = P (Inr x) w"
| "served t (Raise e) P w = P (Inl e) w"
| "served t (Call c k) P w =
     (\<forall>ch r w'. ch_fail ch = None \<longrightarrow> exec t ch c w = Some (r, w') \<longrightarrow> served t (k r) P w')"

lemma served_run_thread:
  "run_thread t chs p w = Some (x, w') \<Longrightarrow> \<forall>ch \<in> set chs. ch_fail ch = None \<Longrightarrow> served t p P w \<Longrightarrow> P (Inr x) w'"
  by (induction t chs p w rule: run_thread.induct) (fastforce split: option.splits)+

lemma served_mono: "served t p P w \<Longrightarrow> (\<And>res w'. P res w' \<Longrightarrow> Q res w') \<Longrightarrow> served t p Q w"
  by (induction p arbitrary: w) auto

lemma served_handle:
  "served t (handle p f g) P w \<longleftrightarrow>
     served t p (\<lambda>res w'. case res of Inr x \<Rightarrow> served t (f x) P w' | Inl e \<Rightarrow> served t (g e) P w') w"
  by (induction p arbitrary: w) auto

lemma served_handleI:
  assumes "served t p R w"
    and "\<And>x w'. R (Inr x) w' \<Longrightarrow> served t (f x) P w'" and "\<And>e w'. R (Inl e) w' \<Longrightarrow> served t (g e) P w'"
  shows "served t (handle p f g) P w"
  unfolding served_handle by (rule served_mono [OF assms(1)]) (use assms(2,3) in \<open>auto split: sum.split\<close>)

text \<open>\<open>yields\<close>: the program returns.\<close>

abbreviation yields :: "tid \<Rightarrow> 'a prog \<Rightarrow> ('a \<Rightarrow> world \<Rightarrow> bool) \<Rightarrow> world \<Rightarrow> bool" where
  "yields t p P \<equiv> served t p (\<lambda>res w. \<exists>x. res = Inr x \<and> P x w)"

lemma served_pbindI:
  assumes "yields t p R w" and "\<And>x w'. R x w' \<Longrightarrow> served t (f x) P w'"
  shows "served t (pbind p f) P w"
  unfolding pbind_def by (rule served_handleI [OF assms(1)]) (use assms(2) in auto)

lemma served_pbind_fails:
  assumes "served t p (\<lambda>res w'. \<exists>e. res = Inl e \<and> P (Inl e) w') w"
  shows "served t (pbind p f) P w"
  unfolding pbind_def by (rule served_handleI [OF assms]) auto

lemma served_finallyI:
  assumes "yields t p R w" and "\<And>x w'. R x w' \<Longrightarrow> yields t q (\<lambda>_. P x) w'"
  shows "yields t (try_finally p q) P w"
  unfolding try_finally_def
  by (rule served_handleI [OF assms(1)]) (use assms(2) in \<open>auto intro!: served_pbindI\<close>)

lemma served_ask:
  "served t (ask c proj) P w \<longleftrightarrow>
     (\<forall>ch r w'. ch_fail ch = None \<longrightarrow> exec t ch c w = Some (r, w') \<longrightarrow> P (ask_result proj r) w')"
proof -
  have "served t (case r of RExn e \<Rightarrow> Raise e
     | _ \<Rightarrow> (case proj r of Some x \<Rightarrow> Return x | None \<Rightarrow> Raise (ValueError ''ill-typed reply''))) P w'
     = P (ask_result proj r) w'" for r w'
    by (cases r; cases "proj r") (simp_all add: ask_result_def)
  then show ?thesis by (auto simp: ask_def)
qed

lemma yields_askI:
  assumes "\<And>ch r w'. ch_fail ch = None \<Longrightarrow> exec t ch c w = Some (r, w') \<Longrightarrow> \<exists>x. ask_result proj r = Inr x \<and> P x w'"
  shows "yields t (ask c proj) P w"
  using assms by (simp add: served_ask)

lemma ask_results [simp]:
  "ask_result un_unit RUnit = Inr ()" "ask_result un_bool (RBool b) = Inr b" "ask_result un_nat (RNat n) = Inr n"
  "ask_result un_real (RReal x) = Inr x" "ask_result un_str (RStr s) = Inr s" "ask_result un_driver (RDriver d) = Inr d"
  "ask_result un_drivers (RDrivers ds) = Inr ds" "ask_result un_ride (RRide r) = Inr r" "ask_result un_rides (RRides rs) = Inr rs"
  by (simp_all add: ask_result_def)

lemma yields_must_exist: "yields t p (\<lambda>x w'. \<exists>v. x = Some v \<and> P v w') w \<Longrightarrow> yields t (must_exist p) P w"
  unfolding must_exist_def by (erule served_pbindI) auto

section \<open>The committed data\<close>

record facts =
  f_drivers :: "uuid \<Rightarrow> driver option"
  f_rides :: "uuid \<Rightarrow> ride option"
  f_riders :: "uuid \<Rightarrow> rider option"
  f_redis :: keyspace
  f_clock_ms :: real

abbreviation f_now :: "facts \<Rightarrow> real" where
  "f_now F \<equiv> f_clock_ms F / 1000"

definition facts_of :: "world \<Rightarrow> facts" where
  "facts_of w = \<lparr>f_drivers = lookup (w_drivers w), f_rides = lookup (w_rides w), f_riders = lookup (w_riders w),
     f_redis = w_redis w, f_clock_ms = w_clock_ms w\<rparr>"

text \<open>Nobody has written anything that is not committed, and what the session of \<open>t\<close> holds is what is committed.\<close>

definition unlocked :: "'a table \<Rightarrow> bool" where
  "unlocked T \<longleftrightarrow> pending T = []"

definition steady :: "tid \<Rightarrow> facts \<Rightarrow> world \<Rightarrow> bool" where
  "steady t F w \<longleftrightarrow>
     facts_of w = F \<and> keyed_world w \<and> unlocked (w_drivers w) \<and> unlocked (w_rides w) \<and> unlocked (w_riders w)
     \<and> \<not> broken (w_sessions w t)
     \<and> (\<forall>(i, l, c) \<in> set (id_drivers (w_sessions w t)). l = c \<and> f_drivers F i = Some c)
     \<and> (\<forall>(i, l, c) \<in> set (id_rides (w_sessions w t)). l = c \<and> f_rides F i = Some c)"

lemma unlocked_simps:
  assumes "unlocked T"
  shows "row_lock T i = None" "view t T = lookup T" "locked_by_other t T i \<longleftrightarrow> False" "unlocked (commit_table t T)"
  using assms by (auto simp: unlocked_def row_lock_def view_def outcome_of_def locked_by_other_def commit_table_def
      drop_pending_def)

lemma steady_data:
  assumes "steady t F w"
  shows "lookup (w_drivers w) = f_drivers F" "lookup (w_rides w) = f_rides F" "lookup (w_riders w) = f_riders F"
    "w_redis w = f_redis F" "w_clock_ms w = f_clock_ms F"
    "view t' (w_drivers w) = f_drivers F" "view t' (w_rides w) = f_rides F" "view t' (w_riders w) = f_riders F"
  using assms unlocked_simps(2) by (auto simp: steady_def facts_of_def)

lemma steady_exec_db:
  "steady t F w \<Longrightarrow> database_call c \<Longrightarrow> ch_fail ch = None \<Longrightarrow> exec t ch c w = exec_db t ch c w"
  by (auto simp: exec_def steady_def)

lemma exec_other_calm: "\<not> database_call c \<Longrightarrow> ch_fail ch = None \<Longrightarrow> exec t ch c w = exec_other t ch c w"
  by (simp add: exec_def)

lemma steady_keyed:
  assumes "steady t F w"
  shows "f_drivers F i = Some d \<Longrightarrow> d_id d = i" "f_rides F i = Some r \<Longrightarrow> r_id r = i"
  using assms keyed_table_lookup [of d_id "w_drivers w"] keyed_table_lookup [of r_id "w_rides w"]
  by (auto simp: steady_def facts_of_def keyed_world_def)

lemma steady_objects:
  assumes "steady t F w"
  shows "map_of (id_drivers (w_sessions w t)) i = Some (l, c) \<Longrightarrow> l = c \<and> f_drivers F i = Some c"
    and "map_of (id_rides (w_sessions w t)) j = Some (l', c') \<Longrightarrow> l' = c' \<and> f_rides F j = Some c'"
  using assms by (auto simp: steady_def dest!: map_of_SomeD)

lemma steady_locks:
  assumes "steady t F w"
  shows "row_lock (w_drivers w) i = None" "row_lock (w_rides w) i = None" "row_lock (w_riders w) i = None"
  using assms by (simp_all add: steady_def unlocked_simps(1))

section \<open>Statements that read\<close>

lemma steady_session:
  assumes "steady t F w" and "exec t ch c w = Some (r, w')" and "w' = session_upd t f w"
    and "\<not> broken (f (w_sessions w t))"
    and "\<And>i l c. (i, l, c) \<in> set (id_drivers (f (w_sessions w t))) \<Longrightarrow> (i, l, c) \<in> set (id_drivers (w_sessions w t)) \<or> (l = c \<and> f_drivers F i = Some c)"
    and "\<And>i l c. (i, l, c) \<in> set (id_rides (f (w_sessions w t))) \<Longrightarrow> (i, l, c) \<in> set (id_rides (w_sessions w t)) \<or> (l = c \<and> f_rides F i = Some c)"
  shows "steady t F w'"
proof -
  have "keyed_world w'" using effects_keyed [OF exec_effects [OF assms(2)]] assms(1) by (auto simp: steady_def)
  moreover have "facts_of w' = facts_of w" by (simp add: assms(3) facts_of_def session_upd_def)
  ultimately show ?thesis
    using assms(1,4-6) unfolding steady_def assms(3) by fastforce
qed

lemma set_update: "x \<in> set (AList.update k v xs) \<Longrightarrow> x \<in> set xs \<or> x = (k, v)"
  using set_update_subset [of k v xs] by blast

lemma seen_drivers:
  "(i, l, c) \<in> set (id_drivers (fold see_driver ds se)) \<Longrightarrow>
     (i, l, c) \<in> set (id_drivers se) \<or> (l = c \<and> c \<in> set ds \<and> i = d_id c)"
proof (induction ds arbitrary: se)
  case (Cons x ds)
  from Cons.IH [of "see_driver x se"] Cons.prems show ?case
    by (auto simp: see_driver_def split: if_splits dest!: set_update)
qed simp

lemma yields_get_ride:
  assumes "steady t F w"
  shows "yields t (ask (GetRide i) un_ride) (\<lambda>x w'. x = f_rides F i \<and> steady t F w') w"
    and "yields t (ask (RefreshRide i) un_ride) (\<lambda>x w'. x = f_rides F i \<and> steady t F w') w"
proof -
  note data = steady_data [OF assms]
  have load: "r = RRide (f_rides F i) \<and> steady t F w'"
    if ex: "exec t ch c w = Some (r, w')" and l: "load_ride_row t i w = Some (r, w')" for ch c r w'
  proof (cases "f_rides F i")
    case None
    then show ?thesis using l assms by (simp add: load_ride_row_def data)
  next
    case (Some x)
    then have r: "r = RRide (Some x)" and w': "w' = session_upd t (\<lambda>s. s\<lparr>id_rides := AList.update i (x, x) (id_rides s)\<rparr>) w"
      using l by (simp_all add: load_ride_row_def data)
    have "steady t F w'"
      by (rule steady_session [OF assms ex w']) (use assms Some in \<open>auto simp: steady_def dest!: set_update\<close>)
    then show ?thesis using Some r by simp
  qed
  have "\<exists>x. ask_result un_ride r = Inr x \<and> x = f_rides F i \<and> steady t F w'"
    if "ch_fail ch = None" and ex: "exec t ch (GetRide i) w = Some (r, w')" for ch r w'
  proof (cases "map_of (id_rides (w_sessions w t)) i")
    case None
    then have "load_ride_row t i w = Some (r, w')" using that steady_exec_db [OF assms] by simp
    then show ?thesis using load [OF ex] by simp
  next
    case (Some lc)
    then have "r = RRide (Some (snd lc))" "w' = w" using that steady_exec_db [OF assms] by (auto split: prod.splits)
    then show ?thesis using Some steady_objects(2) [OF assms, of i "fst lc" "snd lc"] assms by simp
  qed
  then show "yields t (ask (GetRide i) un_ride) (\<lambda>x w'. x = f_rides F i \<and> steady t F w') w" by (rule yields_askI)
  show "yields t (ask (RefreshRide i) un_ride) (\<lambda>x w'. x = f_rides F i \<and> steady t F w') w"
    proof (rule yields_askI)
    fix ch r w' assume "ch_fail ch = None" and ex: "exec t ch (RefreshRide i) w = Some (r, w')"
    then have "load_ride_row t i w = Some (r, w')" using steady_exec_db [OF assms] by simp
    then show "\<exists>x. ask_result un_ride r = Inr x \<and> x = f_rides F i \<and> steady t F w'" using load [OF ex] by simp
  qed
qed

lemma yields_get_driver:
  assumes "steady t F w"
  shows "yields t (ask (GetDriver i fresh) un_driver)
    (\<lambda>x w'. x = f_drivers F i \<and> steady t F w'
       \<and> (\<forall>d. x = Some d \<longrightarrow> map_of (id_drivers (w_sessions w' t)) i = Some (d, d))) w"
proof -
  note data = steady_data [OF assms]
  have load: "r = RDriver (f_drivers F i) \<and> steady t F w'
      \<and> (\<forall>d. f_drivers F i = Some d \<longrightarrow> map_of (id_drivers (w_sessions w' t)) i = Some (d, d))"
    if ex: "exec t ch c w = Some (r, w')" and l: "load_driver_row t i w = Some (r, w')" for ch c r w'
  proof (cases "f_drivers F i")
    case None
    then show ?thesis using l assms by (simp add: load_driver_row_def data)
  next
    case (Some x)
    then have r: "r = RDriver (Some x)" and w': "w' = session_upd t (\<lambda>s. s\<lparr>id_drivers := AList.update i (x, x) (id_drivers s)\<rparr>) w"
      using l by (simp_all add: load_driver_row_def data)
    have "steady t F w'"
      by (rule steady_session [OF assms ex w']) (use assms Some in \<open>auto simp: steady_def dest!: set_update\<close>)
    then show ?thesis using Some r w' by simp
  qed
  show ?thesis
  proof (rule yields_askI)
    fix ch r w' assume c: "ch_fail ch = None" and ex: "exec t ch (GetDriver i fresh) w = Some (r, w')"
    have db: "exec_db t ch (GetDriver i fresh) w = Some (r, w')" using c ex steady_exec_db [OF assms] by simp
    show "\<exists>x. ask_result un_driver r = Inr x \<and> x = f_drivers F i \<and> steady t F w'
        \<and> (\<forall>d. x = Some d \<longrightarrow> map_of (id_drivers (w_sessions w' t)) i = Some (d, d))"
    proof (cases "\<not> fresh \<and> map_of (id_drivers (w_sessions w t)) i \<noteq> None")
      case True
      then obtain l c where lc: "map_of (id_drivers (w_sessions w t)) i = Some (l, c)" by auto
      then have "r = RDriver (Some c)" "w' = w" using db True by auto
      then show ?thesis using lc steady_objects(1) [OF assms lc] assms by simp
    next
      case False
      then have "load_driver_row t i w = Some (r, w')" using db by (auto split: option.splits)
      then show ?thesis using load [OF ex] by simp
    qed
  qed
qed

text \<open>The rows of the drivers as a list, in some order.\<close>

definition lists_drivers :: "driver list \<Rightarrow> facts \<Rightarrow> bool" where
  "lists_drivers ds F \<longleftrightarrow> distinct (map d_id ds) \<and> set ds = ran (f_drivers F)"

lemma lists_view_rows:
  assumes "steady t F w"
  shows "lists_drivers (view_rows t (w_drivers w)) F"
proof -
  have l: "\<forall>i. row_lock (w_drivers w) i \<noteq> Some t" and k: "keyed_table d_id (w_drivers w)"
    using assms steady_locks(1) [OF assms] by (simp_all add: steady_def keyed_world_def)
  show ?thesis
    unfolding lists_drivers_def idle_rows(2) [OF l] steady_data(1) [OF assms] using idle_rows(3) [OF l k] by simp
qed

lemma lists_drivers_mset:
  assumes "lists_drivers ds F" and "lists_drivers ds' F"
  shows "mset (filter P ds) = mset (filter P ds')"
proof -
  have "distinct ds" "distinct ds'" "set ds = set ds'"
    using assms distinct_map by (auto simp: lists_drivers_def)
  then have "mset ds = mset ds'" by (simp add: set_eq_iff_mset_eq_distinct)
  then show ?thesis by (metis mset_filter)
qed

lemma select_answer:
  assumes "steady t F w" and "lists_drivers ds F" and c: "ch_fail ch = None" and ex: "exec t ch (SelectDrivers P) w = Some (r, w')"
  shows "answers_from ds (SelectDrivers P) r \<and> steady t F w'"
proof -
  let ?rows = "filter P (view_rows t (w_drivers w))"
  have "exec_db t ch (SelectDrivers P) w = Some (r, w')" using c ex steady_exec_db [OF assms(1)] by simp
  then obtain xs where xs: "mset xs = mset ?rows" and r: "r = RDrivers (map (driver_object (w_sessions w t)) xs)"
      and w': "w' = session_upd t (fold see_driver xs) w"
    by (auto simp: Let_def split: if_splits)
  have rows: "f_drivers F (d_id d) = Some d" if "d \<in> set xs" for d
  proof -
    have "d \<in> ran (f_drivers F)"
      using that mset_eq_setD [OF xs] lists_view_rows [OF assms(1)] by (auto simp: lists_drivers_def)
    then show ?thesis using steady_keyed(1) [OF assms(1)] by (auto simp: ran_def)
  qed
  have "driver_object (w_sessions w t) d = d" if "d \<in> set xs" for d
    using rows [OF that] steady_objects(1) [OF assms(1)] by (fastforce simp: driver_object_def split: option.split)
  then have "map (driver_object (w_sessions w t)) xs = xs" by (rule map_idI)
  moreover have "steady t F w'"
    by (rule steady_session [OF assms(1) ex w'])
      (use assms(1) rows in \<open>auto simp: steady_def dest!: seen_drivers\<close>)
  ultimately show ?thesis
    using xs r lists_drivers_mset [OF lists_view_rows [OF assms(1)] assms(2)] by simp
qed

text \<open>What a search gives from a list of rows, it gives on the platform.\<close>

definition only_asks_drivers :: "call \<Rightarrow> bool" where
  "only_asks_drivers c \<longleftrightarrow> (\<exists>P. c = SelectDrivers P)"

lemma served_finds:
  assumes "finds ds p Q" and "all_calls only_asks_drivers p" and "steady t F w" and "lists_drivers ds F"
  shows "served t p (\<lambda>res w'. Q res \<and> steady t F w') w"
  using assms(1-3)
proof (induction p arbitrary: w)
  case (Call c k)
  obtain P where c: "c = SelectDrivers P" using Call.prems(2) by (auto simp: only_asks_drivers_def)
  show ?case
    unfolding served.simps
  proof (intro allI impI)
    fix ch r w' assume ch: "ch_fail ch = None" and ex: "exec t ch c w = Some (r, w')"
    have r: "answers_from ds c r" "steady t F w'"
      using select_answer [OF Call.prems(3) assms(4) ch ex [unfolded c]] by (simp_all add: c)
    then have "fleet_next ds () c r = Some ()" by (simp add: fleet_next_def)
    then have "finds ds (k r) Q" using Call.prems(1) by (auto dest: spec [of _ r])
    then show "served t (k r) (\<lambda>res w'. Q res \<and> steady t F w') w'"
      using Call.IH [of "k r" w'] Call.prems(2) r(2) by simp
  qed
qed simp_all

lemma search_asks_drivers: "all_calls only_asks_drivers (find_ranked_candidates h cfg lat lng target max_ring)"
proof -
  have "all_calls only_asks_drivers (search_rings h cell target ks cs)" for cell ks cs
    by (induction ks arbitrary: cs)
      (auto intro!: all_calls_pbind all_calls_if simp: list_available_in_cells_def only_asks_drivers_def Let_def split: sum.split)
  then show ?thesis by (auto intro!: all_calls_pbind simp: find_ranked_candidates_def Let_def)
qed

lemma yields_candidates:
  assumes "steady t F w" and "lists_drivers ds F" and "h3_documented h" and "0 \<le> max_ring"
  shows "yields t (find_ranked_candidates h cfg lat lng target max_ring)
    (\<lambda>ranked w'. mset (map fst ranked) = mset (near_drivers h cfg ds lat lng target max_ring)
       \<and> nearest_first lat lng ranked \<and> steady t F w') w"
proof -
  have "distinct (map d_id ds)" using assms(2) by (simp add: lists_drivers_def)
  from served_finds [OF finds_ranked [OF assms(3) this assms(4)] search_asks_drivers assms(1,2)]
  show ?thesis by (rule served_mono) auto
qed

text \<open>Clocks, counts, events and metrics.\<close>

lemma steady_elsewhere:
  assumes "steady t F w" and "w_drivers w' = w_drivers w" "w_rides w' = w_rides w" "w_riders w' = w_riders w"
    "w_sessions w' = w_sessions w" "w_clock_ms w' = w_clock_ms w"
  shows "steady t (F\<lparr>f_redis := w_redis w'\<rparr>) w'"
  using assms by (auto simp: steady_def facts_of_def keyed_world_def)

lemma steady_same:
  assumes "steady t F w" and "w_drivers w' = w_drivers w" "w_rides w' = w_rides w" "w_riders w' = w_riders w"
    "w_sessions w' = w_sessions w" "w_clock_ms w' = w_clock_ms w" "w_redis w' = w_redis w"
  shows "steady t F w'"
  using steady_elsewhere [OF assms(1-6)] steady_data(4) [OF assms(1)] assms(7) by simp

lemma yields_clock:
  assumes "steady t F w"
  shows "yields t utc_now (\<lambda>x w'. x = f_now F \<and> steady t F w') w" "yields t perf_counter (\<lambda>x w'. x = f_now F \<and> steady t F w') w"
  by (rule yields_askI, rule exI [of _ "f_now F"], use assms steady_data(5) [OF assms] in \<open>auto simp: exec_other_calm\<close>)+

lemma yields_told:
  assumes "steady t F w"
  shows "yields t (emit_event ty data) (\<lambda>_. steady t F) w" "yields t (record_metric oc secs) (\<lambda>_. steady t F) w"
  by (auto simp: emit_event_def record_metric_def exec_other_calm intro: steady_same [OF assms])

lemma yields_count:
  assumes "steady t F w"
  shows "yields t (ask (CountDrivers P) un_nat) (\<lambda>n w'. n = card {i. \<exists>d. f_drivers F i = Some d \<and> P d} \<and> steady t F w') w"
    and "yields t (ask (CountRides Q) un_nat) (\<lambda>n w'. n = card {i. \<exists>r. f_rides F i = Some r \<and> Q r} \<and> steady t F w') w"
  using idle_rows(1) [of "w_drivers w" t P] idle_rows(1) [of "w_rides w" t Q] steady_locks [OF assms] steady_data [OF assms] assms
  by (auto simp: served_ask steady_exec_db [OF assms] holding_def)

section \<open>Statements that write\<close>

text \<open>What the transaction of \<open>t\<close> will have committed, its session having nothing to flush.\<close>

definition seen_by :: "tid \<Rightarrow> world \<Rightarrow> facts" where
  "seen_by t w = \<lparr>f_drivers = view t (w_drivers w), f_rides = view t (w_rides w), f_riders = view t (w_riders w),
     f_redis = w_redis w, f_clock_ms = w_clock_ms w\<rparr>"

definition own_locks :: "tid \<Rightarrow> 'a table \<Rightarrow> bool" where
  "own_locks t T \<longleftrightarrow> (\<forall>i. row_lock T i = None \<or> row_lock T i = Some t)"

definition clean_session :: "session \<Rightarrow> bool" where
  "clean_session se \<longleftrightarrow> (\<forall>(i, l, c) \<in> set (id_drivers se). l = c) \<and> (\<forall>(i, l, c) \<in> set (id_rides se). l = c)"

definition staged :: "tid \<Rightarrow> facts \<Rightarrow> world \<Rightarrow> bool" where
  "staged t F w \<longleftrightarrow>
     keyed_world w \<and> \<not> broken (w_sessions w t) \<and> clean_session (w_sessions w t) \<and> seen_by t w = F
     \<and> own_locks t (w_drivers w) \<and> own_locks t (w_rides w) \<and> own_locks t (w_riders w)"

lemma steady_clean: "steady t F w \<Longrightarrow> clean_session (w_sessions w t)"
  by (auto simp: steady_def clean_session_def)

lemma steady_staged:
  assumes "steady t F w"
  shows "staged t F w"
proof -
  have "seen_by t w = facts_of w" using steady_data [OF assms] by (simp add: seen_by_def facts_of_def)
  then show ?thesis
    using steady_locks [OF assms] steady_clean [OF assms] assms by (simp add: staged_def own_locks_def steady_def)
qed

lemma unlocked_commit:
  assumes "own_locks t T"
  shows "unlocked (commit_table t T)"
proof -
  have "row_lock T i = Some t" if "(i, x) \<in> set (pending T)" for i x
    using assms that unfolding own_locks_def by (force simp: row_lock_def map_of_eq_None_iff)
  then show ?thesis by (auto simp: unlocked_def commit_table_def drop_pending_def filter_empty_conv)
qed

lemma flush_clean_session:
  assumes "clean_session (w_sessions w t)"
  shows "flush_world t w = Flushed w"
proof -
  let ?se = "w_sessions w t"
  have d: "\<forall>(i, l, c) \<in> set (id_drivers ?se). l = c" and r: "\<forall>(i, l, c) \<in> set (id_rides ?se). l = c"
    using assms by (simp_all add: clean_session_def)
  have "flush_drivers t now (id_drivers ?se) T = Flushed T" for now T
    by (rule flush_drivers_clean) (use d in \<open>auto simp: dirty_def\<close>)
  moreover have "flush_rides t now (id_rides ?se) T = Flushed T" for now T
    by (rule flush_rides_clean) (use r in auto)
  moreover have "map (\<lambda>(i, l, c). (i, c, c)) (id_drivers ?se) = id_drivers ?se" by (rule map_idI) (use d in auto)
  moreover have "map (\<lambda>(i, l, c). (i, c, c)) (id_rides ?se) = id_rides ?se" by (rule map_idI) (use r in auto)
  ultimately show ?thesis by (simp add: flush_world_def session_upd_def)
qed

lemma commit_staged:
  assumes "staged t F w"
  shows "steady t F (commit_world t w)"
proof -
  have "keyed_world (commit_world t w)" using effect_keyed [OF effect.commit] assms by (auto simp: staged_def)
  moreover have "unlocked (w_drivers (commit_world t w))" "unlocked (w_rides (commit_world t w))" "unlocked (w_riders (commit_world t w))"
    using assms by (auto simp: staged_def commit_world_def intro!: unlocked_commit)
  moreover have "facts_of (commit_world t w) = seen_by t w"
    by (simp add: seen_by_def facts_of_def commit_world_def session_upd_def fun_eq_iff)
  ultimately show ?thesis using assms by (simp add: steady_def staged_def)
qed

lemma yields_commit:
  assumes "staged t F w"
  shows "yields t db_commit (\<lambda>_. steady t F) w"
proof (rule yields_askI)
  fix ch r w' assume "ch_fail ch = None" and ex: "exec t ch Commit w = Some (r, w')"
  then have "flush_then t w (\<lambda>w. Some (RUnit, commit_world t w)) = Some (r, w')"
    using assms by (simp add: exec_def staged_def)
  then have "r = RUnit" "w' = commit_world t w"
    using flush_clean_session [of w t] assms by (auto simp: flush_then_def staged_def)
  then show "\<exists>x. ask_result un_unit r = Inr x \<and> steady t F w'" using commit_staged [OF assms] by simp
qed

text \<open>The insertion of a ride.\<close>

definition new_ride ::
  "facts \<Rightarrow> uuid \<Rightarrow> uuid \<Rightarrow> real \<Rightarrow> real \<Rightarrow> string option \<Rightarrow> string option \<Rightarrow> real option \<Rightarrow> ride" where
  "new_ride F i rider lat lng key zone_id surge =
     \<lparr>r_id = i, r_rider_id = rider, r_driver_id = None, r_status = REQUESTED, pickup_lat = lat, pickup_lng = lng,
      matched_at = None, fare = None, surge_multiplier = surge, r_zone_id = zone_id, idempotency_key = key,
      created_at = f_now F, updated_at = f_now F\<rparr>"

lemma unique_check_free:
  assumes "unlocked T" and "\<And>j y k. key x = Some k \<Longrightarrow> lookup T j = Some y \<Longrightarrow> j \<noteq> i \<Longrightarrow> key y \<noteq> Some k"
  shows "unique_check key t i x T = UniqueOk"
  using assms(2) unlocked_simps [OF assms(1)]
  by (auto simp: unique_check_def key_in_def list_ex_iff split: option.splits)

lemma yields_insert_ride:
  assumes st: "steady t F w" and rider: "f_riders F rider \<noteq> None" and m: "numeric_4_2 m = Some m'"
    and key: "\<And>k i r. key = Some k \<Longrightarrow> f_rides F i = Some r \<Longrightarrow> idempotency_key r \<noteq> Some k"
  shows "yields t (ask (InsertRide rider lat lng key zo (Some m)) un_ride)
    (\<lambda>x w'. \<exists>i r. f_rides F i = None \<and> r = new_ride F i rider lat lng key zo (Some m') \<and> x = Some r
       \<and> staged t (F\<lparr>f_rides := (f_rides F)(i \<mapsto> r)\<rparr>) w') w"
proof (rule yields_askI)
  fix ch re w' assume c: "ch_fail ch = None"
    and ex: "exec t ch (InsertRide rider lat lng key zo (Some m)) w = Some (re, w')"
  let ?i = "ch_id ch"
  let ?r = "new_ride F ?i rider lat lng key zo (Some m')"
  note data = steady_data [OF st]
  have un: "unlocked (w_rides w)" using st by (simp add: steady_def)
  have "flush_world t w = Flushed w"
    by (rule flush_clean_session [OF steady_clean [OF st]])
  then have ins: "insert_ride_row t ?i rider lat lng key zo (Some m) w = Some (re, w')"
    using c ex steady_exec_db [OF st] by (simp add: flush_then_def)
  have fresh: "f_rides F ?i = None" using ins not_row_id [of ?i "w_rides w"] data(2) by (auto simp: insert_ride_row_def split: if_splits)
  have "unique_check active_driver_key t ?i ?r (w_rides w) = UniqueOk"
    by (rule unique_check_free [OF un]) (simp add: new_ride_def active_driver_key_iff)
  moreover have "unique_check uq_idempotency_key t ?i ?r (w_rides w) = UniqueOk"
    by (rule unique_check_free [OF un]) (use key data(2) in \<open>auto simp: new_ride_def uq_idempotency_key_iff\<close>)
  ultimately have wr: "write_ride t ?i ?r (w_rides w) = Written (put t ?i ?r (w_rides w))"
    using unlocked_simps(3) [OF un] by (simp add: write_ride_def)
  have re: "re = RRide (Some ?r)" and w': "w' = session_upd t (see_ride ?r) (w\<lparr>w_rides := put t ?i ?r (w_rides w)\<rparr>)"
    using ins rider m wr data(5,8)
    by (auto simp: insert_ride_row_def Let_def new_ride_def split: if_splits)
  have "keyed_world w'" using effects_keyed [OF exec_effects [OF ex]] st by (auto simp: steady_def)
  moreover have "clean_session (w_sessions w' t) \<and> \<not> broken (w_sessions w' t)"
    using steady_clean [OF st] st by (auto simp: w' see_ride_def clean_session_def steady_def dest!: set_update)
  moreover have "seen_by t w' = F\<lparr>f_rides := (f_rides F)(?i \<mapsto> ?r)\<rparr>"
    using data by (simp add: w' seen_by_def session_upd_def fun_eq_iff)
  moreover have "own_locks t (w_drivers w')" "own_locks t (w_rides w')" "own_locks t (w_riders w')"
    using steady_locks [OF st] by (simp_all add: w' own_locks_def)
  ultimately have "staged t (F\<lparr>f_rides := (f_rides F)(?i \<mapsto> ?r)\<rparr>) w'" by (simp add: staged_def)
  then show "\<exists>x. ask_result un_ride re = Inr x \<and> (\<exists>i r. f_rides F i = None \<and> r = new_ride F i rider lat lng key zo (Some m')
      \<and> x = Some r \<and> staged t (F\<lparr>f_rides := (f_rides F)(i \<mapsto> r)\<rparr>) w')"
    using re fresh by auto
qed

text \<open>A write of a ride that no unique index refuses.\<close>

lemma steady_write:
  assumes st: "steady t F w" and r: "f_rides F i = Some r" and id: "r_id r' = i"
    and driver: "\<And>d. active_driver_key r' = Some d \<Longrightarrow> \<not> serves (f_rides F) d"
    and key: "unique_rows uq_idempotency_key (f_rides F)" "idempotency_key r' = idempotency_key r"
  shows "write_ride t i r' (w_rides w) = Written (put t i r' (w_rides w))"
    and "staged t (F\<lparr>f_rides := (f_rides F)(i \<mapsto> r')\<rparr>) (w\<lparr>w_rides := put t i r' (w_rides w)\<rparr>)"
proof -
  let ?w = "w\<lparr>w_rides := put t i r' (w_rides w)\<rparr>"
  note data = steady_data [OF st]
  have un: "unlocked (w_rides w)" and kw: "keyed_world w" using st by (simp_all add: steady_def)
  have "unique_check active_driver_key t i r' (w_rides w) = UniqueOk"
    by (rule unique_check_free [OF un]) (use driver data(2) in \<open>auto simp: active_driver_key_iff serves_def\<close>)
  moreover have "unique_check uq_idempotency_key t i r' (w_rides w) = UniqueOk"
    by (rule unique_check_free [OF un])
      (use key r data(2) in \<open>auto simp: uq_idempotency_key_iff unique_rows_def\<close>)
  ultimately show wr: "write_ride t i r' (w_rides w) = Written (put t i r' (w_rides w))"
    using unlocked_simps(3) [OF un] by (simp add: write_ride_def)
  have "keyed_world ?w" by (rule effect_keyed [OF effect.ride [OF wr id] kw])
  moreover have "seen_by t ?w = F\<lparr>f_rides := (f_rides F)(i \<mapsto> r')\<rparr>" using data by (simp add: seen_by_def fun_eq_iff)
  ultimately show "staged t (F\<lparr>f_rides := (f_rides F)(i \<mapsto> r')\<rparr>) ?w"
    using steady_staged [OF st] steady_locks(2) [OF st] by (simp add: staged_def own_locks_def)
qed

text \<open>The end of a ride: the conditional UPDATE and what is read after it.\<close>

definition ended_ride :: "facts \<Rightarrow> ride_status \<Rightarrow> ride \<Rightarrow> ride" where
  "ended_ride F to_st r = r\<lparr>r_status := to_st, updated_at := f_now F\<rparr>"

lemma yields_update:
  assumes st: "steady t F w" and "f_rides F i = Some r" and from_st: "r_status r \<in> set from_st"
    and "r_id (ended_ride F to_st r) = i" and "\<And>d. active_driver_key (ended_ride F to_st r) = Some d \<Longrightarrow> \<not> serves (f_rides F) d"
    and "unique_rows uq_idempotency_key (f_rides F)"
  shows "yields t (transition_status i from_st to_st []) (\<lambda>ok w'. ok \<and> staged t (F\<lparr>f_rides := (f_rides F)(i \<mapsto> ended_ride F to_st r)\<rparr>) w') w"
proof -
  let ?r = "ended_ride F to_st r"
  have same: "idempotency_key ?r = idempotency_key r" by (simp add: ended_ride_def)
  note written = steady_write [OF st assms(2,4,5,6) same]
  have un: "unlocked (w_rides w)" using st by (simp add: steady_def)
  have "yields t (ask (UpdateRide i from_st to_st []) un_nat) (\<lambda>n w'. n = 1 \<and> w' = w\<lparr>w_rides := put t i ?r (w_rides w)\<rparr>) w"
  proof (rule yields_askI)
    fix ch re w' assume "ch_fail ch = None" "exec t ch (UpdateRide i from_st to_st []) w = Some (re, w')"
    then have "update_ride t i from_st to_st [] w = Some (re, w')" using steady_exec_db [OF st] by simp
    then show "\<exists>n. ask_result un_nat re = Inr n \<and> n = 1 \<and> w' = w\<lparr>w_rides := put t i ?r (w_rides w)\<rparr>"
      using assms(2) from_st written(1) unlocked_simps(3) [OF un] steady_data(5,7) [OF st]
      by (auto simp: update_ride_def ended_ride_def)
  qed
  then show ?thesis
    unfolding transition_status_def by (rule served_pbindI) (use written(2) in auto)
qed

lemma yields_no_update:
  assumes "steady t F w" and "f_rides F i = Some r" and "r_status r \<notin> set from_st"
  shows "yields t (transition_status i from_st to_st vals) (\<lambda>ok w'. \<not> ok \<and> w' = w) w"
proof -
  have "yields t (ask (UpdateRide i from_st to_st vals) un_nat) (\<lambda>n w'. n = 0 \<and> w' = w) w"
    by (rule yields_askI, simp add: steady_exec_db [OF assms(1)])
      (use assms(2,3) steady_data(7) [OF assms(1)] in \<open>auto simp: update_ride_def\<close>)
  then show ?thesis unfolding transition_status_def by (rule served_pbindI) auto
qed

lemma staged_session:
  assumes "staged t F w" and "exec t ch c w = Some (r, w')" and "w' = session_upd t f w"
    and "\<not> broken (f (w_sessions w t))" and "clean_session (f (w_sessions w t))"
  shows "staged t F w'"
proof -
  have "keyed_world w'" using effects_keyed [OF exec_effects [OF assms(2)]] assms(1) by (auto simp: staged_def)
  moreover have "seen_by t w' = seen_by t w" by (simp add: assms(3) seen_by_def session_upd_def)
  ultimately show ?thesis using assms(1,4,5) by (simp add: staged_def assms(3))
qed

lemma yields_staged_refresh:
  assumes st: "staged t F w" and r: "f_rides F i = Some r"
  shows "yields t (refresh_ride i) (\<lambda>x w'. x = r \<and> staged t F w') w"
proof (rule yields_must_exist, rule yields_askI)
  fix ch re w' assume "ch_fail ch = None" and ex: "exec t ch (RefreshRide i) w = Some (re, w')"
  then have "load_ride_row t i w = Some (re, w')" using st by (simp add: exec_def staged_def)
  moreover have "view t (w_rides w) i = Some r" using st r by (auto simp: staged_def seen_by_def)
  ultimately have re: "re = RRide (Some r)" and w': "w' = session_upd t (\<lambda>s. s\<lparr>id_rides := AList.update i (r, r) (id_rides s)\<rparr>) w"
    by (simp_all add: load_ride_row_def)
  have "staged t F w'"
    by (rule staged_session [OF st ex w']) (use st in \<open>auto simp: staged_def clean_session_def dest!: set_update\<close>)
  then show "\<exists>x. ask_result un_ride re = Inr x \<and> (\<exists>v. x = Some v \<and> v = r \<and> staged t F w')" by (simp add: re)
qed

lemma yields_staged_driver:
  assumes st: "staged t F w" and x: "f_drivers F d = Some x"
  shows "yields t (ask (GetDriver d True) un_driver)
    (\<lambda>y w'. y = Some x \<and> staged t F w' \<and> map_of (id_drivers (w_sessions w' t)) d = Some (x, x)) w"
proof (rule yields_askI)
  fix ch re w' assume "ch_fail ch = None" and ex: "exec t ch (GetDriver d True) w = Some (re, w')"
  then have "load_driver_row t d w = Some (re, w')" using st by (auto simp: exec_def staged_def split: option.splits)
  moreover have "view t (w_drivers w) d = Some x" using st x by (auto simp: staged_def seen_by_def)
  ultimately have re: "re = RDriver (Some x)" and w': "w' = session_upd t (\<lambda>s. s\<lparr>id_drivers := AList.update d (x, x) (id_drivers s)\<rparr>) w"
    by (simp_all add: load_driver_row_def)
  have "staged t F w'"
    by (rule staged_session [OF st ex w']) (use st in \<open>auto simp: staged_def clean_session_def dest!: set_update\<close>)
  then show "\<exists>y. ask_result un_driver re = Inr y \<and> y = Some x \<and> staged t F w' \<and> map_of (id_drivers (w_sessions w' t)) d = Some (x, x)"
    by (simp add: re w')
qed

lemma yields_rollback:
  assumes "steady t F w"
  shows "yields t db_rollback (\<lambda>_ w'. steady t F w') w"
proof (rule yields_askI)
  fix ch r w' assume "ch_fail ch = None" and ex: "exec t ch Rollback w = Some (r, w')"
  then have r: "r = RUnit" and w': "w' = rollback_world t w" by (simp_all add: exec_def)
  have "steady t F w'"
    using assms effects_keyed [OF exec_effects [OF ex]] unfolding w'
    by (auto simp: steady_def facts_of_def rollback_world_def session_upd_def fresh_session_def fun_eq_iff unlocked_def rollback_table_def drop_pending_def)
  then show "\<exists>x. ask_result un_unit r = Inr x \<and> steady t F w'" by (simp add: r)
qed

text \<open>A driver whose status has been changed in the session, and the commit that writes it.\<close>

definition dirtied :: "tid \<Rightarrow> driver \<Rightarrow> driver_status \<Rightarrow> world \<Rightarrow> world" where
  "dirtied t x ds w = session_upd t (\<lambda>s. s\<lparr>id_drivers := AList.update (d_id x) (x, x\<lparr>d_status := ds\<rparr>) (id_drivers s)\<rparr>) w"

lemma dirtied_fields [simp]:
  "w_drivers (dirtied t x ds w) = w_drivers w" "w_rides (dirtied t x ds w) = w_rides w" "w_riders (dirtied t x ds w) = w_riders w"
  "w_clock_ms (dirtied t x ds w) = w_clock_ms w" "w_redis (dirtied t x ds w) = w_redis w"
  "broken (w_sessions (dirtied t x ds w) t) = broken (w_sessions w t)"
  by (simp_all add: dirtied_def session_upd_def)

lemma dirtied_rides: "(dirtied t x ds w)\<lparr>w_rides := T\<rparr> = dirtied t x ds (w\<lparr>w_rides := T\<rparr>)"
  by (simp add: dirtied_def session_upd_def)

lemma yields_set_status:
  assumes st: "staged t F w" and x: "map_of (id_drivers (w_sessions w t)) (d_id x) = Some (x, x)"
  shows "yields t (ask (SetDriverStatus (d_id x) ds) un_unit) (\<lambda>_ w'. w' = dirtied t x ds w \<and> keyed_world w') w"
proof (rule yields_askI)
  fix ch r w' assume "ch_fail ch = None" and ex: "exec t ch (SetDriverStatus (d_id x) ds) w = Some (r, w')"
  then have "r = RUnit" "w' = dirtied t x ds w" using x st by (simp_all add: exec_def staged_def set_driver_def dirtied_def)
  moreover have "keyed_world w'" using effects_keyed [OF exec_effects [OF ex]] st by (auto simp: staged_def)
  ultimately show "\<exists>y. ask_result un_unit r = Inr y \<and> w' = dirtied t x ds w \<and> keyed_world w'" by simp
qed

text \<open>The claim of a driver: its status in the session, then the conditional UPDATE of the ride.\<close>

definition matched_ride :: "facts \<Rightarrow> uuid \<Rightarrow> ride \<Rightarrow> ride" where
  "matched_ride F d r = r\<lparr>r_status := MATCHED, updated_at := f_now F, r_driver_id := Some d, matched_at := Some (f_now F)\<rparr>"

lemma yields_match_update:
  assumes st: "steady t F w" and k: "keyed_world (dirtied t x ds w)" and x: "f_drivers F (d_id x) = Some x"
    and r: "f_rides F i = Some r" "r_status r = REQUESTED"
    and free: "\<not> serves (f_rides F) (d_id x)" and key: "unique_rows uq_idempotency_key (f_rides F)"
  shows "yields t (transition_status i [REQUESTED] MATCHED [DriverId (d_id x), MatchedAt (f_now F)])
    (\<lambda>ok w'. ok \<and> (\<exists>w1. w' = dirtied t x ds w1 \<and> keyed_world w'
       \<and> staged t (F\<lparr>f_rides := (f_rides F)(i \<mapsto> matched_ride F (d_id x) r)\<rparr>) w1)) (dirtied t x ds w)"
proof -
  let ?w = "dirtied t x ds w" and ?r = "matched_ride F (d_id x) r" and ?vals = "[DriverId (d_id x), MatchedAt (f_now F)]"
  let ?w1 = "w\<lparr>w_rides := put t i ?r (w_rides w)\<rparr>"
  have id: "r_id ?r = i" and same: "idempotency_key ?r = idempotency_key r"
    using steady_keyed(2) [OF st r(1)] by (simp_all add: matched_ride_def)
  have driver: "\<not> serves (f_rides F) d" if "active_driver_key ?r = Some d" for d
    using that free by (simp add: active_driver_key_iff matched_ride_def)
  note written = steady_write [OF st r(1) id driver key same]
  have un: "unlocked (w_rides w)" using st by (simp add: steady_def)
  have "yields t (ask (UpdateRide i [REQUESTED] MATCHED ?vals) un_nat)
      (\<lambda>n w'. n = 1 \<and> w' = dirtied t x ds ?w1 \<and> keyed_world w') ?w"
  proof (rule yields_askI)
    fix ch re w' assume "ch_fail ch = None" and ex: "exec t ch (UpdateRide i [REQUESTED] MATCHED ?vals) ?w = Some (re, w')"
    then have "update_ride t i [REQUESTED] MATCHED ?vals ?w = Some (re, w')"
      using st by (simp add: exec_def steady_def)
    moreover have "fold set_value ?vals (r\<lparr>r_status := MATCHED, updated_at := f_now F\<rparr>) = ?r"
      by (simp add: matched_ride_def)
    ultimately have "re = RNat 1 \<and> w' = dirtied t x ds ?w1"
      using r x written(1) unlocked_simps(3) [OF un] steady_data(5-7) [OF st] by (auto simp: update_ride_def dirtied_rides)
    then show "\<exists>n. ask_result un_nat re = Inr n \<and> n = 1 \<and> w' = dirtied t x ds ?w1 \<and> keyed_world w'"
      using effects_keyed [OF exec_effects [OF ex k] k] by simp
  qed
  then show ?thesis
    unfolding transition_status_def by (rule served_pbindI) (use written(2) in auto)
qed

lemma flush_one_driver:
  assumes "\<forall>(i, l, c) \<in> set xs. l = c" and "x \<noteq> c" and "view t T d = Some x" and "\<not> locked_by_other t T d"
  shows "flush_drivers t now (AList.update d (x, c) xs) T = Flushed (put t d (driver_delta now x c x) T)"
  using assms(1)
proof (induction xs)
  case (Cons p xs)
  have "flush_drivers t now xs T' = Flushed T'" for T'
    by (rule flush_drivers_clean) (use Cons.prems in \<open>auto simp: dirty_def\<close>)
  then show ?case using Cons assms(2-4) by (cases p) auto
qed (use assms(2-4) in simp)

lemma yields_commit_claim:
  assumes st: "staged t F w" and k: "keyed_world (dirtied t x ds w)" and x: "f_drivers F (d_id x) = Some x" "d_status x \<noteq> ds"
  shows "yields t db_commit
    (\<lambda>_. steady t (F\<lparr>f_drivers := (f_drivers F)(d_id x \<mapsto> x\<lparr>d_status := ds, last_updated_at := f_now F\<rparr>)\<rparr>)) (dirtied t x ds w)"
proof (rule yields_askI)
  let ?d = "d_id x" and ?y = "x\<lparr>d_status := ds, last_updated_at := f_now F\<rparr>"
  let ?F = "F\<lparr>f_drivers := (f_drivers F)(?d \<mapsto> ?y)\<rparr>"
  let ?clean = "\<lambda>s. s\<lparr>id_drivers := map (\<lambda>(i, l, c). (i, c, c)) (id_drivers s), id_rides := map (\<lambda>(i, l, c). (i, c, c)) (id_rides s)\<rparr>"
  let ?w1 = "session_upd t ?clean ((dirtied t x ds w)\<lparr>w_drivers := put t ?d ?y (w_drivers w)\<rparr>)"
  fix ch r w' assume "ch_fail ch = None" and ex: "exec t ch Commit (dirtied t x ds w) = Some (r, w')"
  have seen: "seen_by t w = F" and own: "own_locks t (w_drivers w)" and cs: "clean_session (w_sessions w t)"
    using st by (simp_all add: staged_def)
  have F: "f_drivers F = view t (w_drivers w)" "f_now F = now_seconds w" using seen by (auto simp: seen_by_def)
  have "d_status x \<noteq> d_status (x\<lparr>d_status := ds\<rparr>)" using x(2) by simp
  then have nb: "x \<noteq> x\<lparr>d_status := ds\<rparr>" by (rule contrapos_nn) simp
  have "row_lock (w_drivers w) ?d = None \<or> row_lock (w_drivers w) ?d = Some t" using own by (simp add: own_locks_def)
  then have nl: "\<not> locked_by_other t (w_drivers w) ?d" by (auto simp: locked_by_other_iff)
  have "flush_drivers t (now_seconds w) (AList.update ?d (x, x\<lparr>d_status := ds\<rparr>) (id_drivers (w_sessions w t))) (w_drivers w)
      = Flushed (put t ?d (driver_delta (now_seconds w) x (x\<lparr>d_status := ds\<rparr>) x) (w_drivers w))"
    by (rule flush_one_driver [OF _ nb _ nl])
      (use cs x F in \<open>auto simp: clean_session_def\<close>)
  moreover have "driver_delta (now_seconds w) x (x\<lparr>d_status := ds\<rparr>) x = ?y" using x(2) F(2) by (simp add: driver_delta_def)
  moreover have "flush_rides t (now_seconds w) (id_rides (w_sessions w t)) (w_rides w) = Flushed (w_rides w)"
    by (rule flush_rides_clean) (use cs in \<open>auto simp: clean_session_def\<close>)
  ultimately have fl: "flush_world t (dirtied t x ds w) = Flushed ?w1"
    by (simp add: flush_world_def dirtied_def session_upd_def)
  have "keyed_world ?w1" by (rule effects_keyed [OF flush_world_effects [OF fl k] k])
  moreover have "clean_session (w_sessions ?w1 t)" by (auto simp: clean_session_def)
  moreover have "seen_by t ?w1 = ?F" using seen F by (auto simp: seen_by_def fun_eq_iff session_upd_def dirtied_def)
  ultimately have "staged t ?F ?w1"
    using st own by (simp add: staged_def own_locks_def)
  moreover have "r = RUnit" "w' = commit_world t ?w1"
    using ex \<open>ch_fail ch = None\<close> st fl by (simp_all add: exec_def staged_def flush_then_def)
  ultimately show "\<exists>y. ask_result un_unit r = Inr y \<and> steady t ?F w'" using commit_staged by simp
qed

end
