(* ===== verification/Dispatch.thy ===== *)
theory Dispatch
  imports Undisturbed
begin

text \<open>
  The ride handlers served while nothing else happens, in terms of the committed data: that a run to the end
  exists, the claim of a driver under its lock, matching, the creation of a ride, its retry, and its end.
\<close>

section \<open>When no request is in flight\<close>

text \<open>A row that is locked is locked by a request in flight.\<close>

definition locks_kept :: "tid \<Rightarrow> 'a table \<Rightarrow> 'a table \<Rightarrow> bool" where
  "locks_kept t T T' \<longleftrightarrow> (\<forall>i t'. row_lock T' i = Some t' \<longrightarrow> t' = t \<or> row_lock T i = Some t')"

lemma locks_kept_simps [simp]:
  "locks_kept t T T" "locks_kept t T (put t i x T)" "locks_kept t T (commit_table t T)" "locks_kept t T (rollback_table t T)"
  "locks_kept t T (rollback_table t (commit_table t T))"
  by (auto simp: locks_kept_def)

lemma flush_world_riders: "flush_world t w = Flushed w' \<Longrightarrow> w_riders w' = w_riders w"
  by (auto simp: flush_world_def split: flushed.splits)

lemma ended_riders [simp]:
  "w_riders (commit_world t w) = commit_table t (w_riders w)" "w_riders (rollback_world t w) = rollback_table t (w_riders w)"
  "w_riders (fail_world t w) = rollback_table t (w_riders w)"
  by (simp_all add: commit_world_def rollback_world_def fail_world_def)

lemma exec_db_riders:
  assumes "exec_db t ch c w = Some (r, w')"
  shows "locks_kept t (w_riders w) (w_riders w')"
  using assms
  by (cases c)
    (auto simp: flush_then_def insert_driver_def insert_rider_def insert_ride_row_def update_ride_def
        load_driver_row_def load_ride_row_def set_driver_def set_ride_def Let_def exec_db_def
      dest!: flush_world_riders split: flushed.splits option.splits prod.splits if_splits written.splits)

lemma exec_riders:
  assumes "exec t ch c w = Some (r, w')"
  shows "locks_kept t (w_riders w) (w_riders w')"
proof -
  have other: "w_riders w' = w_riders w" if "exec_other t ch c w = Some (r, w')" for r w'
    using that by (cases c) (auto simp: exec_other_def split: prod.splits if_splits)
  have commit: "w_riders w1 = commit_table t (w_riders w)" if "is_commit c" "exec_db t ch c w = Some (RUnit, w1)" for w1
    using that by (auto simp: flush_then_def dest!: flush_world_riders split: flushed.splits)
  show ?thesis
    using assms commit
    by (auto simp: exec_def dest!: other exec_db_riders split: if_splits option.splits reply.splits)
qed

lemma rider_locks_in_flight:
  "reachable h cfg vtext C \<Longrightarrow> row_lock (w_riders (the_world C)) i = Some t \<Longrightarrow> threads C t \<noteq> None"
proof (induction arbitrary: i t rule: reachable.induct)
  case start
  then show ?case by (simp add: init_config_def init_world_def)
next
  case (step C C')
  from step(2) show ?case
  proof cases
    case (call t' c k ch r w')
    then show ?thesis using step.IH step.prems exec_riders [OF call(3)] by (fastforce simp: locks_kept_def)
  qed (use step.IH step.prems in \<open>auto simp: close_db_def split: if_splits\<close>)
qed

lemma unlockedI:
  assumes "\<And>i. row_lock T i = None"
  shows "unlocked T"
  using assms [unfolded row_lock_def] by (cases "pending T") (auto simp: unlocked_def, metis map_of.simps(2) map_upd_Some_unfold old.prod.exhaust option.distinct(1))

lemma steady_at_rest:
  assumes "reachable h cfg vtext C" and "\<forall>t. threads C t = None"
  shows "steady t (facts_of (the_world C)) (the_world C)"
proof -
  have idle: "idle t' (the_world C)" for t' using idle_reachable [OF assms(1)] assms(2) by blast
  have "unlocked (w_drivers (the_world C))" "unlocked (w_rides (the_world C))"
    by (rule unlockedI, use idle in \<open>auto simp: idle_def intro: option.exhaust\<close>)+
  moreover have "unlocked (w_riders (the_world C))"
    by (rule unlockedI) (metis assms not_None_eq rider_locks_in_flight)
  moreover have "w_sessions (the_world C) t = fresh_session" using idle by (simp add: idle_def)
  ultimately show ?thesis
    using inv_reachable [OF assms(1)] by (simp add: steady_def service_inv_def fresh_session_def)
qed

section \<open>A run exists\<close>

text \<open>A single request in flight never waits, so it can be served to its end.\<close>

abbreviation unfailing :: "choice list \<Rightarrow> bool" where
  "unfailing chs \<equiv> \<forall>ch \<in> set chs. ch_fail ch = None"

lemma lone_request_runs:
  assumes "reachable h cfg vtext \<lparr>the_world = w, threads = (\<lambda>_. None)(t := Some p)\<rparr>" and "yields t p P w"
  shows "\<exists>chs x w'. unfailing chs \<and> run_thread t chs p w = Some (x, w')"
  using assms
proof (induction p arbitrary: w)
  case (Return x)
  then show ?case by (intro exI [of _ "[]"]) simp
next
  case (Call c k)
  let ?C = "\<lparr>the_world = w, threads = (\<lambda>_. None)(t := Some (Call c k))\<rparr> :: config"
  have "threads ?C t \<noteq> None" by simp
  then obtain t' where "can_go_on ?C t'"
    using some_request_goes_on [OF inv_reachable [OF Call.prems(1)]] reachable_threads [OF Call.prems(1)] by blast
  then obtain i r w' where ex: "exec t (smooth i) c w = Some (r, w')"
    by (auto simp: can_go_on_def split: if_splits)
  have ch: "ch_fail (smooth i) = None" by (simp add: smooth_def)
  have "reachable h cfg vtext \<lparr>the_world = w', threads = (\<lambda>_. None)(t := Some (k r))\<rparr>"
    using reachable.step [OF Call.prems(1) step.call [of ?C t c k "smooth i" r w']] ex by simp
  moreover have "yields t (k r) P w'" using Call.prems(2) ch ex by auto
  ultimately obtain chs x w'' where "unfailing chs" "run_thread t chs (k r) w' = Some (x, w'')"
    using Call.IH by blast
  then show ?case using ex ch by (intro exI [of _ "smooth i # chs"]) simp
qed simp

section \<open>The claim of a driver\<close>

lemma yields_time: "yields t utc_now (\<lambda>x w'. x = now_seconds w \<and> w' = w) w"
  by (rule yields_askI, rule exI [of _ "now_seconds w"]) (auto simp: exec_other_calm)

text \<open>The ride \<open>i\<close> is given to the driver \<open>x\<close>.\<close>

definition claimed :: "facts \<Rightarrow> uuid \<Rightarrow> ride \<Rightarrow> driver \<Rightarrow> facts" where
  "claimed F i r x = F\<lparr>f_rides := (f_rides F)(i \<mapsto> matched_ride F (d_id x) r),
     f_drivers := (f_drivers F)(d_id x \<mapsto> x\<lparr>d_status := BUSY, last_updated_at := f_now F\<rparr>)\<rparr>"

lemma claimed_fields [simp]:
  "f_rides (claimed F i r x) i = Some (matched_ride F (d_id x) r)"
  "f_drivers (claimed F i r x) (d_id x) = Some (x\<lparr>d_status := BUSY, last_updated_at := f_now F\<rparr>)"
  "f_redis (claimed F i r x) = f_redis F" "f_clock_ms (claimed F i r x) = f_clock_ms F"
  by (simp_all add: claimed_def)

definition claimable :: "facts \<Rightarrow> ride \<Rightarrow> driver \<Rightarrow> bool" where
  "claimable F r x \<longleftrightarrow> f_rides F (r_id r) = Some r \<and> r_status r = REQUESTED \<and> f_drivers F (d_id x) = Some x
     \<and> d_status x = AVAILABLE \<and> \<not> serves (f_rides F) (d_id x) \<and> unique_rows uq_idempotency_key (f_rides F)"

lemma yields_refresh_ride:
  assumes "steady t F w" and "f_rides F i = Some r"
  shows "yields t (refresh_ride i) (\<lambda>x w'. x = r \<and> steady t F w') w" "yields t (load_ride i) (\<lambda>x w'. x = r \<and> steady t F w') w"
  by (rule yields_must_exist, rule served_mono [OF yields_get_ride(2) [OF assms(1)]], simp add: assms(2),
      rule yields_must_exist, rule served_mono [OF yields_get_ride(1) [OF assms(1)]], simp add: assms(2))

lemma yields_load_driver:
  assumes "steady t F w" and "f_drivers F i = Some d"
  shows "yields t (load_driver i) (\<lambda>x w'. x = d \<and> steady t F w') w"
  by (rule yields_must_exist, rule served_mono [OF yields_get_driver [OF assms(1)]]) (use assms(2) in auto)

lemma yields_assign:
  assumes st: "steady t F w" and x: "claimable F r x"
  shows "yields t (assign_candidate r x)
    (\<lambda>res w'. res = Some (matched_ride F (d_id x) r) \<and> steady t (claimed F (r_id r) r x) w') w"
proof -
  let ?i = "r_id r" and ?r = "matched_ride F (d_id x) r"
  let ?F1 = "F\<lparr>f_rides := (f_rides F)(?i \<mapsto> ?r)\<rparr>" and ?F2 = "claimed F ?i r x"
  note x' = x [unfolded claimable_def]
  have told: "yields t (pbind (refresh_ride ?i) (\<lambda>ride'. pbind (load_driver (d_id x)) (\<lambda>driver'.
      pbind (emit_event ''DRIVER_ASSIGNED'' (data ride' driver')) (\<lambda>_. Return (Some ride')))))
      (\<lambda>res w'. res = Some ?r \<and> steady t ?F2 w') w3" if "steady t ?F2 w3" for w3 data
    by (rule served_pbindI [OF yields_refresh_ride(1) [OF that claimed_fields(1)]], elim conjE,
        rule served_pbindI [OF yields_load_driver [OF _ claimed_fields(2)]], assumption, elim conjE,
        rule served_pbindI [OF yields_told(1)], assumption) simp
  have claim: "yields t (handle db_commit (\<lambda>_. pbind (refresh_ride ?i) (\<lambda>ride'. pbind (load_driver (d_id x)) (\<lambda>driver'.
      pbind (emit_event ''DRIVER_ASSIGNED'' (data ride' driver')) (\<lambda>_. Return (Some ride'))))) g)
      (\<lambda>res w'. res = Some ?r \<and> steady t ?F2 w') (dirtied t x BUSY w2)"
    if "staged t ?F1 w2" "keyed_world (dirtied t x BUSY w2)" for w2 data g
    by (rule served_handleI [OF yields_commit_claim [OF that]])
      (use x' told in \<open>auto simp: claimed_def\<close>)
  show ?thesis
    unfolding assign_candidate_def driver_get_by_id_def
    apply (rule served_pbindI [OF yields_get_driver [OF st]])
    apply (elim conjE)
    subgoal premises prems for found w1
    proof -
      have found: "found = Some x" and st1: "steady t F w1" using prems x' by auto
      have ob: "map_of (id_drivers (w_sessions w1 t)) (d_id x) = Some (x, x)" using prems found by simp
      have now: "now_seconds w1 = f_now F" using steady_data(5) [OF st1] by simp
      show ?thesis
        apply (simp add: found x')
        apply (rule served_pbindI [OF yields_set_status [OF steady_staged [OF st1] ob]])
        apply (rule served_pbindI [OF yields_time])
        apply (elim conjE)
        apply (simp only: dirtied_fields now)
        apply (rule served_pbindI [OF yields_match_update [OF st1]])
        using x' claim by auto
    qed
    done
qed

section \<open>The lock of a driver\<close>

text \<open>No live token is stored for a driver.\<close>

definition no_locks :: "facts \<Rightarrow> bool" where
  "no_locks F \<longleftrightarrow> (\<forall>d. live (f_clock_ms F) (map_of (f_redis F) (lock_key d)) = None)"

definition held_by :: "facts \<Rightarrow> uuid \<Rightarrow> string \<Rightarrow> int \<Rightarrow> facts" where
  "held_by F d token ttl = F\<lparr>f_redis := AList.update (lock_key d) (token, f_clock_ms F + real_of_int ttl) (f_redis F)\<rparr>"

lemma yields_acquire:
  assumes "steady t F w" and "no_locks F"
  shows "yields t (acquire_driver_lock cfg x)
    (\<lambda>got w'. \<exists>token. got = Some token \<and> steady t (held_by F (d_id x) token (lock_ttl_ms cfg)) w') w"
proof -
  have set: "yields t (ask (RedisSetNxPx (lock_key (d_id x)) token (lock_ttl_ms cfg)) un_bool)
      (\<lambda>ok w'. ok \<and> steady t (held_by F (d_id x) token (lock_ttl_ms cfg)) w') w1" if st: "steady t F w1" for token w1
  proof (rule yields_askI)
    fix ch r w' assume "ch_fail ch = None" "exec t ch (RedisSetNxPx (lock_key (d_id x)) token (lock_ttl_ms cfg)) w1 = Some (r, w')"
    then have r: "r = RBool True"
      and w': "w' = w1\<lparr>w_redis := f_redis (held_by F (d_id x) token (lock_ttl_ms cfg))\<rparr>"
      using assms(2) steady_data(4,5) [OF st]
      by (simp_all add: exec_other_calm redis_set_nx_px_def no_locks_def held_by_def)
    have "steady t (F\<lparr>f_redis := w_redis w'\<rparr>) w'" by (rule steady_elsewhere [OF st]) (simp_all add: w')
    then show "\<exists>ok. ask_result un_bool r = Inr ok \<and> ok \<and> steady t (held_by F (d_id x) token (lock_ttl_ms cfg)) w'"
      by (auto simp: r w' held_by_def)
  qed
  have token: "yields t uuid4 (\<lambda>_. steady t F) w"
    by (rule yields_askI) (use assms(1) in \<open>auto simp: exec_other_calm split: if_splits\<close>)
  have "yields t (acquire_lock (lock_key (d_id x)) (lock_ttl_ms cfg))
      (\<lambda>got w'. \<exists>token. got = Some token \<and> steady t (held_by F (d_id x) token (lock_ttl_ms cfg)) w') w"
    unfolding acquire_lock_def by (rule served_pbindI [OF token], rule served_pbindI [OF set], assumption) auto
  then show ?thesis
    unfolding acquire_driver_lock_def try_except_def by (rule served_handleI) auto
qed

lemma yields_release:
  assumes "steady t F w" and "f_redis F = f_redis (held_by G d token ttl)" and "f_clock_ms F = f_clock_ms G" and "no_locks G"
  shows "yields t (release_lock (lock_key d) token) (\<lambda>_ w'. \<exists>ks. steady t (F\<lparr>f_redis := ks\<rparr>) w' \<and> no_locks (F\<lparr>f_redis := ks\<rparr>)) w"
proof -
  let ?ks = "snd (release_script (f_clock_ms F) (lock_key d) token (f_redis F))"
  have free: "live (f_clock_ms F) (map_of ?ks (lock_key d')) = None" for d'
  proof (cases "live (f_clock_ms F) (map_of (f_redis F) (lock_key d)) = Some token")
    case True
    then show ?thesis using assms(2-4)
      by (auto simp: release_script_def delete_conv' update_conv' held_by_def no_locks_def live_def)
  next
    case False
    then show ?thesis using assms(2-4)
      by (auto simp: release_script_def update_conv' held_by_def no_locks_def live_def split: if_splits)
  qed
  have "yields t (ask (RedisRunRelease (lock_key d) token) un_nat) (\<lambda>_ w'. steady t (F\<lparr>f_redis := ?ks\<rparr>) w') w"
  proof (rule yields_askI)
    fix ch r w' assume "ch_fail ch = None" "exec t ch (RedisRunRelease (lock_key d) token) w = Some (r, w')"
    then obtain n where r: "r = RNat n" and w': "w' = w\<lparr>w_redis := ?ks\<rparr>"
      using steady_data(4,5) [OF assms(1)] by (auto simp: exec_other_calm split: prod.splits)
    have "steady t (F\<lparr>f_redis := w_redis w'\<rparr>) w'" by (rule steady_elsewhere [OF assms(1)]) (simp_all add: w')
    then show "\<exists>x. ask_result un_nat r = Inr x \<and> steady t (F\<lparr>f_redis := ?ks\<rparr>) w'" by (simp add: r w')
  qed
  then show ?thesis
    unfolding release_lock_def by (rule served_pbindI) (use free in \<open>auto simp: no_locks_def\<close>)
qed

section \<open>Matching\<close>

lemma held_by_fields [simp]:
  "f_clock_ms (held_by F d token ttl) = f_clock_ms F" "f_rides (held_by F d token ttl) = f_rides F"
  "f_drivers (held_by F d token ttl) = f_drivers F"
  by (simp_all add: held_by_def)

text \<open>The ride \<open>r\<close> is waiting in \<open>F\<close>, nobody holds the lock of a driver, and which drivers are claimable is known.\<close>

definition matched_to :: "facts \<Rightarrow> ride \<Rightarrow> driver \<Rightarrow> ride \<Rightarrow> facts \<Rightarrow> bool" where
  "matched_to F r x m G \<longleftrightarrow> m = matched_ride F (d_id x) r \<and> (\<exists>ks. G = (claimed F (r_id r) r x)\<lparr>f_redis := ks\<rparr>) \<and> no_locks G"

lemma yields_first_candidate:
  assumes st: "steady t F w" and free: "no_locks F" and x: "claimable F r x"
  shows "yields t (try_candidates cfg r ((x, km) # rest)) (\<lambda>m w'. \<exists>G. matched_to F r x m G \<and> steady t G w') w"
  unfolding try_candidates.simps
proof (rule served_pbindI [OF yields_acquire [OF st free]], elim exE conjE)
  fix got w1 token
  assume got: "got = Some token" and st1: "steady t (held_by F (d_id x) token (lock_ttl_ms cfg)) w1"
  let ?H = "held_by F (d_id x) token (lock_ttl_ms cfg)"
  have "claimable ?H r x" using x by (simp add: claimable_def)
  note assign = yields_assign [OF _ this]
  have same: "matched_ride ?H (d_id x) r = matched_ride F (d_id x) r"
    and claimed: "(claimed ?H (r_id r) r x)\<lparr>f_redis := ks\<rparr> = (claimed F (r_id r) r x)\<lparr>f_redis := ks\<rparr>" for ks
    by (simp_all add: matched_ride_def claimed_def) (simp add: held_by_def)
  have inner: "yields t (try_finally (assign_candidate r x) (release_lock (lock_key (d_id x)) token))
      (\<lambda>res w'. \<exists>G. (\<exists>m. res = Some m \<and> matched_to F r x m G) \<and> steady t G w') w2" if "steady t ?H w2" for w2
  proof (rule served_finallyI [OF assign [OF that]], elim conjE)
    fix res w3 assume res: "res = Some (matched_ride ?H (d_id x) r)" and st3: "steady t (claimed ?H (r_id r) r x) w3"
    have "yields t (release_lock (lock_key (d_id x)) token) (\<lambda>_ w'. \<exists>ks. steady t ((claimed F (r_id r) r x)\<lparr>f_redis := ks\<rparr>) w'
        \<and> no_locks ((claimed F (r_id r) r x)\<lparr>f_redis := ks\<rparr>)) w3"
      using yields_release [OF st3, of F "d_id x" token "lock_ttl_ms cfg"] free unfolding claimed by simp
    then show "yields t (release_lock (lock_key (d_id x)) token)
        (\<lambda>_ w'. \<exists>G. (\<exists>m. res = Some m \<and> matched_to F r x m G) \<and> steady t G w') w3"
      by (rule served_mono) (auto simp: res same matched_to_def)
  qed
  show "yields t (case got of None \<Rightarrow>
         pbind (emit_event ''LOCK_FAILED''
           [(''ride_id'', JStr (r_id r)), (''driver_id'', JStr (d_id x))]) (\<lambda>_.
         pbind record_contention (\<lambda>_. try_candidates cfg r rest))
     | Some token \<Rightarrow>
         pbind (emit_event ''LOCK_ACQUIRED''
           [(''ride_id'', JStr (r_id r)), (''driver_id'', JStr (d_id x))]) (\<lambda>_.
         pbind (try_finally (assign_candidate r x) (release_lock (lock_key (d_id x)) token)) (\<lambda>outcome.
         case outcome of Some matched \<Rightarrow> Return matched | None \<Rightarrow> try_candidates cfg r rest)))
    (\<lambda>m w'. \<exists>G. matched_to F r x m G \<and> steady t G w') w1"
    unfolding got option.case
    by (rule served_pbindI [OF yields_told(1) [OF st1]], rule served_pbindI [OF inner], assumption) auto
qed

text \<open>A driver of the list than which none is nearer.\<close>

definition nearest_of :: "real \<Rightarrow> real \<Rightarrow> driver list \<Rightarrow> driver \<Rightarrow> bool" where
  "nearest_of lat lng near x \<longleftrightarrow> x \<in> set near \<and> (\<forall>y \<in> set near.
     great_circle_km lat lng (current_lat x) (current_lng x) \<le> great_circle_km lat lng (current_lat y) (current_lng y))"

lemma nearest_first_hd:
  assumes "nearest_first lat lng ((x, km) # rest)" and "mset (map fst ((x, km) # rest)) = mset near"
  shows "nearest_of lat lng near x"
proof -
  have "set near = fst ` set ((x, km) # rest)" using mset_eq_setD [OF assms(2)] by auto
  then show ?thesis using assms(1) by (auto simp: nearest_of_def nearest_first_def)
qed

lemma near_drivers_rows: "x \<in> set (near_drivers h cfg ds lat lng target max_ring) \<Longrightarrow> x \<in> set ds \<and> d_status x = AVAILABLE"
  by (auto simp: near_drivers_def available_in_disk_def Let_def split: if_splits)

definition consistent :: "facts \<Rightarrow> bool" where
  "consistent F \<longleftrightarrow> fleet_ok (\<lambda>d. map_option d_status (f_drivers F d)) (f_rides F) \<and> unique_rows uq_idempotency_key (f_rides F)
     \<and> (\<forall>d x. f_drivers F d = Some x \<longrightarrow> d_id x = d)"

lemma consistentD:
  assumes "consistent F"
  shows "fleet_ok (\<lambda>d. map_option d_status (f_drivers F d)) (f_rides F)" "unique_rows uq_idempotency_key (f_rides F)"
    "f_drivers F d = Some x \<Longrightarrow> d_id x = d"
  using assms unfolding consistent_def by blast+

lemma consistent_claimable:
  assumes "consistent F" and "lists_drivers ds F" and "x \<in> set ds" and "d_status x = AVAILABLE"
    and "f_rides F (r_id r) = Some r" and "r_status r = REQUESTED"
  shows "claimable F r x"
proof -
  have "x \<in> ran (f_drivers F)" using assms(2,3) by (simp add: lists_drivers_def)
  then obtain d where "f_drivers F d = Some x" by (auto simp: ran_def)
  with consistentD(3) [OF assms(1) this] have row: "f_drivers F (d_id x) = Some x" by simp
  have "\<not> serves (f_rides F) (d_id x)"
    using consistentD(1) [OF assms(1), unfolded fleet_ok_def, THEN conjunct1, rule_format, of "d_id x" AVAILABLE] row assms(4)
    by simp
  then show ?thesis using assms(4-6) row consistentD(2) [OF assms(1)] by (simp add: claimable_def)
qed

text \<open>How a search for a driver of the waiting ride \<open>r\<close> ends.\<close>

definition matching_ends :: "driver list \<Rightarrow> facts \<Rightarrow> ride \<Rightarrow> exn + ride \<Rightarrow> facts \<Rightarrow> bool" where
  "matching_ends near F r res G \<longleftrightarrow>
     (if near = [] then res = Inl (NoAvailableDriverError (r_id r)) \<and> G = F
      else \<exists>x m. nearest_of (pickup_lat r) (pickup_lng r) near x \<and> res = Inr m \<and> matched_to F r x m G)"

lemma served_match_ride:
  assumes st: "steady t F w" and free: "no_locks F" and cons: "consistent F" and ds: "lists_drivers ds F"
    and r: "f_rides F (r_id r) = Some r" "r_status r = REQUESTED" and h: "h3_documented h" "0 \<le> match_max_ring cfg"
  shows "served t (match_ride h cfg (r_id r))
    (\<lambda>res w'. \<exists>G. matching_ends (near_drivers h cfg ds (pickup_lat r) (pickup_lng r) (match_target_candidates cfg) (match_max_ring cfg)) F r res G
       \<and> steady t G w') w"
    (is "served t _ ?Q w")
proof -
  let ?near = "near_drivers h cfg ds (pickup_lat r) (pickup_lng r) (match_target_candidates cfg) (match_max_ring cfg)"
  have from_ranked: "served t (try_candidates cfg r ranked) ?Q w'"
    if "mset (map fst ranked) = mset ?near" "nearest_first (pickup_lat r) (pickup_lng r) ranked" "steady t F w'" for ranked w'
  proof (cases ranked)
    case Nil
    then have "?near = []" using that(1) by simp
    then have "served t (Raise (NoAvailableDriverError (r_id r))) ?Q w''" if "steady t F w''" for w''
      using that by (simp add: matching_ends_def)
    then show ?thesis unfolding Nil try_candidates.simps by (rule served_pbindI [OF yields_told(1) [OF that(3)]])
  next
    case (Cons p rest)
    obtain x km where p: "p = (x, km)" by fastforce
    have near: "nearest_of (pickup_lat r) (pickup_lng r) ?near x"
      by (rule nearest_first_hd) (use that(1,2) Cons p in simp_all)
    then have "x \<in> set ?near" by (simp add: nearest_of_def)
    then have ne: "?near \<noteq> []" and "claimable F r x"
      using consistent_claimable [OF cons ds _ _ r] near_drivers_rows by auto
    from yields_first_candidate [OF that(3) free this(2)]
    show ?thesis
      unfolding Cons p by (rule served_mono) (use ne near in \<open>auto simp: matching_ends_def\<close>)
  qed
  show ?thesis
    unfolding match_ride_def
    apply (rule served_pbindI [OF yields_refresh_ride(2) [OF st r(1)]])
    apply (simp add: r(2))
    apply (rule served_pbindI [OF yields_candidates [OF _ ds h]], assumption)
    apply (elim conjE)
    apply (rule served_pbindI [OF yields_told(1)], assumption)
    by (rule from_ranked)
qed

section \<open>The request\<close>

definition surge_seen :: "settings \<Rightarrow> facts \<Rightarrow> string \<Rightarrow> surge_result" where
  "surge_seen cfg F z =
     (let since = f_now F - real_of_int (surge_demand_window_seconds cfg);
          dem = card {i. \<exists>r. f_rides F i = Some r \<and> r_zone_id r = Some z \<and> since \<le> created_at r \<and> is_active r};
          sply = card {i. \<exists>d. f_drivers F i = Some d \<and> d_status d = AVAILABLE \<and> d_zone_id d = z}
      in \<lparr>s_zone_id = z, s_demand = dem, s_supply = sply, multiplier = surge_formula cfg dem sply\<rparr>)"

lemma surge_seen_now: "surge_seen cfg (facts_of w) z = surge_now cfg w z"
  by (simp add: surge_seen_def surge_now_def facts_of_def holding_def Let_def)

lemma yields_surge:
  assumes "steady t F w"
  shows "yields t (zone_surge cfg z None) (\<lambda>s w'. s = surge_seen cfg F z \<and> steady t F w') w"
  unfolding zone_surge_def Let_def option.case count_recent_active_in_zone_def count_available_in_zone_def active_in
  apply (rule served_pbindI [OF yields_clock(1) [OF assms]], elim conjE)
  apply (simp only:)
  apply (rule served_pbindI [OF yields_count(2)], assumption, elim conjE)
  apply (rule served_pbindI [OF yields_count(1)], assumption, elim conjE)
  by (simp add: surge_seen_def Let_def)

definition key_unused :: "facts \<Rightarrow> string option \<Rightarrow> bool" where
  "key_unused F key \<longleftrightarrow> (\<forall>k i r. key = Some k \<longrightarrow> f_rides F i = Some r \<longrightarrow> idempotency_key r \<noteq> Some k)"

lemma yields_no_winner:
  assumes "steady t F w" and "key_unused F (Some k)"
  shows "yields t (get_by_idempotency_key k) (\<lambda>x w'. x = None \<and> steady t F w') w"
proof -
  have "\<forall>i. row_lock (w_rides w) i \<noteq> Some t" using steady_locks(2) [OF assms(1)] by simp
  from idle_rows(2) [OF this] have rows: "set (view_rows t (w_rides w)) = ran (f_rides F)"
    by (simp add: steady_data(2) [OF assms(1)])
  have "filter (\<lambda>r. idempotency_key r = Some k) (view_rows t (w_rides w)) = []"
    unfolding filter_empty_conv rows using assms(2) by (auto simp: key_unused_def ran_def)
  then have "yields t (ask (SelectRides (\<lambda>r. idempotency_key r = Some k)) un_rides) (\<lambda>rs w'. rs = [] \<and> steady t F w') w"
    using assms(1) by (auto simp: served_ask steady_exec_db [OF assms(1)] Let_def session_upd_def)
  then show ?thesis unfolding get_by_idempotency_key_def by (rule served_pbindI) auto
qed

definition ride_added :: "facts \<Rightarrow> uuid \<Rightarrow> ride \<Rightarrow> facts" where
  "ride_added F i r = F\<lparr>f_rides := (f_rides F)(i \<mapsto> r)\<rparr>"

lemma yields_insert:
  assumes st: "steady t F w" and rider: "f_riders F rider \<noteq> None" and key: "key_unused F key"
    and m: "numeric_4_2 (multiplier surge) = Some m"
  shows "yields t (insert_ride cfg rider lat lng key z surge)
    (\<lambda>i w'. f_rides F i = None \<and> steady t (ride_added F i (new_ride F i rider lat lng key (Some z) (Some m))) w') w"
proof -
  let ?r = "\<lambda>i. new_ride F i rider lat lng key (Some z) (Some m)"
  have created: "yields t (ride_create rider lat lng key (Some z) (Some (multiplier surge)))
      (\<lambda>r w'. \<exists>i. f_rides F i = None \<and> r = ?r i \<and> staged t (ride_added F i r) w') w"
    unfolding ride_create_def
    by (rule yields_must_exist, rule served_mono [OF yields_insert_ride [OF st rider m]])
      (use key in \<open>auto simp: key_unused_def ride_added_def\<close>)
  have kept: "yields t (pbind (ride_create rider lat lng key (Some z) (Some (multiplier surge))) (\<lambda>ride.
        pbind db_commit (\<lambda>_. Return (r_id ride))))
      (\<lambda>i w'. f_rides F i = None \<and> steady t (ride_added F i (?r i)) w') w"
    apply (rule served_pbindI [OF created], elim exE conjE)
    apply (rule served_pbindI [OF yields_commit], assumption)
    by (simp add: new_ride_def)
  show ?thesis
    unfolding insert_ride_def
    apply (rule served_handleI [OF kept])
     apply (elim exE conjE)
     apply (rule served_pbindI [OF yields_refresh_ride(2)], simp, simp add: ride_added_def)
     apply (elim conjE, rule served_pbindI [OF yields_told(1)], assumption)
    by auto
qed

lemma yields_create:
  assumes st: "steady t F w" and rider: "f_riders F rider \<noteq> None" and key: "key_unused F key"
    and z: "z = zone_id_for_point h lat lng (surge_zone_resolution cfg)"
    and m: "numeric_4_2 (multiplier (surge_seen cfg F z)) = Some m"
  shows "yields t (create_ride h cfg rider lat lng key)
    (\<lambda>i w'. f_rides F i = None \<and> steady t (ride_added F i (new_ride F i rider lat lng key (Some z) (Some m))) w') w"
proof -
  have "yields t (case key of None \<Rightarrow> Return None | Some k \<Rightarrow> get_by_idempotency_key k) (\<lambda>x w'. x = None \<and> steady t F w') w"
    using yields_no_winner [OF st] key st by (cases key) auto
  then show ?thesis
    unfolding create_ride_def
    apply (rule served_pbindI)
    apply (simp add: z [symmetric] Let_def)
    apply (rule served_pbindI [OF yields_surge], assumption, elim conjE)
    apply (simp only:)
    by (rule yields_insert [OF _ rider key m])
qed

lemma new_ride_fields [simp]:
  "r_id (new_ride F i rider lat lng key zo m) = i" "r_status (new_ride F i rider lat lng key zo m) = REQUESTED"
  "pickup_lat (new_ride F i rider lat lng key zo m) = lat" "pickup_lng (new_ride F i rider lat lng key zo m) = lng"
  "idempotency_key (new_ride F i rider lat lng key zo m) = key" "r_driver_id (new_ride F i rider lat lng key zo m) = None"
  by (simp_all add: new_ride_def)

lemma ride_added_fields [simp]:
  "f_rides (ride_added F i r) = (f_rides F)(i \<mapsto> r)" "f_drivers (ride_added F i r) = f_drivers F"
  "f_riders (ride_added F i r) = f_riders F" "f_redis (ride_added F i r) = f_redis F" "f_clock_ms (ride_added F i r) = f_clock_ms F"
  by (simp_all add: ride_added_def)

lemma consistent_added:
  assumes "consistent F" and "key_unused F key" and "f_rides F i = None"
  shows "consistent (ride_added F i (new_ride F i rider lat lng key zo m))"
proof -
  let ?r = "new_ride F i rider lat lng key zo m"
  have "fleet_ok (\<lambda>d. map_option d_status (f_drivers F d)) ((f_rides F)(i \<mapsto> ?r))"
    by (rule fleet_new_ride [OF consistentD(1) [OF assms(1)] assms(3)]) (simp add: fresh_ride_def new_ride_def)
  moreover have "unique_rows uq_idempotency_key ((f_rides F)(i \<mapsto> ?r))"
    using unique_rowsD [OF consistentD(2) [OF assms(1)]] assms(2)
    by (auto simp: unique_rows_def key_unused_def uq_idempotency_key_iff)
  ultimately show ?thesis
    using consistentD(3) [OF assms(1)] unfolding consistent_def by simp
qed

text \<open>How a request ends whose ride \<open>r\<close> waits in \<open>F\<close>, with the drivers \<open>near\<close> to choose from.\<close>

definition request_ends :: "driver list \<Rightarrow> facts \<Rightarrow> ride \<Rightarrow> ride \<Rightarrow> facts \<Rightarrow> bool" where
  "request_ends near F r m G \<longleftrightarrow>
     (if near = [] then m = r \<and> G = F
      else \<exists>x. nearest_of (pickup_lat r) (pickup_lng r) near x \<and> matched_to F r x m G)"

lemma yields_timed:
  assumes "steady t G w" and "\<And>w'. steady t G w' \<Longrightarrow> served t p Q w'"
  shows "served t (pbind perf_counter (\<lambda>now. pbind (record_metric oc (now - start)) (\<lambda>_. p))) Q w"
  by (rule served_pbindI [OF yields_clock(2) [OF assms(1)]], elim conjE,
      rule served_pbindI [OF yields_told(2)], assumption, rule assms(2))

lemma yields_matching:
  assumes st: "steady t F w" and free: "no_locks F" and cons: "consistent F" and ds: "lists_drivers ds F"
    and h: "h3_documented h" "0 \<le> match_max_ring cfg" and r: "f_rides F (r_id r) = Some r" "r_status r = REQUESTED"
    and near: "near = near_drivers h cfg ds (pickup_lat r) (pickup_lng r) (match_target_candidates cfg) (match_max_ring cfg)"
  shows "yields t (handle (match_ride h cfg (r_id r))
             (\<lambda>matched. pbind perf_counter (\<lambda>t. pbind (record_metric OMatched (t - start)) (\<lambda>_. Return matched)))
             (\<lambda>e. case e of
                NoAvailableDriverError _ \<Rightarrow>
                  pbind perf_counter (\<lambda>t. pbind (record_metric OUnmatched (t - start)) (\<lambda>_. load_ride (r_id r)))
              | _ \<Rightarrow> pbind perf_counter (\<lambda>t. pbind (record_metric OError (t - start)) (\<lambda>_. Raise e))))
    (\<lambda>ride w'. \<exists>G. request_ends near F r ride G \<and> steady t G w') w"
    (is "yields t _ ?Q w")
proof (rule served_handleI [OF served_match_ride [OF st free cons ds r h, folded near]], elim exE conjE)
  fix x w2 G
  assume "matching_ends near F r (Inr x) G" and st2: "steady t G w2"
  then have ends: "request_ends near F r x G"
    by (auto simp: matching_ends_def request_ends_def split: if_splits)
  show "yields t (pbind perf_counter (\<lambda>t. pbind (record_metric OMatched (t - start)) (\<lambda>_. Return x))) ?Q w2"
    by (rule yields_timed [OF st2]) (use ends in \<open>simp only: served.simps, blast\<close>)
next
  fix e w2
  assume "\<exists>G. matching_ends near F r (Inl e) G \<and> steady t G w2"
  then have none: "near = []" and e: "e = NoAvailableDriverError (r_id r)" and st2: "steady t F w2"
    by (auto simp: matching_ends_def split: if_splits)
  have "yields t (load_ride (r_id r)) ?Q w3" if "steady t F w3" for w3
    by (rule served_mono [OF yields_refresh_ride(2) [OF that r(1)]]) (use none in \<open>auto simp: request_ends_def\<close>)
  from yields_timed [OF st2 this]
  show "yields t (case e of
            NoAvailableDriverError _ \<Rightarrow>
              pbind perf_counter (\<lambda>t. pbind (record_metric OUnmatched (t - start)) (\<lambda>_. load_ride (r_id r)))
          | _ \<Rightarrow> pbind perf_counter (\<lambda>t. pbind (record_metric OError (t - start)) (\<lambda>_. Raise e))) ?Q w2"
    unfolding e exn.case .
qed

lemma yields_request:
  assumes st: "steady t F w" and free: "no_locks F" and cons: "consistent F" and ds: "lists_drivers ds F"
    and h: "h3_documented h" "0 \<le> match_max_ring cfg" and rider: "f_riders F rider \<noteq> None"
    and k: "key = (if idem = Some [] then None else idem)" and key: "key_unused F key"
    and z: "z = zone_id_for_point h lat lng (surge_zone_resolution cfg)"
    and m: "numeric_4_2 (multiplier (surge_seen cfg F z)) = Some m"
    and near: "near = near_drivers h cfg ds lat lng (match_target_candidates cfg) (match_max_ring cfg)"
  shows "yields t (request_ride h cfg rider lat lng idem)
    (\<lambda>ride w'. \<exists>i r G. f_rides F i = None \<and> r = new_ride F i rider lat lng key (Some z) (Some m)
       \<and> request_ends near (ride_added F i r) r ride G \<and> steady t G w') w"
    (is "yields t _ ?Q w")
  unfolding request_ride_def Let_def k [symmetric]
  apply (rule served_pbindI [OF yields_create [OF st rider key z m]], elim conjE)
  subgoal premises prems for i w1
  proof -
    let ?r = "new_ride F i rider lat lng key (Some z) (Some m)"
    let ?F = "ride_added F i ?r"
    have facts: "no_locks ?F" "lists_drivers ds ?F" "f_rides ?F (r_id ?r) = Some ?r"
      using free ds by (simp_all add: no_locks_def lists_drivers_def)
    have near': "near = near_drivers h cfg ds (pickup_lat ?r) (pickup_lng ?r) (match_target_candidates cfg) (match_max_ring cfg)"
      by (simp add: near)
    note matching = yields_matching [OF _ facts(1) consistent_added [OF cons key prems(1)] facts(2) h facts(3) _ near',
        unfolded new_ride_fields, OF _ refl]
    show ?thesis
      apply (rule served_pbindI [OF yields_refresh_ride(2) [OF prems(2)]], simp, elim conjE)
      apply (simp only: new_ride_fields simp_thms if_True)
      apply (rule served_pbindI [OF yields_clock(2)], assumption, elim conjE)
      by (rule served_mono [OF matching], assumption) (use prems(1) in blast)
  qed
  done

text \<open>A request whose key is already that of a ride.\<close>

lemma seen_rides:
  "(i, l, c) \<in> set (id_rides (fold see_ride rs se)) \<Longrightarrow>
     (i, l, c) \<in> set (id_rides se) \<or> (l = c \<and> c \<in> set rs \<and> i = r_id c)"
proof (induction rs arbitrary: se)
  case (Cons x rs)
  from Cons.IH [of "see_ride x se"] Cons.prems show ?case
    by (auto simp: see_ride_def split: if_splits dest!: set_update)
qed simp

lemma fold_see_ride [simp]:
  "id_drivers (fold see_ride rs se) = id_drivers se" "broken (fold see_ride rs se) = broken se"
  by (induction rs arbitrary: se) (simp_all add: see_ride_def)

lemma yields_winner:
  assumes st: "steady t F w" and cons: "consistent F" and r: "f_rides F (r_id r) = Some r" "idempotency_key r = Some k"
  shows "yields t (get_by_idempotency_key k) (\<lambda>x w'. x = Some r \<and> steady t F w') w"
proof -
  let ?rows = "filter (\<lambda>r. idempotency_key r = Some k) (view_rows t (w_rides w))"
  have "\<forall>i. row_lock (w_rides w) i \<noteq> Some t" using steady_locks(2) [OF st] by simp
  from idle_rows(2) [OF this] have rows: "set ?rows = {x \<in> ran (f_rides F). idempotency_key x = Some k}"
    by (auto simp: steady_data(2) [OF st])
  have only: "x = r" if x: "x \<in> set ?rows" for x
  proof -
    obtain i where "f_rides F i = Some x" "idempotency_key x = Some k" using x rows by (auto simp: ran_def)
    then show ?thesis
      using unique_rowsD [OF consistentD(2) [OF cons], of i x "r_id r" r k] r by (simp add: uq_idempotency_key_iff)
  qed
  have "r \<in> set ?rows" using r unfolding rows by (auto simp: ran_def)
  then obtain xs where xs: "?rows = r # xs" using only by (cases ?rows) auto
  have same: "ride_object (w_sessions w t) r = r"
    using steady_objects(2) [OF st] r(1) by (auto simp: ride_object_def split: option.split)
  have rides: "yields t (ask (SelectRides (\<lambda>r. idempotency_key r = Some k)) un_rides)
      (\<lambda>rs w'. rs = map (ride_object (w_sessions w t)) ?rows \<and> steady t F w') w"
  proof (rule yields_askI)
    fix ch re w' assume "ch_fail ch = None" and ex: "exec t ch (SelectRides (\<lambda>r. idempotency_key r = Some k)) w = Some (re, w')"
    then have re: "re = RRides (map (ride_object (w_sessions w t)) ?rows)" and w': "w' = session_upd t (fold see_ride ?rows) w"
      by (simp_all add: steady_exec_db [OF st] Let_def)
    have "steady t F w'"
      by (rule steady_session [OF st ex w']) (use st only r in \<open>auto simp: steady_def dest!: seen_rides\<close>)
    then show "\<exists>rs. ask_result un_rides re = Inr rs \<and> rs = map (ride_object (w_sessions w t)) ?rows \<and> steady t F w'"
      by (simp add: re)
  qed
  show ?thesis
    unfolding get_by_idempotency_key_def by (rule served_pbindI [OF rides]) (auto simp: xs same)
qed

lemma served_retry:
  assumes st: "steady t F w" and free: "no_locks F" and cons: "consistent F" and ds: "lists_drivers ds F"
    and h: "h3_documented h" "0 \<le> match_max_ring cfg"
    and r: "f_rides F (r_id r) = Some r" "idempotency_key r = Some k" and k: "k \<noteq> []"
    and near: "near = near_drivers h cfg ds lat lng (match_target_candidates cfg) (match_max_ring cfg)"
  shows "served t (request_ride h cfg rider lat lng (Some k))
    (\<lambda>res w'. \<exists>G. steady t G w' \<and>
       (if \<not> ride_matches r rider lat lng then res = Inl (IdempotencyKeyConflictError k (r_id r)) \<and> G = F
        else \<exists>ride. res = Inr ride \<and> (if r_status r = REQUESTED then request_ends near F r ride G else ride = r \<and> G = F))) w"
    (is "served t _ ?Q w")
proof -
  have key: "(if Some k = Some [] then None else Some k) = Some k" using k by simp
  show ?thesis
  proof (cases "ride_matches r rider lat lng")
    case False
    then have "served t (create_ride h cfg rider lat lng (Some k))
        (\<lambda>res w'. res = Inl (IdempotencyKeyConflictError k (r_id r)) \<and> steady t F w') w"
      unfolding create_ride_def option.case by (intro served_pbindI [OF yields_winner [OF st cons r]]) auto
    then show ?thesis
      unfolding request_ride_def Let_def key
      by (intro served_pbind_fails, elim served_mono) (use False in auto)
  next
    case True
    then have "yields t (create_ride h cfg rider lat lng (Some k)) (\<lambda>i w'. i = r_id r \<and> steady t F w') w"
      unfolding create_ride_def option.case by (intro served_pbindI [OF yields_winner [OF st cons r]]) auto
    moreover have near': "near = near_drivers h cfg ds (pickup_lat r) (pickup_lng r) (match_target_candidates cfg) (match_max_ring cfg)"
      using near True by (simp add: ride_matches_def)
    ultimately show ?thesis
      unfolding request_ride_def Let_def key
      apply (elim served_pbindI, elim conjE)
      apply (simp only:)
      apply (rule served_pbindI [OF yields_refresh_ride(2) [OF _ r(1)]], assumption, elim conjE)
      apply (simp only: split: if_split)
      apply (intro conjI impI)
       apply (rule served_pbindI [OF yields_clock(2)], assumption, elim conjE)
       apply (rule served_mono [OF yields_matching [OF _ free cons ds h r(1) _ near']], assumption, assumption)
      using True by auto
  qed
qed

section \<open>The end of a ride\<close>

definition freed :: "facts \<Rightarrow> ride_status \<Rightarrow> ride \<Rightarrow> facts \<Rightarrow> bool" where
  "freed F to_st r G \<longleftrightarrow>
     (case r_driver_id r of
        None \<Rightarrow> G = ride_added F (r_id r) (ended_ride F to_st r)
      | Some d \<Rightarrow> \<exists>x. f_drivers F d = Some x \<and> d_status x = BUSY
          \<and> G = (ride_added F (r_id r) (ended_ride F to_st r))\<lparr>f_drivers := (f_drivers F)(d \<mapsto> x\<lparr>d_status := AVAILABLE, last_updated_at := f_now F\<rparr>)\<rparr>)"

lemma ended_ride_fields [simp]:
  "r_id (ended_ride F to_st r) = r_id r" "r_status (ended_ride F to_st r) = to_st" "r_driver_id (ended_ride F to_st r) = r_driver_id r"
  by (simp_all add: ended_ride_def)

lemma yields_free_and_commit:
  assumes st: "staged t (ride_added F (r_id r) (ended_ride F to_st r)) w" and cons: "consistent F"
    and r: "f_rides F (r_id r) = Some r" "is_active r"
  shows "yields t (pbind (free_driver (ended_ride F to_st r)) (\<lambda>_. db_commit)) (\<lambda>_ w'. \<exists>G. freed F to_st r G \<and> steady t G w') w"
proof (cases "r_driver_id r")
  case None
  then show ?thesis
    unfolding free_driver_def by (simp, intro served_mono [OF yields_commit [OF st]]) (auto simp: freed_def)
next
  case (Some d)
  have "map_option d_status (f_drivers F d) = Some BUSY"
    by (rule fleet_active_busy [OF consistentD(1) [OF cons] r Some])
  then obtain x where x: "f_drivers F d = Some x" "d_status x = BUSY" by auto
  have d: "d = d_id x" using consistentD(3) [OF cons x(1)] by simp
  let ?F = "ride_added F (r_id r) (ended_ride F to_st r)"
  have now: "f_now ?F = f_now F" by simp
  have row: "f_drivers ?F (d_id x) = Some x" using x d by simp
  show ?thesis
    unfolding free_driver_def ended_ride_fields Some option.case driver_get_by_id_def pbind_assoc d
    apply (rule served_pbindI [OF yields_staged_driver [OF st row]], elim conjE)
    subgoal premises prems for y w1
      apply (simp add: prems(1))
      apply (rule served_pbindI [OF yields_set_status [OF prems(2,3)]], elim conjE)
      subgoal premises prems' for u w2
        unfolding prems'(1)
        by (rule served_mono [OF yields_commit_claim [OF prems(2) prems'(2) [unfolded prems'(1)] row]])
          (use x d Some in \<open>auto simp: freed_def\<close>)
      done
    done
qed

definition ending :: "uuid \<Rightarrow> ride_status list \<Rightarrow> ride_status \<Rightarrow> facts \<Rightarrow> exn + ride \<Rightarrow> facts \<Rightarrow> bool" where
  "ending i from_st to_st F res G \<longleftrightarrow>
     (case f_rides F i of
        None \<Rightarrow> res = Inl (RideNotFoundError i) \<and> G = F
      | Some r \<Rightarrow>
          if r_status r \<notin> set from_st then (\<exists>msg. res = Inl (InvalidRideStateError msg)) \<and> G = F
          else res = Inr (ended_ride F to_st r) \<and> freed F to_st r G)"

lemma freed_row: "freed F to_st r G \<Longrightarrow> f_rides G (r_id r) = Some (ended_ride F to_st r)"
  by (auto simp: freed_def split: option.splits)

lemma served_finish:
  assumes st: "steady t F w" and cons: "consistent F"
    and from_st: "set from_st \<subseteq> set ACTIVE_RIDE_STATUSES" and to_st: "to_st \<notin> set ACTIVE_RIDE_STATUSES"
  shows "served t (finish_ride from_st to_st ev i) (\<lambda>res w'. \<exists>G. ending i from_st to_st F res G \<and> steady t G w') w"
    (is "served t _ ?Q w")
proof (cases "\<exists>r. f_rides F i = Some r \<and> r_status r \<in> set from_st")
  case True
  then obtain r where r: "f_rides F i = Some r" "r_status r \<in> set from_st" by blast
  have id: "r_id r = i" using steady_keyed(2) [OF st r(1)] .
  let ?r = "ended_ride F to_st r"
  let ?F = "ride_added F (r_id r) ?r"
  have active: "is_active r" using r(2) from_st active_in by blast
  have inactive: "\<not> is_active ?r" using to_st active_in [of ?r] by simp
  have row: "f_rides ?F i = Some ?r" by (simp add: id)
  have moved: "yields t (transition_or_raise i from_st to_st) (\<lambda>x w'. x = ?r \<and> staged t ?F w') w"
    unfolding transition_or_raise_def ride_get_by_id_def
    apply (rule served_pbindI [OF yields_get_ride(1) [OF st]], elim conjE)
    subgoal premises prems for x w1
      apply (simp add: prems(1) r(1) id)
      apply (rule served_pbindI [OF yields_update [OF prems(2) r]])
         apply (simp add: id)
        apply (simp add: active_driver_key_iff inactive)
       apply (rule consistentD(2) [OF cons])
      apply (elim conjE)
      apply (simp add: id)
      by (rule served_mono [OF yields_staged_refresh [OF _ row]]) (auto simp: ride_added_def id)
    done
  have finish: "yields t (pbind (pbind (free_driver ?r) (\<lambda>_. db_commit)) (\<lambda>_. pbind (refresh_ride (r_id ?r)) (\<lambda>ride.
     pbind (emit_event ev (data ride)) (\<lambda>_. Return ride)))) (\<lambda>x w'. x = ?r \<and> (\<exists>G. freed F to_st r G \<and> steady t G w')) w1"
    if "staged t ?F w1" for w1 data
  proof (rule served_pbindI [OF yields_free_and_commit [OF that cons]], simp add: r(1) id, rule active, elim exE conjE)
    fix u w2 G assume G: "freed F to_st r G" "steady t G w2"
    have row: "f_rides G (r_id ?r) = Some ?r" using freed_row [OF G(1)] by simp
    show "yields t (pbind (refresh_ride (r_id ?r)) (\<lambda>ride. pbind (emit_event ev (data ride)) (\<lambda>_. Return ride)))
        (\<lambda>x w'. x = ?r \<and> (\<exists>G. freed F to_st r G \<and> steady t G w')) w2"
      by (rule served_pbindI [OF yields_refresh_ride(1) [OF G(2) row]], elim conjE, rule served_pbindI [OF yields_told(1)], assumption)
        (use G(1) in auto)
  qed
  show ?thesis
    unfolding finish_ride_def
    apply (rule served_pbindI [OF moved], elim conjE)
    apply (simp only:)
    apply (rule served_mono [OF finish [unfolded pbind_assoc]], assumption)
    using r by (auto simp: ending_def)
next
  case False
  have gone: "served t (transition_or_raise i from_st to_st) (\<lambda>res w'. \<exists>e. res = Inl e \<and> ?Q (Inl e) w') w"
    unfolding transition_or_raise_def ride_get_by_id_def
    apply (rule served_pbindI [OF yields_get_ride(1) [OF st]], elim conjE)
    subgoal premises prems for x w1
    proof (cases "f_rides F i")
      case None
      then show ?thesis using prems by (auto simp: ending_def)
    next
      case (Some r)
      then have "r_status r \<notin> set from_st" using False by blast
      note refused = yields_no_update [OF prems(2) Some this]
      show ?thesis
        apply (simp add: prems(1) Some Let_def)
        apply (rule served_pbindI [OF refused], elim conjE)
        apply simp
        apply (rule served_pbindI [OF yields_rollback [OF prems(2)]])
        apply (rule served_pbindI [OF yields_get_ride(1)], assumption)
        using Some \<open>r_status r \<notin> set from_st\<close> by (auto simp: ending_def)
    qed
    done
  show ?thesis unfolding finish_ride_def by (rule served_pbind_fails [OF gone])
qed

end
