(* ===== verification/LoneRequests.thy ===== *)
theory LoneRequests
  imports Dispatch
begin

text \<open>
  Total correctness of the ride handlers for a request that is alone, from every reachable state of the service
  at rest: a run to the end exists, and every run ends with the stated response and exactly the stated rows changed.
\<close>

section \<open>The properties\<close>

lemma multiplier_stored:
  assumes "surge_settings_ok cfg" and "surge_max_multiplier cfg \<le> 99"
  obtains m where "numeric_4_2 (multiplier (surge_now cfg w z)) = Some m"
proof -
  have "0 \<le> surge_formula cfg dem sply \<and> surge_formula cfg dem sply \<le> 99" for dem sply
    using assms by (auto simp: surge_formula_def surge_settings_ok_def Let_def min_def max_def)
  then have range: "0 \<le> multiplier (surge_now cfg w z) \<and> multiplier (surge_now cfg w z) \<le> 99"
    by (simp add: surge_now_def Let_def)
  have "numeric_4_2 x \<noteq> None" if "0 \<le> x" "x \<le> 99" for x
  proof -
    have "0 \<le> round (x * 100)" "round (x * 100) \<le> 9900"
      using that round_mono [of 0 "x * 100"] round_mono [of "x * 100" "9900"] by simp_all
    then show ?thesis by (simp add: numeric_4_2_def Let_def)
  qed
  then show ?thesis using that range by blast
qed

definition no_driver_locks :: "world \<Rightarrow> bool" where
  "no_driver_locks w \<longleftrightarrow> (\<forall>d. live (w_clock_ms w) (map_of (w_redis w) (lock_key d)) = None)"

definition same_data :: "world \<Rightarrow> world \<Rightarrow> bool" where
  "same_data w w' \<longleftrightarrow> lookup (w_rides w') = lookup (w_rides w) \<and> lookup (w_drivers w') = lookup (w_drivers w)
     \<and> lookup (w_riders w') = lookup (w_riders w) \<and> w_redis w' = w_redis w"

text \<open>
  What is committed once the ride \<open>r\<close> has been through the matcher, with the drivers \<open>near\<close> to choose from: the
  ride is there as it is shown; it waits, and no driver has changed, or it is matched to one of the nearest
  of them, who is busy now. Nothing else has changed and no lock is left behind.
\<close>

definition dispatched :: "world \<Rightarrow> driver list \<Rightarrow> ride \<Rightarrow> ride \<Rightarrow> world \<Rightarrow> bool" where
  "dispatched w near r ride w' \<longleftrightarrow>
     lookup (w_rides w') = (lookup (w_rides w))(r_id r \<mapsto> ride) \<and> lookup (w_riders w') = lookup (w_riders w)
     \<and> no_driver_locks w'
     \<and> (if near = [] then ride = r \<and> lookup (w_drivers w') = lookup (w_drivers w)
        else \<exists>x. nearest_of (pickup_lat r) (pickup_lng r) near x
          \<and> ride = r\<lparr>r_status := MATCHED, r_driver_id := Some (d_id x), matched_at := Some (now_seconds w), updated_at := now_seconds w\<rparr>
          \<and> lookup (w_drivers w') = (lookup (w_drivers w))(d_id x \<mapsto> x\<lparr>d_status := BUSY, last_updated_at := now_seconds w\<rparr>))"

lemma facts_of_fields:
  "f_rides (facts_of w) = lookup (w_rides w)" "f_drivers (facts_of w) = lookup (w_drivers w)"
  "f_riders (facts_of w) = lookup (w_riders w)" "f_redis (facts_of w) = w_redis w" "f_clock_ms (facts_of w) = w_clock_ms w"
  by (simp_all add: facts_of_def)

lemma request_settles:
  assumes "steady t G w'" and "F = ride_added (facts_of w) (r_id r) r" and free: "no_driver_locks w"
    and ends: "request_ends near F r ride G"
  shows "dispatched w near r ride w'"
proof -
  note facts [simp] = facts_of_fields
  note data = steady_data(1-5) [OF assms(1)]
  show ?thesis
  proof (cases "near = []")
    case True
    then have "ride = r" "G = F" using ends by (simp_all add: request_ends_def)
    then show ?thesis using True free data assms(2) by (simp add: dispatched_def no_driver_locks_def)
  next
    case False
    then obtain x where x: "nearest_of (pickup_lat r) (pickup_lng r) near x" and mt: "matched_to F r x ride G"
      using ends by (auto simp: request_ends_def)
    then have "no_locks G" "f_clock_ms G = w_clock_ms w"
      "f_rides G = (lookup (w_rides w))(r_id r \<mapsto> ride)" "f_riders G = lookup (w_riders w)"
      "f_drivers G = (lookup (w_drivers w))(d_id x \<mapsto> x\<lparr>d_status := BUSY, last_updated_at := now_seconds w\<rparr>)"
      "ride = r\<lparr>r_status := MATCHED, r_driver_id := Some (d_id x), matched_at := Some (now_seconds w), updated_at := now_seconds w\<rparr>"
      using assms(2) by (auto simp: matched_to_def claimed_def ride_added_def matched_ride_def)
    then show ?thesis
      using False x data unfolding dispatched_def no_driver_locks_def no_locks_def by simp blast
  qed
qed

lemma facts_at_rest:
  assumes "reachable h cfg vtext C" and "\<forall>t. threads C t = None" and w: "w = the_world C"
  shows "steady t (facts_of w) w" "consistent (facts_of w)"
proof -
  show "steady t (facts_of w) w" using steady_at_rest [OF assms(1,2)] w by simp
  have "keyed_world w" "unique_world w" "fleet_world w"
    using inv_reachable [OF assms(1)] by (simp_all add: service_inv_def w)
  then show "consistent (facts_of w)"
    using keyed_table_lookup [of d_id "w_drivers w"]
    unfolding consistent_def facts_of_def keyed_world_def unique_world_def fleet_world_def driver_statuses_def [abs_def]
    by (auto intro: unique_table_committed)
qed

lemma facts_to_search:
  assumes "no_driver_locks w" and "distinct (map d_id ds)" and "set ds = ran (lookup (w_drivers w))"
  shows "no_locks (facts_of w)" "lists_drivers ds (facts_of w)"
  using assms by (simp_all add: no_locks_def no_driver_locks_def lists_drivers_def facts_of_fields)

lemma steady_same_data: "steady t (facts_of w) w' \<Longrightarrow> same_data w w'"
  using steady_data(1-4) [of t "facts_of w" w'] by (simp add: same_data_def facts_of_fields)

lemma lone_request_served:
  assumes "reachable h cfg vtext C" and rest: "\<forall>t. threads C t = None" and w: "w = the_world C"
    and served: "yields t (serve h cfg vtext req) P w"
  shows "(\<exists>chs resp w'. (\<forall>ch \<in> set chs. ch_fail ch = None) \<and> run_thread t chs (serve h cfg vtext req) w = Some (resp, w'))
    \<and> (\<forall>chs resp w'. (\<forall>ch \<in> set chs. ch_fail ch = None) \<longrightarrow>
        run_thread t chs (serve h cfg vtext req) w = Some (resp, w') \<longrightarrow> P resp w')"
proof -
  have "C = \<lparr>the_world = w, threads = \<lambda>_. None\<rparr>" using rest w by (cases C) auto
  then have "reachable h cfg vtext \<lparr>the_world = w, threads = (\<lambda>_. None)(t := Some (serve h cfg vtext req))\<rparr>"
    using reachable.step [OF assms(1) step.accept [of C t]] rest by simp
  from lone_request_runs [OF this served] served_run_thread [OF _ _ served] show ?thesis by fastforce
qed

lemma served_response:
  assumes "served t p Q w" and "\<And>x w'. Q (Inr x) w' \<Longrightarrow> P (Response status (f x)) w'"
    and "\<And>e w'. Q (Inl e) w' \<Longrightarrow> P (handle_exception e) w'"
  shows "yields t (respond status f p) P w"
  unfolding respond_def by (rule served_handleI [OF assms(1)]) (use assms(2,3) in auto)

lemma yields_serve:
  "valid_request req \<Longrightarrow> yields t (endpoint h cfg req) P w \<Longrightarrow> yields t (serve h cfg vtext req) P w"
  by (simp add: serve_def)

text \<open>C11: a ride request that arrives when no other is in flight and no dependency fails is served. From every
  reachable state at rest, when the rider exists, the idempotency key has not been used and Redis holds no
  live lock of a driver, the handler can be run to its end, and every run ends with the ride created:
  priced with the surge of its zone and, when the search has a driver to offer, matched to one than
  whom none of them is nearer, who is then busy; otherwise it waits for a driver and nothing else has
  changed. No lock is left behind.\<close>

theorem lone_request_gets_nearest_driver:
  assumes "reachable h cfg vtext C" and "\<forall>t. threads C t = None" and "w = the_world C"
    and "h3_documented h" and "0 \<le> match_max_ring cfg" and "surge_settings_ok cfg" and "surge_max_multiplier cfg \<le> 99"
    and "valid_request (PostRide rider lat lng idem)" and rider: "lookup (w_riders w) rider \<noteq> None"
    and key: "key = (if idem = Some [] then None else idem)"
    and unused: "\<forall>k i r. key = Some k \<longrightarrow> lookup (w_rides w) i = Some r \<longrightarrow> idempotency_key r \<noteq> Some k"
    and "no_driver_locks w" and "distinct (map d_id ds)" and "set ds = ran (lookup (w_drivers w))"
    and "near = near_drivers h cfg ds lat lng (match_target_candidates cfg) (match_max_ring cfg)"
    and "z = zone_id_for_point h lat lng (surge_zone_resolution cfg)"
  shows "(\<exists>chs resp w'. (\<forall>ch \<in> set chs. ch_fail ch = None)
        \<and> run_thread t chs (serve h cfg vtext (PostRide rider lat lng idem)) w = Some (resp, w'))
    \<and> (\<forall>chs resp w'. (\<forall>ch \<in> set chs. ch_fail ch = None) \<longrightarrow>
        run_thread t chs (serve h cfg vtext (PostRide rider lat lng idem)) w = Some (resp, w') \<longrightarrow>
        (\<exists>i m ride. lookup (w_rides w) i = None \<and> numeric_4_2 (multiplier (surge_now cfg w z)) = Some m
           \<and> resp = Response 201 (BRide (to_ride_response ride))
           \<and> dispatched w near
               \<lparr>r_id = i, r_rider_id = rider, r_driver_id = None, r_status = REQUESTED, pickup_lat = lat, pickup_lng = lng,
                matched_at = None, fare = None, surge_multiplier = Some m, r_zone_id = Some z, idempotency_key = key,
                created_at = now_seconds w, updated_at = now_seconds w\<rparr> ride w'))"
proof -
  let ?F = "facts_of w"
  note rest = facts_at_rest(1) [OF assms(1-3)] facts_to_search(1) [OF assms(12-14)] facts_at_rest(2) [OF assms(1-3)]
    facts_to_search(2) [OF assms(12-14)]
  have known: "f_riders ?F rider \<noteq> None" "key_unused ?F key" using rider unused by (simp_all add: key_unused_def facts_of_fields)
  obtain m where m: "numeric_4_2 (multiplier (surge_now cfg w z)) = Some m" using multiplier_stored [OF assms(6,7)] by blast
  then have seen: "numeric_4_2 (multiplier (surge_seen cfg ?F z)) = Some m" by (simp add: surge_seen_now)
  have new: "dispatched w near (new_ride ?F i rider lat lng key (Some z) (Some m)) ride w'"
    if "request_ends near (ride_added ?F i (new_ride ?F i rider lat lng key (Some z) (Some m)))
      (new_ride ?F i rider lat lng key (Some z) (Some m)) ride G" "steady t G w'" for i ride G w'
    by (rule request_settles [OF that(2) _ assms(12) that(1)]) simp
  show ?thesis
    by (rule lone_request_served [OF assms(1-3) yields_serve [OF assms(8)]], unfold endpoint.simps, rule served_response
        [OF yields_request [OF rest assms(4,5) known(1) key known(2) assms(16) seen assms(15)]])
      (use m new [unfolded new_ride_def facts_of_fields] in \<open>unfold new_ride_def facts_of_fields, blast+\<close>)
qed

text \<open>C12: a retry is idempotent. When the key of the request is already that of a committed ride (the client saw no
  response, say), then in every reachable state at rest the handler can be run to its end without a dependency
  failing, and no run creates a ride: with other parameters than the ride's the response is the 409 conflict and
  nothing has changed; otherwise it is 201 with that ride, which is as it was unless it was still waiting for a
  driver: then it has been through the matcher again.\<close>

theorem retried_request_is_idempotent:
  assumes "reachable h cfg vtext C" and "\<forall>t. threads C t = None" and "w = the_world C"
    and "h3_documented h" and "0 \<le> match_max_ring cfg"
    and "valid_request (PostRide rider lat lng (Some k))" and "k \<noteq> []"
    and r: "lookup (w_rides w) i = Some r" and k: "idempotency_key r = Some k"
    and "no_driver_locks w" and "distinct (map d_id ds)" and "set ds = ran (lookup (w_drivers w))"
    and "near = near_drivers h cfg ds lat lng (match_target_candidates cfg) (match_max_ring cfg)"
  shows "(\<exists>chs resp w'. (\<forall>ch \<in> set chs. ch_fail ch = None)
        \<and> run_thread t chs (serve h cfg vtext (PostRide rider lat lng (Some k))) w = Some (resp, w'))
    \<and> (\<forall>chs resp w'. (\<forall>ch \<in> set chs. ch_fail ch = None) \<longrightarrow>
        run_thread t chs (serve h cfg vtext (PostRide rider lat lng (Some k))) w = Some (resp, w') \<longrightarrow>
        (if ride_matches r rider lat lng
         then \<exists>ride. resp = Response 201 (BRide (to_ride_response ride))
           \<and> (if r_status r = REQUESTED then dispatched w near r ride w' else ride = r \<and> same_data w w')
         else (\<exists>b. resp = Response 409 b \<and> is_error_body b) \<and> same_data w w'))"
proof -
  let ?F = "facts_of w"
  note rest = facts_at_rest(1) [OF assms(1-3)] facts_to_search(1) [OF assms(10-12)] facts_at_rest(2) [OF assms(1-3)]
    facts_to_search(2) [OF assms(10-12)]
  have id: "r_id r = i" using steady_keyed(2) [OF rest(1)] r by (simp add: facts_of_fields)
  then have row: "f_rides ?F (r_id r) = Some r" using r by (simp add: facts_of_fields)
  have "ride_added ?F (r_id r) r = ?F"
    using row by (simp add: ride_added_def fun_upd_idem)
  then have settles: "dispatched w near r ride w'" if "request_ends near ?F r ride G" "steady t G w'" for ride G w'
    by (intro request_settles [OF that(2) _ assms(10) that(1)]) simp
  show ?thesis
    by (rule lone_request_served [OF assms(1-3) yields_serve [OF assms(6)]], unfold endpoint.simps, rule served_response
        [OF served_retry [OF rest assms(4,5) row k assms(7,13)]])
      (use settles steady_same_data in \<open>auto simp: error_response_def split: if_splits\<close>)
qed

text \<open>C13: cancelling and completing, when no other request is in flight: from every reachable state at rest the
  handler can be run to its end without a dependency failing, and every run answers 404 when there is no
  such ride, 409 when its status does not allow the transition, nothing having changed either way, and
  otherwise 200 with the ride in its new status, which is committed together with the release of its driver:
  the driver was busy and is available. Nothing else has changed.\<close>

theorem lone_ending_frees_driver:
  assumes "reachable h cfg vtext C" and "\<forall>t. threads C t = None" and "w = the_world C"
    and how: "(req, from_st, to_st) \<in> {(CancelRide i, ACTIVE_RIDE_STATUSES, CANCELLED), (CompleteRide i, COMPLETABLE_STATUSES, COMPLETED)}"
  shows "(\<exists>chs resp w'. (\<forall>ch \<in> set chs. ch_fail ch = None) \<and> run_thread t chs (serve h cfg vtext req) w = Some (resp, w'))
    \<and> (\<forall>chs resp w'. (\<forall>ch \<in> set chs. ch_fail ch = None) \<longrightarrow> run_thread t chs (serve h cfg vtext req) w = Some (resp, w') \<longrightarrow>
        (case lookup (w_rides w) i of
           None \<Rightarrow> (\<exists>b. resp = Response 404 b \<and> is_error_body b) \<and> same_data w w'
         | Some r \<Rightarrow>
             if r_status r \<notin> set from_st then (\<exists>b. resp = Response 409 b \<and> is_error_body b) \<and> same_data w w'
             else let r' = r\<lparr>r_status := to_st, updated_at := now_seconds w\<rparr>
               in resp = Response 200 (BRide (to_ride_response r')) \<and> lookup (w_rides w') = (lookup (w_rides w))(i \<mapsto> r')
                 \<and> lookup (w_riders w') = lookup (w_riders w) \<and> w_redis w' = w_redis w
                 \<and> (case r_driver_id r of
                      None \<Rightarrow> lookup (w_drivers w') = lookup (w_drivers w)
                    | Some d \<Rightarrow> \<exists>x. lookup (w_drivers w) d = Some x \<and> d_status x = BUSY
                        \<and> lookup (w_drivers w') = (lookup (w_drivers w))(d \<mapsto> x\<lparr>d_status := AVAILABLE, last_updated_at := now_seconds w\<rparr>))))"
    (is "?runs \<and> (\<forall>chs resp w'. _ \<longrightarrow> _ \<longrightarrow> ?ends resp w')")
proof -
  note st = facts_at_rest(1) [OF assms(1-3)]
  note rest = st facts_at_rest(2) [OF assms(1-3)]
  have id: "r_id r = i" if "lookup (w_rides w) i = Some r" for r
    using steady_keyed(2) [OF st] that by (simp add: facts_of_fields)
  have ends: "?ends (case res of Inr r \<Rightarrow> Response 200 (BRide (to_ride_response r)) | Inl e \<Rightarrow> handle_exception e) w'"
    if "ending i from_st to_st (facts_of w) res G" "steady t G w'" for res G w'
    using that(1) steady_data(1-4) [OF that(2)] id steady_same_data [of t w w'] that(2)
    by (auto simp: ending_def freed_def facts_of_fields ended_ride_def Let_def error_response_def split: option.splits)
  have finished: "yields t (respond 200 (\<lambda>r. BRide (to_ride_response r)) (finish_ride from_st to_st ev i)) ?ends w"
    if "set from_st \<subseteq> set ACTIVE_RIDE_STATUSES" "to_st \<notin> set ACTIVE_RIDE_STATUSES" for ev
    by (rule served_response [OF served_finish [OF rest that]]; elim exE conjE)
      (rule ends [of "Inr _", unfolded sum.case] ends [of "Inl _", unfolded sum.case]; assumption)+
  from how consider "req = CancelRide i" "from_st = ACTIVE_RIDE_STATUSES" "to_st = CANCELLED"
    | "req = CompleteRide i" "from_st = COMPLETABLE_STATUSES" "to_st = COMPLETED" by blast
  then have "yields t (serve h cfg vtext req) ?ends w"
  proof cases
    case 1
    show ?thesis
      unfolding 1(1) by (rule yields_serve, simp, unfold endpoint.simps cancel_ride_def 1(2,3) [symmetric], rule finished)
        (simp_all add: 1 ACTIVE_RIDE_STATUSES_def)
  next
    case 2
    show ?thesis
      unfolding 2(1) by (rule yields_serve, simp, unfold endpoint.simps complete_ride_def 2(2,3) [symmetric], rule finished)
        (simp_all add: 2 ACTIVE_RIDE_STATUSES_def COMPLETABLE_STATUSES_def)
  qed
  then show ?thesis by (rule lone_request_served [OF assms(1-3)])
qed

section \<open>Witnesses\<close>

text \<open>The first driver and the first rider have signed up.\<close>

definition ready_world :: world where
  "ready_world = (init_world default_settings)\<lparr>
     w_drivers := \<lparr>committed = [(''d1'', available_d1)], pending = []\<rparr>,
     w_riders := \<lparr>committed = [(''p1'', rider_p1)], pending = []\<rparr>\<rparr>"

lemma ready_reachable: "demo_reachable (resting ready_world)"
proof -
  have "run_requests point_h3 default_settings (\<lambda>_. []) (take 2 morning) (init_world default_settings) =
     Some ([Response 201 (BDriver available_d1), Response 201 (BRider rider_p1)], ready_world)"
    by (simp add: morning_def ready_world_def handler_defs platform_defs scenario_rows replicate_numeral upto.simps fun_upd_idem)
  from reachable_steps [OF reachable.start run_requests_steps [OF this, folded resting_def init_config_def]]
  show ?thesis by (simp add: init_config_def resting_def)
qed

lemma ready_rows:
  "lookup (w_drivers ready_world) = [''d1'' \<mapsto> available_d1]" "lookup (w_rides ready_world) = Map.empty"
  "lookup (w_riders ready_world) = [''p1'' \<mapsto> rider_p1]" "w_redis ready_world = []"
  by (simp_all add: ready_world_def init_world_def empty_table_def fun_eq_iff)

lemma ready_near: "near_drivers point_h3 default_settings [available_d1] 3 0 (match_target_candidates default_settings)
    (match_max_ring default_settings) = [available_d1]"
  by (simp add: near_drivers_def search_radius_def available_in_disk_def available_d1_def point_h3_def latlng_to_h3_def
      default_settings_def unary_def upto.simps eval_nat_numeral Let_def)

lemma demo_settings: "0 \<le> match_max_ring default_settings" "surge_max_multiplier default_settings \<le> 99"
  by (simp_all add: default_settings_def)

lemma demo_no_locks: "w_redis w = [] \<Longrightarrow> no_driver_locks w"
  by (simp add: no_driver_locks_def live_def)

abbreviation demo_serve :: "request \<Rightarrow> http prog" where
  "demo_serve \<equiv> serve point_h3 default_settings (\<lambda>_. [])"

theorem lone_request_gets_nearest_driver_witness:
  "\<exists>chs ride w'. run_thread 0 chs (demo_serve (PostRide ''p1'' 3 0 (Some ''k''))) ready_world
       = Some (Response 201 (BRide (to_ride_response ride)), w')
     \<and> r_status ride = MATCHED \<and> r_driver_id ride = Some ''d1''
     \<and> lookup (w_rides w') (r_id ride) = Some ride \<and> map_option d_status (lookup (w_drivers w') ''d1'') = Some BUSY"
proof -
  have "valid_request (PostRide ''p1'' 3 0 (Some ''k''))" by (simp add: valid_point_def)
  moreover have "distinct (map d_id [available_d1])" "set [available_d1] = ran (lookup (w_drivers ready_world))"
    "lookup (w_riders ready_world) ''p1'' \<noteq> None" by (simp_all add: ready_rows)
  ultimately obtain chs resp w' i m ride where run: "run_thread 0 chs (demo_serve (PostRide ''p1'' 3 0 (Some ''k''))) ready_world = Some (resp, w')"
    and resp: "resp = Response 201 (BRide (to_ride_response ride))"
    and d: "dispatched ready_world [available_d1]
               \<lparr>r_id = i, r_rider_id = ''p1'', r_driver_id = None, r_status = REQUESTED, pickup_lat = 3, pickup_lng = 0,
                matched_at = None, fare = None, surge_multiplier = Some m,
                r_zone_id = Some (zone_id_for_point point_h3 3 0 (surge_zone_resolution default_settings)), idempotency_key = Some ''k'',
                created_at = now_seconds ready_world, updated_at = now_seconds ready_world\<rparr> ride w'"
    using lone_request_gets_nearest_driver [where t = 0 and w = ready_world and rider = "''p1''" and lat = 3 and lng = 0
        and idem = "Some ''k''" and key = "Some ''k''", OF ready_reachable _ _ point_h3_documented demo_settings(1)
        default_surge_settings_ok demo_settings(2) _ _ _ _ demo_no_locks _ _ ready_near [symmetric] refl]
    by (simp add: resting_def ready_rows) blast
  from d obtain x where "nearest_of 3 0 [available_d1] x" "r_status ride = MATCHED" "r_driver_id ride = Some (d_id x)" "r_id ride = i"
    "lookup (w_rides w') = (lookup (w_rides ready_world))(i \<mapsto> ride)"
    "lookup (w_drivers w') = (lookup (w_drivers ready_world))(d_id x \<mapsto> x\<lparr>d_status := BUSY, last_updated_at := now_seconds ready_world\<rparr>)"
    unfolding dispatched_def by auto
  moreover from this have "x = available_d1" by (simp add: nearest_of_def)
  ultimately show ?thesis
    using run resp by (intro exI [of _ chs] exI [of _ ride] exI [of _ w']) (simp add: available_d1_def)
qed

theorem retried_request_is_idempotent_witness:
  "\<exists>chs w'. run_thread 0 chs (demo_serve (PostRide ''p1'' 3 0 (Some ''k''))) matched_world
       = Some (Response 201 (BRide (to_ride_response matched_r1)), w') \<and> same_data matched_world w'"
proof -
  have rows: "lookup (w_rides matched_world) ''r1'' = Some matched_r1" "w_redis matched_world = []"
    "lookup (w_drivers matched_world) = [''d1'' \<mapsto> available_d1\<lparr>d_status := BUSY\<rparr>]"
    by (simp_all add: matched_world_def init_world_def fun_eq_iff)
  have "valid_request (PostRide ''p1'' 3 0 (Some ''k''))" by (simp add: valid_point_def)
  moreover have "distinct (map d_id [available_d1\<lparr>d_status := BUSY\<rparr>])"
    "set [available_d1\<lparr>d_status := BUSY\<rparr>] = ran (lookup (w_drivers matched_world))" by (simp_all add: rows)
  moreover have "ride_matches matched_r1 ''p1'' 3 0" by (simp add: ride_matches_def matched_r1_def)
  ultimately show ?thesis
    using retried_request_is_idempotent [where t = 0 and w = matched_world and rider = "''p1''" and lat = 3 and lng = 0
        and k = "''k''" and ds = "[available_d1\<lparr>d_status := BUSY\<rparr>]", OF matched_reachable _ _ point_h3_documented demo_settings(1) _ _ rows(1) _ demo_no_locks [OF rows(2)] _ _ refl]
    by (simp add: resting_def) blast
qed

theorem lone_ending_frees_driver_witness:
  "\<exists>chs w'. run_thread 0 chs (demo_serve (CancelRide ''r1'')) matched_world
       = Some (Response 200 (BRide (to_ride_response (matched_r1\<lparr>r_status := CANCELLED\<rparr>))), w')
     \<and> map_option d_status (lookup (w_drivers w') ''d1'') = Some AVAILABLE"
proof -
  have rows: "lookup (w_rides matched_world) ''r1'' = Some matched_r1" "now_seconds matched_world = 0"
    by (simp_all add: matched_world_def init_world_def)
  have "r_status matched_r1 \<in> set ACTIVE_RIDE_STATUSES" "matched_r1\<lparr>r_status := CANCELLED, updated_at := 0\<rparr> = matched_r1\<lparr>r_status := CANCELLED\<rparr>"
    by (simp_all add: matched_r1_def ACTIVE_RIDE_STATUSES_def)
  then show ?thesis
    using lone_ending_frees_driver [where t = 0 and w = matched_world and req = "CancelRide ''r1''" and i = "''r1''"
        and from_st = ACTIVE_RIDE_STATUSES and to_st = CANCELLED, OF matched_reachable]
    by (simp add: resting_def rows Let_def) (elim conjE exE, fastforce)
qed

end
