(* ===== verification/Orchestration.thy ===== *)
theory Orchestration
  imports SimRunner
begin

text \<open>
  A whole run of the simulation (app/simulation/runner.py, \<open>run\<close>): the main thread with the workers of
  its bursts, the movement thread and the lifecycle thread, as interleaving steps over the shared state,
  until the stop event and the two joins.
\<close>

section \<open>The threads\<close>

text \<open>
  The main thread: at the test of the request loop, in a burst of some size with the workers whose request
  has not returned, in the pause after a burst, at the joins (with or without an exception on its way),
  and at its end, with the outcomes \<open>run\<close> returns or the exception.
\<close>

datatype main_phase =
    AtHead
  | InBurst int "(string \<times> point) list"
  | Pausing
  | Joining bool
  | Returned "sim_outcome list"
  | Raised

text \<open>The movement thread with the drivers of its snapshot that have not moved yet, and the lifecycle thread.\<close>

datatype mover_phase = MoverTest | Moving "nat list" | MoverWaits | MoverEnded
datatype reaper_phase = ReaperTest | Ending | ReaperWaits | ReaperEnded

text \<open>\<open>requests_sent\<close>: the riders for whom a ride was requested.\<close>

record live_run =
  shared :: sim
  main_at :: main_phase
  mover_at :: mover_phase
  reaper_at :: reaper_phase
  stop_event :: bool
  riders_fired :: int
  clock :: real
  end_time :: real
  requests_sent :: "(string \<times> point) list"

definition start_live :: "sim_config \<Rightarrow> real \<Rightarrow> (string \<times> point) list \<Rightarrow> live_run" where
  "start_live c now ds = \<lparr>shared = start_state ds, main_at = AtHead, mover_at = MoverTest, reaper_at = ReaperTest,
     stop_event = False, riders_fired = 0, clock = now, end_time = now + duration_seconds c, requests_sent = []\<rparr>"

definition next_burst :: "sim_config \<Rightarrow> live_run \<Rightarrow> int" where
  "next_burst c s = min (burst_size c) (num_riders c - riders_fired s)"

text \<open>The test of the request loop and the check of the burst size after it.\<close>

definition goes_on :: "sim_config \<Rightarrow> live_run \<Rightarrow> bool" where
  "goes_on c s \<longleftrightarrow> \<not> stop_event s \<and> clock s < end_time s \<and> riders_fired s < num_riders c \<and> 0 < next_burst c s"

text \<open>
  The main thread (\<open>_request_loop\<close> and \<open>run\<close>). The \<open>finally\<close> of \<open>run\<close> sets the stop event, by whatever
  way the request loop ended; each join waits at most five seconds, so that it may return before its thread
  has ended.
\<close>

inductive main_step ::
  "h3_lib \<Rightarrow> (string \<Rightarrow> real \<times> real) \<Rightarrow> settings \<Rightarrow> sim_config \<Rightarrow> live_run \<Rightarrow> live_run \<Rightarrow> bool"
  for h cell_to_latlng cfg c where
  fire: "main_at s = AtHead \<Longrightarrow> goes_on c s \<Longrightarrow> unit_draws rng \<Longrightarrow> length replies = nat (next_burst c s) \<Longrightarrow>
    fire_burst h cell_to_latlng cfg c replies rng = Inr riders \<Longrightarrow>
    main_step h cell_to_latlng cfg c s
      (s\<lparr>main_at := InBurst (next_burst c s) riders, requests_sent := requests_sent s @ riders\<rparr>)"
| fire_raises: "main_at s = AtHead \<Longrightarrow> goes_on c s \<Longrightarrow> unit_draws rng \<Longrightarrow> length replies = nat (next_burst c s) \<Longrightarrow>
    fire_burst h cell_to_latlng cfg c replies rng = Inl e \<Longrightarrow>
    main_step h cell_to_latlng cfg c s (s\<lparr>main_at := Joining True, stop_event := True\<rparr>)"
| burst_ends: "main_at s = InBurst b [] \<Longrightarrow> to_schedule (shared s) = [] \<Longrightarrow> tick_interval_seconds c = Some tick \<Longrightarrow>
    main_step h cell_to_latlng cfg c s (s\<lparr>main_at := Pausing, riders_fired := riders_fired s + b\<rparr>)"
| wait_raises: "main_at s = InBurst b [] \<Longrightarrow> to_schedule (shared s) = [] \<Longrightarrow> tick_interval_seconds c = None \<Longrightarrow>
    main_step h cell_to_latlng cfg c s
      (s\<lparr>main_at := Joining True, riders_fired := riders_fired s + b, stop_event := True\<rparr>)"
| main_wakes: "main_at s = Pausing \<Longrightarrow> main_step h cell_to_latlng cfg c s (s\<lparr>main_at := AtHead\<rparr>)"
| loop_ends: "main_at s = AtHead \<Longrightarrow> \<not> goes_on c s \<Longrightarrow>
    main_step h cell_to_latlng cfg c s (s\<lparr>main_at := Joining False, stop_event := True\<rparr>)"
| joined: "main_at s = Joining raised \<Longrightarrow>
    main_step h cell_to_latlng cfg c s (s\<lparr>main_at := if raised then Raised else Returned (results (shared s))\<rparr>)"

text \<open>A worker of a burst: its request returns and its outcome is recorded; then, when it was matched, the end
  of the ride is scheduled.\<close>

inductive worker_step :: "sim_config \<Rightarrow> live_run \<Rightarrow> live_run \<Rightarrow> bool" for c where
  request: "main_at s = InBurst b (xs @ w # ys) \<Longrightarrow>
    worker_step c s (s\<lparr>main_at := InBurst b (xs @ ys), shared := finish_request latency reply (shared s)\<rparr>)"
| schedule: "to_schedule (shared s) = xs @ i # ys \<Longrightarrow> unit_draws rng \<Longrightarrow>
    worker_step c s (s\<lparr>shared := (shared s)\<lparr>to_schedule := xs @ ys,
      pending_rides := pending_rides (shared s) @ [fst (run_state (schedule_lifecycle c (clock s) i) rng)]\<rparr>\<rparr>)"

text \<open>The movement thread (\<open>_movement_loop\<close>): the drivers of a snapshot are moved in any order.\<close>

inductive mover_step :: "sim_config \<Rightarrow> live_run \<Rightarrow> live_run \<Rightarrow> bool" for c where
  movement_tick: "mover_at s = MoverTest \<Longrightarrow> \<not> stop_event s \<Longrightarrow>
    mover_step c s (s\<lparr>mover_at :=
      (if tracked (shared s) = [] then MoverWaits else Moving [0..<length (tracked (shared s))])\<rparr>)"
| move: "mover_at s = Moving (xs @ k # ys) \<Longrightarrow> unit_draws rng \<Longrightarrow>
    mover_step c s (s\<lparr>mover_at := Moving (xs @ ys),
      shared := (shared s)\<lparr>tracked := (tracked (shared s))[k := move_one c rng ok (tracked (shared s) ! k)]\<rparr>\<rparr>)"
| moved: "mover_at s = Moving [] \<Longrightarrow> mover_step c s (s\<lparr>mover_at := MoverWaits\<rparr>)"
| mover_wakes: "mover_at s = MoverWaits \<Longrightarrow> mover_step c s (s\<lparr>mover_at := MoverTest\<rparr>)"
| mover_ends: "mover_at s = MoverTest \<Longrightarrow> stop_event s \<Longrightarrow> mover_step c s (s\<lparr>mover_at := MoverEnded\<rparr>)"

text \<open>The lifecycle thread (\<open>_lifecycle_loop\<close>): the rides that are due are ended one after the other.\<close>

inductive reaper_step :: "live_run \<Rightarrow> live_run \<Rightarrow> bool" where
  reaper_tick: "reaper_at s = ReaperTest \<Longrightarrow> \<not> stop_event s \<Longrightarrow>
    reaper_step s (s\<lparr>reaper_at := Ending, shared := lifecycle_tick (clock s) (shared s)\<rparr>)"
| end_one: "reaper_at s = Ending \<Longrightarrow> due_rides (shared s) = p # ps \<Longrightarrow>
    reaper_step s (s\<lparr>shared := (shared s)\<lparr>due_rides := ps, ended_rides := ended_rides (shared s) @ [p]\<rparr>\<rparr>)"
| all_ended: "reaper_at s = Ending \<Longrightarrow> due_rides (shared s) = [] \<Longrightarrow> reaper_step s (s\<lparr>reaper_at := ReaperWaits\<rparr>)"
| reaper_wakes: "reaper_at s = ReaperWaits \<Longrightarrow> reaper_step s (s\<lparr>reaper_at := ReaperTest\<rparr>)"
| reaper_ends: "reaper_at s = ReaperTest \<Longrightarrow> stop_event s \<Longrightarrow> reaper_step s (s\<lparr>reaper_at := ReaperEnded\<rparr>)"

inductive run_step ::
  "h3_lib \<Rightarrow> (string \<Rightarrow> real \<times> real) \<Rightarrow> settings \<Rightarrow> sim_config \<Rightarrow> live_run \<Rightarrow> live_run \<Rightarrow> bool"
  for h cell_to_latlng cfg c where
  main: "main_step h cell_to_latlng cfg c s s' \<Longrightarrow> run_step h cell_to_latlng cfg c s s'"
| worker: "worker_step c s s' \<Longrightarrow> run_step h cell_to_latlng cfg c s s'"
| mover: "mover_step c s s' \<Longrightarrow> run_step h cell_to_latlng cfg c s s'"
| reaper: "reaper_step s s' \<Longrightarrow> run_step h cell_to_latlng cfg c s s'"

inductive run_reachable ::
  "h3_lib \<Rightarrow> (string \<Rightarrow> real \<times> real) \<Rightarrow> settings \<Rightarrow> sim_config \<Rightarrow> live_run \<Rightarrow> bool"
  for h cell_to_latlng cfg c where
  start: "unit_draws rng \<Longrightarrow> length replies = nat (num_drivers c) \<Longrightarrow>
    create_drivers (zip (fst (run_state (generate_points (area_center c) (area_radius_km c) (nat (num_drivers c))) rng))
      replies) [] = Some ds \<Longrightarrow> run_reachable h cell_to_latlng cfg c (start_live c now ds)"
| step: "run_reachable h cell_to_latlng cfg c s \<Longrightarrow> run_step h cell_to_latlng cfg c s s' \<Longrightarrow>
    run_reachable h cell_to_latlng cfg c s'"
| elapse: "run_reachable h cell_to_latlng cfg c s \<Longrightarrow> 0 \<le> dt \<Longrightarrow>
    run_reachable h cell_to_latlng cfg c (s\<lparr>clock := clock s + dt\<rparr>)"

section \<open>The run refines the bookkeeping\<close>

definition mover_ok :: "live_run \<Rightarrow> bool" where
  "mover_ok s \<longleftrightarrow> (\<forall>ks. mover_at s = Moving ks \<longrightarrow> (\<forall>k \<in> set ks. k < length (tracked (shared s))))"

definition reaper_ok :: "live_run \<Rightarrow> bool" where
  "reaper_ok s \<longleftrightarrow> (reaper_at s \<noteq> Ending \<longrightarrow> due_rides (shared s) = [])"

text \<open>The requests without an answer, and the riders of the burst that are not counted yet.\<close>

fun unanswered :: "main_phase \<Rightarrow> nat" where
  "unanswered (InBurst b ws) = length ws"
| "unanswered _ = 0"

fun uncounted :: "main_phase \<Rightarrow> int" where
  "uncounted (InBurst b ws) = b"
| "uncounted _ = 0"

fun over :: "main_phase \<Rightarrow> bool" where
  "over AtHead = False"
| "over (InBurst b ws) = False"
| "over Pausing = False"
| "over _ = True"

definition main_ok :: "sim_config \<Rightarrow> live_run \<Rightarrow> bool" where
  "main_ok c s \<longleftrightarrow>
     length (requests_sent s) = length (results (shared s)) + unanswered (main_at s)
     \<and> int (length (requests_sent s)) \<le> riders_fired s + uncounted (main_at s)
     \<and> riders_fired s + uncounted (main_at s) \<le> max 0 (num_riders c)
     \<and> (to_schedule (shared s) \<noteq> [] \<longrightarrow> (\<exists>b ws. main_at s = InBurst b ws))
     \<and> (stop_event s \<longleftrightarrow> over (main_at s))
     \<and> (\<forall>os. main_at s = Returned os \<longrightarrow> os = results (shared s))"

definition run_ok :: "sim_config \<Rightarrow> live_run \<Rightarrow> bool" where
  "run_ok c s \<longleftrightarrow> mover_ok s \<and> reaper_ok s \<and> main_ok c s"

lemma finish_request_fields:
  "tracked (finish_request l r s) = tracked s" "due_rides (finish_request l r s) = due_rides s"
  "length (results (finish_request l r s)) = Suc (length (results s))"
  by (simp_all add: finish_request_def results_record_def split: prod.split)

lemma burst_riders_length: "length (fst (run_state (burst_riders c km replies) rng)) \<le> length replies"
proof (induction c km replies arbitrary: rng rule: burst_riders.induct)
  case (2 c km reply replies)
  obtain p rng' where p: "run_state (random_point_biased (area_center c) (area_radius_km c)
      (resolved_hotspot_center c) km (hotspot_fraction c)) rng = (p, rng')" by fastforce
  obtain ws rng'' where ws: "run_state (burst_riders c km replies) rng' = (ws, rng'')" by fastforce
  from 2 [of rng'] p ws show ?case by (auto split: option.split body.split)
qed simp

lemma fire_burst_length:
  "fire_burst h cell_to_latlng cfg c replies rng = Inr riders \<Longrightarrow> length riders \<le> length replies"
  using burst_riders_length by (auto simp: fire_burst_def split: sum.splits if_splits)

lemma lifecycle_tick_fields [simp]:
  "tracked (lifecycle_tick now s) = tracked s" "results (lifecycle_tick now s) = results s"
  "to_schedule (lifecycle_tick now s) = to_schedule s"
  by (simp_all add: lifecycle_tick_def)

lemmas run_ok_defs = run_ok_def mover_ok_def reaper_ok_def main_ok_def

lemma run_ok_main:
  assumes "main_step h cell_to_latlng cfg c s s'" and "run_ok c s"
  shows "run_ok c s'"
  using assms
proof (induction rule: main_step.induct)
  case (fire s rng replies riders)
  then show ?case
    using fire_burst_length [OF fire(5)] by (auto simp: run_ok_defs goes_on_def next_burst_def)
qed (auto simp: run_ok_defs)

lemma run_ok_worker: "worker_step c s s' \<Longrightarrow> run_ok c s \<Longrightarrow> run_ok c s'"
  by (induction rule: worker_step.induct) (auto simp: run_ok_defs finish_request_fields)

lemma run_ok_mover: "mover_step c s s' \<Longrightarrow> run_ok c s \<Longrightarrow> run_ok c s'"
  by (induction rule: mover_step.induct) (auto simp: run_ok_defs)

lemma run_ok_reaper: "reaper_step s s' \<Longrightarrow> run_ok c s \<Longrightarrow> run_ok c s'"
  by (induction rule: reaper_step.induct) (auto simp: run_ok_defs)

lemma run_ok_step: "run_step h cell_to_latlng cfg c s s' \<Longrightarrow> run_ok c s \<Longrightarrow> run_ok c s'"
  by (auto elim!: run_step.cases intro: run_ok_main run_ok_worker run_ok_mover run_ok_reaper)

lemma run_ok_start: "run_ok c (start_live c now ds)"
  by (simp add: run_ok_defs start_live_def start_state_def)

lemma run_ok_reachable: "run_reachable h cell_to_latlng cfg c s \<Longrightarrow> run_ok c s"
proof (induction rule: run_reachable.induct)
  case (elapse s dt)
  then show ?case by (simp add: run_ok_defs)
qed (simp_all add: run_ok_start run_ok_step)

text \<open>A step of a run changes the shared state by a step of \<open>sim_step\<close>, or not at all.\<close>

lemma main_step_refines: "main_step h cell_to_latlng cfg c s s' \<Longrightarrow> shared s' = shared s"
  by (induction rule: main_step.induct) simp_all

lemma worker_step_refines: "worker_step c s s' \<Longrightarrow> sim_step c (shared s) (shared s')"
proof (induction rule: worker_step.induct)
  case (schedule s xs i ys rng)
  then show ?case using sim_step.schedule [OF schedule(1,2), of c "clock s"] by simp
qed (simp add: sim_step.request)

lemma mover_step_refines: "mover_step c s s' \<Longrightarrow> mover_ok s \<Longrightarrow> shared s' = shared s \<or> sim_step c (shared s) (shared s')"
proof (induction rule: mover_step.induct)
  case (move s xs k ys rng ok)
  then have "k < length (tracked (shared s))" by (simp add: mover_ok_def)
  then show ?case using sim_step.move [OF _ move(2)] by simp
qed simp_all

lemma reaper_step_refines: "reaper_step s s' \<Longrightarrow> reaper_ok s \<Longrightarrow> shared s' = shared s \<or> sim_step c (shared s) (shared s')"
proof (induction rule: reaper_step.induct)
  case (reaper_tick s)
  then show ?case using sim_step.tick [of "shared s" c "clock s"] by (simp add: reaper_ok_def)
next
  case (end_one s p ps)
  then show ?case using sim_step.end_one [OF end_one(2)] by simp
qed simp_all

lemma run_step_refines:
  assumes "run_step h cell_to_latlng cfg c s s'" and "run_ok c s"
  shows "shared s' = shared s \<or> sim_step c (shared s) (shared s')"
  using assms main_step_refines worker_step_refines mover_step_refines reaper_step_refines
  by (cases rule: run_step.cases) (auto simp: run_ok_def)

lemma run_refines: "run_reachable h cell_to_latlng cfg c s \<Longrightarrow> sim_reachable c (shared s)"
proof (induction rule: run_reachable.induct)
  case (start rng replies ds now)
  then show ?case by (simp add: start_live_def sim_reachable.start)
next
  case (step s s')
  then show ?case using run_step_refines [OF step(2) run_ok_reachable [OF step(1)]] sim_reachable.step by metis
qed simp

lemma run_bookkeeping:
  assumes "run_reachable h cell_to_latlng cfg c s"
  shows "bookkeeping (shared s)"
  using run_refines [OF assms]
proof (induction rule: sim_reachable.induct)
  case start
  then show ?case by (simp add: bookkeeping_def start_state_def matched_ids_def)
qed (rule bookkeeping_step)

text \<open>C33: what a run of the simulation reports is complete, under any interleaving of its threads. Each ride
  recorded as matched is in exactly one place from its recording to the call that ends it; the drivers stay
  in the area; and when \<open>run\<close> has returned, with whatever still happens in the threads it did not wait
  for, the outcomes it returned are all the outcomes recorded, one for each ride request it sent, at most
  as many as configured, and no matched ride was left without a scheduled end.\<close>

theorem simulation_report_is_complete:
  assumes "run_reachable h cell_to_latlng cfg c s"
  shows "mset (matched_ids (results (shared s))) = mset (to_schedule (shared s)
      @ map pl_ride_id (pending_rides (shared s) @ due_rides (shared s) @ ended_rides (shared s)))
    \<and> (0 \<le> area_radius_km c \<longrightarrow> fleet_in_area c (tracked (shared s)))
    \<and> (\<forall>outcomes. main_at s = Returned outcomes \<longrightarrow>
        outcomes = results (shared s) \<and> length outcomes = length (requests_sent s)
        \<and> int (length outcomes) \<le> max 0 (num_riders c) \<and> to_schedule (shared s) = [])"
  using run_ok_reachable [OF assms] run_bookkeeping [OF assms] sim_invariant [OF run_refines [OF assms]]
  by (auto simp: run_ok_def main_ok_def bookkeeping_def)

section \<open>A run ends\<close>

text \<open>How much is left to do once the stop event is set.\<close>

definition left_to_do :: "live_run \<Rightarrow> nat" where
  "left_to_do s =
     (case main_at s of Joining _ \<Rightarrow> 1 | _ \<Rightarrow> 0)
     + (case mover_at s of Moving ks \<Rightarrow> length ks + 3 | MoverWaits \<Rightarrow> 2 | MoverTest \<Rightarrow> 1 | MoverEnded \<Rightarrow> 0)
     + (case reaper_at s of Ending \<Rightarrow> length (due_rides (shared s)) + 3 | ReaperWaits \<Rightarrow> 2 | ReaperTest \<Rightarrow> 1 | ReaperEnded \<Rightarrow> 0)"

definition all_done :: "live_run \<Rightarrow> bool" where
  "all_done s \<longleftrightarrow> (main_at s = Raised \<or> (\<exists>os. main_at s = Returned os)) \<and> mover_at s = MoverEnded \<and> reaper_at s = ReaperEnded"

lemma stopped_main_decreases:
  "main_step h cell_to_latlng cfg c s s' \<Longrightarrow> run_ok c s \<Longrightarrow> stop_event s \<Longrightarrow> stop_event s' \<and> left_to_do s' < left_to_do s"
  by (induction rule: main_step.induct) (auto simp: left_to_do_def goes_on_def run_ok_def main_ok_def split: reaper_phase.split)

lemma stopped_worker_decreases:
  "worker_step c s s' \<Longrightarrow> run_ok c s \<Longrightarrow> stop_event s \<Longrightarrow> stop_event s' \<and> left_to_do s' < left_to_do s"
  by (induction rule: worker_step.induct) (auto simp: run_ok_def main_ok_def)

lemma stopped_mover_decreases:
  "mover_step c s s' \<Longrightarrow> stop_event s \<Longrightarrow> stop_event s' \<and> left_to_do s' < left_to_do s"
  by (induction rule: mover_step.induct) (auto simp: left_to_do_def split: reaper_phase.split)

lemma stopped_reaper_decreases:
  "reaper_step s s' \<Longrightarrow> stop_event s \<Longrightarrow> stop_event s' \<and> left_to_do s' < left_to_do s"
  by (induction rule: reaper_step.induct) (auto simp: left_to_do_def)

lemma stopped_step_decreases:
  "run_step h cell_to_latlng cfg c s s' \<Longrightarrow> run_ok c s \<Longrightarrow> stop_event s \<Longrightarrow> stop_event s' \<and> left_to_do s' < left_to_do s"
  using stopped_main_decreases stopped_worker_decreases stopped_mover_decreases stopped_reaper_decreases
  by (elim run_step.cases) blast+

lemma fire_burst_some:
  "\<exists>riders. fire_burst h cell_to_latlng cfg c replies rng = Inr riders
    \<or> (\<exists>e. fire_burst h cell_to_latlng cfg c replies rng = Inl e)"
  by (cases "fire_burst h cell_to_latlng cfg c replies rng") auto

lemma not_done_steps:
  assumes "run_ok c s" and "\<not> all_done s"
  shows "\<exists>s'. run_step h cell_to_latlng cfg c s s'"
proof -
  have mover: "\<exists>s'. run_step h cell_to_latlng cfg c s s'" if "mover_at s \<noteq> MoverEnded"
  proof (cases "mover_at s")
    case MoverTest
    then show ?thesis using mover_step.movement_tick mover_step.mover_ends run_step.mover by (cases "stop_event s") blast+
  next
    case (Moving ks)
    then show ?thesis
      using run_step.mover mover_step.moved mover_step.move [of s "[]" "hd ks" "tl ks", OF _ unit_draws_half] by (cases ks) fastforce+
  qed (use that mover_step.mover_wakes run_step.mover in blast)+
  have reaper: "\<exists>s'. run_step h cell_to_latlng cfg c s s'" if "reaper_at s \<noteq> ReaperEnded"
  proof (cases "reaper_at s")
    case ReaperTest
    then show ?thesis using reaper_step.reaper_tick reaper_step.reaper_ends run_step.reaper by (cases "stop_event s") blast+
  next
    case Ending
    then show ?thesis using reaper_step.all_ended reaper_step.end_one run_step.reaper by (cases "due_rides (shared s)") blast+
  qed (use that reaper_step.reaper_wakes run_step.reaper in blast)+
  have main: "\<exists>s'. run_step h cell_to_latlng cfg c s s'" if m: "main_at s \<noteq> Raised" "\<nexists>os. main_at s = Returned os"
  proof (cases "main_at s")
    case AtHead
    let ?replies = "replicate (nat (next_burst c s)) None"
    show ?thesis
    proof (cases "goes_on c s")
      case True
      with AtHead show ?thesis
        using main_step.fire [OF AtHead True unit_draws_half, of ?replies]
          main_step.fire_raises [OF AtHead True unit_draws_half, of ?replies]
          fire_burst_some [of h cell_to_latlng cfg c ?replies "sconst (1 / 2)"] run_step.main by (metis length_replicate)
    qed (use AtHead main_step.loop_ends run_step.main in blast)
  next
    case (InBurst b ws)
    show ?thesis
    proof (cases "ws = [] \<and> to_schedule (shared s) = []")
      case True
      then show ?thesis
        using InBurst main_step.burst_ends main_step.wait_raises run_step.main by (cases "tick_interval_seconds c") blast+
    next
      case False
      then consider w ws' where "ws = w # ws'" | i rest where "to_schedule (shared s) = i # rest"
        by (cases ws; cases "to_schedule (shared s)") auto
      then show ?thesis
        using InBurst run_step.worker worker_step.request [of s b "[]"] worker_step.schedule [of s "[]", OF _ unit_draws_half]
        by cases fastforce+
    qed
  qed (use m main_step.main_wakes main_step.joined run_step.main in blast)+
  show ?thesis using assms(2) mover reaper main unfolding all_done_def by blast
qed

text \<open>C34: a run of the simulation ends. In every state some thread can go on, unless \<open>run\<close> has ended and both
  background threads have; and once the stop event is set, which the main thread does by whatever way its
  loop ends, there is no infinite sequence of steps: the movement and lifecycle loops finish what they
  began and end.\<close>

theorem simulation_run_ends:
  assumes "run_reachable h cell_to_latlng cfg c s"
  shows "(all_done s \<or> (\<exists>s'. run_step h cell_to_latlng cfg c s s'))
    \<and> (stop_event s \<longrightarrow> (\<nexists>f. f 0 = s \<and> (\<forall>n. run_step h cell_to_latlng cfg c (f n) (f (Suc n)))))
    \<and> (all_done s \<longrightarrow> stop_event s)"
proof (intro conjI impI)
  have ok: "run_ok c s" by (rule run_ok_reachable [OF assms])
  then show "all_done s \<or> (\<exists>s'. run_step h cell_to_latlng cfg c s s')" using not_done_steps by blast
  show "stop_event s" if "all_done s" using ok that by (auto simp: run_ok_def main_ok_def all_done_def)
  assume stop: "stop_event s"
  show "\<nexists>f. f 0 = s \<and> (\<forall>n. run_step h cell_to_latlng cfg c (f n) (f (Suc n)))"
  proof
    assume "\<exists>f. f 0 = s \<and> (\<forall>n. run_step h cell_to_latlng cfg c (f n) (f (Suc n)))"
    then obtain f where f: "f 0 = s" "\<And>n. run_step h cell_to_latlng cfg c (f n) (f (Suc n))" by blast
    have inv: "run_ok c (f n) \<and> stop_event (f n)" for n
    proof (induction n)
      case (Suc n)
      then show ?case using run_ok_step [OF f(2)] stopped_step_decreases [OF f(2)] by blast
    qed (use f(1) ok stop in simp)
    have "(f (Suc n), f n) \<in> measure left_to_do" for n
      using stopped_step_decreases [OF f(2)] inv by simp
    then show False using wf_measure [of left_to_do] unfolding wf_iff_no_infinite_down_chain by blast
  qed
qed

section \<open>The command\<close>

text \<open>The connection pool of the client: at most so many connections, and so many kept alive.\<close>

definition http_limits :: "sim_config \<Rightarrow> int \<times> int" where
  "http_limits c = (burst_size c * 4, burst_size c * 2)"

text \<open>What \<open>main\<close> prints: the summary, and the server's statistics when they could be fetched. \<open>items\<close> is
  the JSON object of a response, with the values as \<open>str\<close> gives them.\<close>

definition main_output :: "(body \<Rightarrow> (string \<times> string) list) \<Rightarrow> sim_outcome list \<Rightarrow> body option \<Rightarrow> string list" where
  "main_output items outcomes stats =
     format_summary (summarize outcomes) #
     (case stats of
        None \<Rightarrow> []
      | Some b \<Rightarrow> ([CHR 0x0A] @ ''=== Server-side GET /stats (cross-check) ==='')
                  # map (\<lambda>(k, v). ''  '' @ k @ '': '' @ v) (items b))"

inductive sim_main ::
  "h3_lib \<Rightarrow> (string \<Rightarrow> real \<times> real) \<Rightarrow> settings \<Rightarrow> (body \<Rightarrow> (string \<times> string) list) \<Rightarrow> cli_option list \<Rightarrow> live_run
     \<Rightarrow> string list \<Rightarrow> bool"
  for h cell_to_latlng cfg items opts where
  "run_reachable h cell_to_latlng cfg (config_from_args (parse_args opts)) s \<Longrightarrow> main_at s = Returned outcomes \<Longrightarrow>
    sim_main h cell_to_latlng cfg items opts s (main_output items outcomes (client_get_stats send))"

text \<open>The printed summary counts every ride request that was sent.\<close>

lemma main_counts_all_requests:
  "sim_main h cell_to_latlng cfg items opts s lines \<Longrightarrow>
    \<exists>sm. hd lines = format_summary sm \<and> total_requests sm = length (requests_sent s)
      \<and> matched sm + unmatched sm + errors sm = length (requests_sent s)"
proof (induction rule: sim_main.induct)
  case (1 s outcomes send)
  then have "length outcomes = length (requests_sent s)"
    using run_ok_reachable [OF 1(1)] by (simp add: run_ok_def main_ok_def)
  then show ?case
    using count_outcomes_total [of outcomes]
    by (intro exI [of _ "summarize outcomes"]) (simp add: main_output_def summarize_def Let_def)
qed

section \<open>Witnesses\<close>

text \<open>A run without drivers and with one rider, whose request is answered as matched.\<close>

definition one_rider :: sim_config where
  "one_rider = default_sim_config\<lparr>num_drivers := 0, num_riders := 1, hotspot_radius_km := Some 1\<rparr>"

abbreviation demo_run :: "live_run \<Rightarrow> bool" where
  "demo_run \<equiv> run_reachable line_h3 (\<lambda>_. (0, 0)) default_settings one_rider"

lemma one_rider_run:
  "\<exists>s oc. demo_run s \<and> main_at s = Returned [oc] \<and> so_outcome oc = OMatched"
proof -
  let ?step = "run_step line_h3 (\<lambda>_. (0, 0)) default_settings one_rider"
  let ?s0 = "start_live one_rider 0 []"
  let ?rider = "BRider \<lparr>p_id = ''p1'', p_pickup_lat = 0, p_pickup_lng = 0, requested_at = 0\<rparr>"
  have fields: "burst_size one_rider = 5" "num_riders one_rider = 1" "tick_interval_seconds one_rider = Some 1"
      "duration_seconds one_rider = 60" "num_drivers one_rider = 0" "hotspot_radius_km one_rider = Some 1"
    by (simp_all add: one_rider_def default_sim_config_def tick_interval_seconds_def)
  have "\<exists>p. fire_burst line_h3 (\<lambda>_. (0, 0)) default_settings one_rider [Some ?rider] (sconst (1 / 2)) = Inr [(''p1'', p)]"
    by (simp add: fire_burst_def resolved_hotspot_radius_km_def fields split: prod.split)
  then obtain p where fire: "fire_burst line_h3 (\<lambda>_. (0, 0)) default_settings one_rider [Some ?rider] (sconst (1 / 2))
      = Inr [(''p1'', p)]" by blast
  obtain oc where oc: "worker_outcome 1 sim_matched_reply = (oc, Some ''r1'')" "so_outcome oc = OMatched"
    by (simp add: worker_outcome_def sim_matched_reply_def Let_def)
  define s1 where "s1 = ?s0\<lparr>main_at := InBurst 1 [(''p1'', p)], requests_sent := [(''p1'', p)]\<rparr>"
  define s2 where "s2 = s1\<lparr>main_at := InBurst 1 [], shared := finish_request 1 sim_matched_reply (shared s1)\<rparr>"
  define s3 where "s3 = s2\<lparr>shared := (shared s2)\<lparr>to_schedule := [],
      pending_rides := pending_rides (shared s2) @
        [fst (run_state (schedule_lifecycle one_rider (clock s2) ''r1'') (sconst (1 / 2)))]\<rparr>\<rparr>"
  define s4 where "s4 = s3\<lparr>main_at := Pausing, riders_fired := riders_fired s3 + 1\<rparr>"
  define s5 where "s5 = s4\<lparr>main_at := AtHead\<rparr>"
  define s6 where "s6 = s5\<lparr>main_at := Joining False, stop_event := True\<rparr>"
  define s7 where "s7 = s6\<lparr>main_at := Returned (results (shared s6))\<rparr>"
  note defs = start_live_def start_state_def next_burst_def goes_on_def fields
  have r0: "demo_run ?s0" by (rule run_reachable.start [OF unit_draws_half, of "[]"]) (simp_all add: fields)
  have t1: "?step ?s0 s1"
    using run_step.main [OF main_step.fire, of ?s0 one_rider, OF _ _ unit_draws_half _ fire] by (simp add: s1_def defs)
  have t2: "?step s1 s2"
    using run_step.worker [OF worker_step.request, of s1 1 "[]" "(''p1'', p)" "[]"] by (simp add: s1_def s2_def)
  have t3: "?step s2 s3"
    using run_step.worker [OF worker_step.schedule, of s2 "[]" "''r1''" "[]", OF _ unit_draws_half]
    by (simp add: s1_def s2_def s3_def finish_request_def oc defs)
  have t4: "?step s3 s4"
    using run_step.main [OF main_step.burst_ends, of s3 1, OF _ _ fields(3)] by (simp add: s2_def s3_def s4_def)
  have t5: "?step s4 s5"
    using run_step.main [OF main_step.main_wakes, of s4] by (simp add: s4_def s5_def)
  have t6: "?step s5 s6"
    using run_step.main [OF main_step.loop_ends, of s5] by (simp add: s1_def s2_def s3_def s4_def s5_def s6_def defs)
  have t7: "?step s6 s7"
    using run_step.main [OF main_step.joined, of s6 False] by (simp add: s6_def s7_def)
  note run_reachable.step [OF r0 t1, THEN run_reachable.step, OF t2, THEN run_reachable.step, OF t3,
      THEN run_reachable.step, OF t4, THEN run_reachable.step, OF t5, THEN run_reachable.step, OF t6,
      THEN run_reachable.step, OF t7]
  moreover have "main_at s7 = Returned [oc]"
    by (simp add: s7_def s6_def s5_def s4_def s3_def s2_def s1_def finish_request_def oc results_record_def defs)
  ultimately show ?thesis using oc(2) by blast
qed

theorem simulation_report_is_complete_witness:
  "\<exists>(s :: live_run) oc. main_at s = Returned [oc] \<and> length (requests_sent s) = 1
    \<and> length (pending_rides (shared s) @ due_rides (shared s) @ ended_rides (shared s)) \<le> 1"
proof -
  obtain s oc where s: "demo_run s" "main_at s = Returned [oc]" using one_rider_run by blast
  note c = simulation_report_is_complete [OF s(1)]
  then have r: "results (shared s) = [oc]" "length (requests_sent s) = 1" "to_schedule (shared s) = []"
    using s(2) by auto
  have m: "mset (matched_ids (results (shared s))) = mset (to_schedule (shared s)
      @ map pl_ride_id (pending_rides (shared s) @ due_rides (shared s) @ ended_rides (shared s)))"
    using c by blast
  have "length (matched_ids [oc]) \<le> 1"
    by (simp add: matched_ids_def List.map_filter_def)
  then show ?thesis using s(2) r mset_eq_length [OF m] by (intro exI [of _ s] exI [of _ oc]) simp
qed

theorem simulation_run_ends_witness:
  "\<exists>s oc. demo_run s \<and> main_at s = Returned [oc]
    \<and> (\<nexists>f. f 0 = s \<and> (\<forall>n. run_step line_h3 (\<lambda>_. (0, 0)) default_settings one_rider (f n) (f (Suc n))))"
proof -
  obtain s oc where s: "demo_run s" "main_at s = Returned [oc]" using one_rider_run by blast
  have "stop_event s" using run_ok_reachable [OF s(1)] s(2) by (simp add: run_ok_def main_ok_def)
  then show ?thesis using simulation_run_ends [OF s(1)] s by blast
qed

end
