(* ===== verification/LoadTest.thy ===== *)
theory LoadTest
  imports Simulation Scenario
begin

text \<open>
  The load test (load_tests/locustfile.py): the reset of the database and the seeding of the driver pool,
  run against the service, and the task each simulated user repeats. Locust, which decides when the tasks
  run and collects the timings, is not modelled.
\<close>

definition AREA_CENTER :: point where
  "AREA_CENTER = \<lparr>pt_lat = 37.7749, pt_lng = - 122.4194\<rparr>"

definition AREA_RADIUS_KM :: real where "AREA_RADIUS_KM = 2"

definition DRIVER_POOL_SIZE :: nat where "DRIVER_POOL_SIZE = 50"

section \<open>Reset and seeding\<close>

text \<open>TRUNCATE waits for the transactions that have written to the tables; then it removes every row.\<close>

definition truncate_tables :: "world \<Rightarrow> world option" where
  "truncate_tables w =
     (if pending (w_rides w) = [] \<and> pending (w_drivers w) = [] \<and> pending (w_riders w) = []
      then Some (w\<lparr>w_rides := empty_table, w_drivers := empty_table, w_riders := empty_table\<rparr>) else None)"

text \<open>The requests of the loop, one point drawn for each.\<close>

definition seed_requests :: "nat \<Rightarrow> (random, request list) state" where
  "seed_requests n =
     do {
       points \<leftarrow> generate_points AREA_CENTER AREA_RADIUS_KM n;
       State_Monad.return (map (\<lambda>p. PostDriver (pt_lat p) (pt_lng p)) points) }"

text \<open>Nothing is done with the responses; \<open>choices\<close> resolves the dependencies of the service in each
  request. None: a statement waits.\<close>

definition reset_and_seed_drivers ::
  "h3_lib \<Rightarrow> settings \<Rightarrow> (request \<Rightarrow> string) \<Rightarrow> choice list list \<Rightarrow> random \<Rightarrow> world \<Rightarrow> (http list \<times> world) option" where
  "reset_and_seed_drivers h cfg vtext choices rng w =
     (case truncate_tables w of
        None \<Rightarrow> None
      | Some w' \<Rightarrow> run_requests h cfg vtext (zip (fst (run_state (seed_requests DRIVER_POOL_SIZE) rng)) choices) w')"

section \<open>The task of a user\<close>

text \<open>\<open>send\<close> answers a request, None when the exchange failed, which Locust reports as status 0. The
  result: the requests sent.\<close>

definition request_ride_task :: "http_client \<Rightarrow> (random, request list) state" where
  "request_ride_task send =
     do {
       point \<leftarrow> random_point_in_radius AREA_CENTER AREA_RADIUS_KM;
       let rider = PostRider (pt_lat point) (pt_lng point)
       in State_Monad.return
         (case send rider of
            Some (Response status (BRider r)) \<Rightarrow>
              if status = 201 then [rider, PostRide (p_id r) (pt_lat point) (pt_lng point) None] else [rider]
          | _ \<Rightarrow> [rider]) }"

section \<open>The area\<close>

lemma area_is_valid:
  assumes "flat_km AREA_CENTER p \<le> AREA_RADIUS_KM"
  shows "valid_point (pt_lat p) (pt_lng p)"
proof -
  have km: "sqrt (east_km AREA_CENTER p ^ 2 + north_km AREA_CENTER p ^ 2) \<le> 2"
    using assms by (simp add: flat_km_def AREA_RADIUS_KM_def)
  have north: "\<bar>north_km AREA_CENTER p\<bar> \<le> 2" and east: "\<bar>east_km AREA_CENTER p\<bar> \<le> 2"
    using km real_sqrt_ge_abs1 [of "east_km AREA_CENTER p" "north_km AREA_CENTER p"]
      real_sqrt_ge_abs2 [of "north_km AREA_CENTER p" "east_km AREA_CENTER p"] by linarith+
  have "cos (pi / 3) \<le> cos (radians 37.7749)"
    by (rule cos_monotone_0_pi_le) (auto simp: radians_def field_simps)
  then have cos: "1 / 2 \<le> cos (radians 37.7749)" by (simp add: cos_60)
  let ?d = "pt_lng p - pt_lng AREA_CENTER"
  have "\<bar>?d\<bar> * (55 :: real) \<le> \<bar>?d\<bar> * (KM_PER_DEGREE_LAT * cos (radians 37.7749))"
    using cos by (intro mult_left_mono) (simp_all add: KM_PER_DEGREE_LAT_def)
  also have "\<dots> = \<bar>east_km AREA_CENTER p\<bar>"
    using cos by (simp add: east_km_def km_per_degree_lng_def AREA_CENTER_def abs_mult KM_PER_DEGREE_LAT_def)
  finally have "\<bar>?d\<bar> * 55 \<le> 2" using east by linarith
  then have lng: "\<bar>?d\<bar> \<le> 1" by simp
  define x where "x = pt_lat p - pt_lat AREA_CENTER"
  have "\<bar>x * 111.32\<bar> \<le> 2" using north by (simp add: north_km_def KM_PER_DEGREE_LAT_def x_def)
  then have "x \<le> 1" "- x \<le> 1" by (simp_all add: abs_le_iff)
  with lng show ?thesis by (auto simp: valid_point_def AREA_CENTER_def abs_le_iff x_def)
qed

section \<open>One driver is posted\<close>

text \<open>Nobody is in a transaction, and the session of the next request is new.\<close>

definition at_rest :: "world \<Rightarrow> bool" where
  "at_rest w \<longleftrightarrow> pending (w_rides w) = [] \<and> pending (w_drivers w) = [] \<and> pending (w_riders w) = []
     \<and> w_sessions w 0 = fresh_session"

lemma run_thread_CallE:
  assumes "run_thread t chs (Call c k) w = Some (x, w')"
  obtains ch chs' r w1 where "chs = ch # chs'" "exec t ch c w = Some (r, w1)" "run_thread t chs' (k r) w1 = Some (x, w')"
  using assms by (cases chs) (auto split: option.splits)

lemma rest_tables:
  assumes "pending T = []"
  shows "rollback_table t T = T" "view t T = lookup T" "lookup (commit_table t T) = lookup T" "pending (commit_table t T) = []"
    "rollback_table t (put t i x T) = T" "pending (commit_table t (put t i x T)) = []"
    "lookup (commit_table t (put t i x T)) = (lookup T)(i \<mapsto> x)"
proof -
  show v: "view t T = lookup T" using assms by (auto simp: view_def outcome_of_def)
  show "lookup (commit_table t T) = lookup T" "lookup (commit_table t (put t i x T)) = (lookup T)(i \<mapsto> x)"
    by (simp_all add: fun_eq_iff v)
qed (use assms in \<open>simp_all add: rollback_table_def drop_pending_def row_lock_def commit_table_def put_def\<close>)

definition same_rides_riders :: "world \<Rightarrow> world \<Rightarrow> bool" where
  "same_rides_riders w w' \<longleftrightarrow> lookup (w_rides w') = lookup (w_rides w) \<and> lookup (w_riders w') = lookup (w_riders w)"

text \<open>What is left of a request to create a driver once its session is closed: a new available driver at
  the point, or nothing, and nothing only when the response is not a success.\<close>

definition driver_posted :: "real \<Rightarrow> real \<Rightarrow> world \<Rightarrow> http \<Rightarrow> world \<Rightarrow> bool" where
  "driver_posted lat lng w resp w' \<longleftrightarrow> at_rest w' \<and> same_rides_riders w w' \<and>
     ((\<exists>i d. lookup (w_drivers w') = (lookup (w_drivers w))(i \<mapsto> d) \<and> i \<notin> dom (lookup (w_drivers w))
         \<and> d_status d = AVAILABLE \<and> current_lat d = lat \<and> current_lng d = lng)
      \<or> (lookup (w_drivers w') = lookup (w_drivers w) \<and> (\<forall>b. resp \<noteq> Response 201 b)))"

lemmas rest_defs = at_rest_def same_rides_riders_def rollback_world_def fail_world_def commit_world_def session_upd_def

text \<open>The three statements of the request.\<close>

definition inserted :: "driver \<Rightarrow> world \<Rightarrow> world" where
  "inserted d w = session_upd 0 (see_driver d) (w\<lparr>w_drivers := put 0 (d_id d) d (w_drivers w)\<rparr>)"

lemma insert_at_rest:
  assumes "exec 0 ch (InsertDriver lat lng hx z AVAILABLE) w = Some (r, wa)" and "at_rest w"
  shows "(r = RExn OtherSQLAlchemyError \<and> wa = fail_world 0 w)
    \<or> (\<exists>d. r = RDriver (Some d) \<and> wa = inserted d w \<and> d_id d \<notin> dom (lookup (w_drivers w))
         \<and> d_status d = AVAILABLE \<and> current_lat d = lat \<and> current_lng d = lng)"
  using assms not_row_id [of "ch_id ch" "w_drivers w"]
  by (auto simp: exec_def at_rest_def fresh_session_def flush_then_def flush_world_def insert_driver_def inserted_def
      session_upd_def Let_def dom_def split: option.splits if_splits)

lemma commit_inserted:
  assumes "exec 0 ch Commit (inserted d w) = Some (r, wb)" and "at_rest w"
  shows "(r = RUnit \<and> wb = commit_world 0 (inserted d w))
    \<or> (r = RExn OtherSQLAlchemyError \<and> wb \<in> {fail_world 0 (inserted d w), fail_world 0 (commit_world 0 (inserted d w))})"
proof -
  have "flush_world 0 (inserted d w) = Flushed (inserted d w)" "\<not> broken (w_sessions (inserted d w) 0)"
    using assms(2) by (simp_all add: flush_world_def inserted_def at_rest_def fresh_session_def session_upd_def see_driver_def)
  then show ?thesis
    using assms(1) by (auto simp: exec_def flush_then_def split: option.splits if_splits)
qed

lemma closed_worlds:
  assumes "at_rest w"
  shows "rollback_world 0 (fail_world 0 w) = w" "rollback_world 0 (fail_world 0 (inserted d w)) = w"
    "at_rest (commit_world 0 (inserted d w))"
    "same_rides_riders w (commit_world 0 (inserted d w))"
    "lookup (w_drivers (commit_world 0 (inserted d w))) = (lookup (w_drivers w))(d_id d \<mapsto> d)"
  using assms
  by (simp_all add: rest_defs rest_tables inserted_def fun_upd_idem flip: fun_eq_iff)

lemma refresh_closed:
  assumes "exec 0 ch (RefreshDriver i) w = Some (r, wc)" and "at_rest w"
  shows "rollback_world 0 wc = w"
proof -
  have s: "rollback_world 0 (session_upd 0 f w) = w" for f
    using assms(2) by (simp add: rest_defs rest_tables fun_upd_idem)
  have "\<not> broken (w_sessions w 0)" using assms(2) by (simp add: at_rest_def fresh_session_def)
  moreover have "rollback_world 0 w = w"
    using assms(2) by (simp add: rest_defs rest_tables fun_upd_idem)
  ultimately show ?thesis
    using assms s closed_worlds(1) [OF assms(2)]
    by (auto simp: exec_def load_driver_row_def split: option.splits if_splits)
qed

text \<open>What the handler does after a statement that was answered.\<close>

abbreviation answer :: "(reply \<Rightarrow> 'a option) \<Rightarrow> reply \<Rightarrow> 'a prog" where
  "answer proj r \<equiv> (case r of RExn e \<Rightarrow> Raise e
     | _ \<Rightarrow> (case proj r of Some x \<Rightarrow> Return x | None \<Rightarrow> Raise (ValueError ''ill-typed reply'')))"

text \<open>The handler from its last statement on, and from its second one on.\<close>

lemma run_refresh:
  assumes "run_thread 0 chs (respond 201 BDriver (refresh_driver i)) w = Some (resp, w1)" and "at_rest w"
  shows "rollback_world 0 w1 = w"
proof -
  have "respond 201 BDriver (refresh_driver i) =
      Call (RefreshDriver i) (\<lambda>r. respond 201 BDriver (must_exist (answer un_driver r)))"
    by (simp add: respond_def must_exist_def ask_def)
  with assms(1) obtain ch chs' r wc where e: "exec 0 ch (RefreshDriver i) w = Some (r, wc)"
    and run: "run_thread 0 chs' (respond 201 BDriver (must_exist (answer un_driver r))) wc = Some (resp, w1)"
    by (auto elim: run_thread_CallE)
  have "w1 = wc"
    using run by (auto simp: respond_def must_exist_def split: reply.splits option.splits)
  then show ?thesis using refresh_closed [OF e assms(2)] by simp
qed

lemma run_commit:
  assumes "run_thread 0 chs (respond 201 BDriver (pbind db_commit (\<lambda>_. refresh_driver (d_id d)))) (inserted d w) = Some (resp, w1)"
    and "at_rest w"
  shows "rollback_world 0 w1 = commit_world 0 (inserted d w)
    \<or> (rollback_world 0 w1 = w \<and> resp = handle_exception OtherSQLAlchemyError)"
proof -
  have "respond 201 BDriver (pbind db_commit (\<lambda>_. refresh_driver (d_id d))) =
      Call Commit (\<lambda>r. respond 201 BDriver (pbind (answer un_unit r) (\<lambda>_. refresh_driver (d_id d))))"
    by (simp add: respond_def must_exist_def ask_def)
  with assms(1) obtain ch chs' r wb where e: "exec 0 ch Commit (inserted d w) = Some (r, wb)"
    and run: "run_thread 0 chs' (respond 201 BDriver (pbind (answer un_unit r) (\<lambda>_. refresh_driver (d_id d)))) wb = Some (resp, w1)"
    by (auto elim: run_thread_CallE)
  note closed = closed_worlds(2,3) [OF assms(2), of d]
  from commit_inserted [OF e assms(2)] show ?thesis
  proof (elim disjE conjE)
    assume "r = RUnit" "wb = commit_world 0 (inserted d w)"
    then show ?thesis using run_refresh [OF _ closed(2)] run by (simp add: respond_def)
  next
    assume r: "r = RExn OtherSQLAlchemyError"
      and wb: "wb \<in> {fail_world 0 (inserted d w), fail_world 0 (commit_world 0 (inserted d w))}"
    have "resp = handle_exception OtherSQLAlchemyError" "w1 = wb" using run r by (simp_all add: respond_def)
    then show ?thesis using wb closed(1) closed_worlds(1) [OF closed(2)] by auto
  qed
qed

lemma post_driver_run:
  assumes run: "run_thread 0 chs (endpoint h cfg (PostDriver lat lng)) w = Some (resp, w1)" and rest: "at_rest w"
  shows "driver_posted lat lng w resp (rollback_world 0 w1)"
proof -
  let ?failed = "handle_exception OtherSQLAlchemyError"
  define hx z where "hx = latlng_to_h3 h lat lng (h3_resolution cfg)" and "z = zone_id_for_point h lat lng (surge_zone_resolution cfg)"
  have "endpoint h cfg (PostDriver lat lng) = Call (InsertDriver lat lng hx z AVAILABLE)
      (\<lambda>r. respond 201 BDriver (pbind (must_exist (answer un_driver r)) (\<lambda>d. pbind db_commit (\<lambda>_. refresh_driver (d_id d)))))"
    by (simp add: create_driver_def driver_create_def respond_def must_exist_def ask_def Let_def hx_def z_def)
  with run obtain ch chs' r wa where e: "exec 0 ch (InsertDriver lat lng hx z AVAILABLE) w = Some (r, wa)"
    and run': "run_thread 0 chs' (respond 201 BDriver (pbind (must_exist (answer un_driver r))
      (\<lambda>d. pbind db_commit (\<lambda>_. refresh_driver (d_id d))))) wa = Some (resp, w1)"
    by (auto elim: run_thread_CallE)
  have unchanged: "driver_posted lat lng w ?failed w"
    using rest by (simp add: driver_posted_def same_rides_riders_def error_response_def)
  from insert_at_rest [OF e rest] show ?thesis
  proof (elim disjE exE conjE)
    assume r: "r = RExn OtherSQLAlchemyError" "wa = fail_world 0 w"
    then have "resp = ?failed" "w1 = wa" using run' by (simp_all add: respond_def must_exist_def)
    then show ?thesis using unchanged closed_worlds(1) [OF rest] r(2) by metis
  next
    fix d assume d: "r = RDriver (Some d)" "wa = inserted d w" "d_id d \<notin> dom (lookup (w_drivers w))"
      "d_status d = AVAILABLE" "current_lat d = lat" "current_lng d = lng"
    then have "driver_posted lat lng w resp (commit_world 0 (inserted d w))"
      using closed_worlds(3-5) [OF rest, of d] unfolding driver_posted_def by blast
    moreover have "run_thread 0 chs' (respond 201 BDriver (pbind db_commit (\<lambda>_. refresh_driver (d_id d)))) (inserted d w)
        = Some (resp, w1)"
      using run' d(1,2) by (simp add: must_exist_def)
    ultimately show ?thesis using run_commit [OF _ rest] unchanged by metis
  qed
qed

section \<open>The pool\<close>

abbreviation post_driver :: "point \<Rightarrow> request" where
  "post_driver p \<equiv> PostDriver (pt_lat p) (pt_lng p)"

abbreviation position :: "driver \<Rightarrow> point" where
  "position d \<equiv> \<lparr>pt_lat = current_lat d, pt_lng = current_lng d\<rparr>"

definition created :: "http list \<Rightarrow> nat" where
  "created resps = length (filter (\<lambda>resp. case resp of Response status _ \<Rightarrow> status = 201 | _ \<Rightarrow> False) resps)"

text \<open>The drivers of a world: those of another one, and available ones at given points.\<close>

definition pool_grows :: "world \<Rightarrow> point list \<Rightarrow> http list \<Rightarrow> world \<Rightarrow> bool" where
  "pool_grows w points resps w' \<longleftrightarrow> at_rest w' \<and> same_rides_riders w w'
     \<and> card (dom (lookup (w_drivers w'))) \<le> card (dom (lookup (w_drivers w))) + length points
     \<and> card (dom (lookup (w_drivers w))) + created resps \<le> card (dom (lookup (w_drivers w')))
     \<and> (\<forall>d \<in> ran (lookup (w_drivers w')). d \<in> ran (lookup (w_drivers w)) \<or> (d_status d = AVAILABLE \<and> position d \<in> set points))"

lemma pool_grows_one:
  assumes "driver_posted (pt_lat p) (pt_lng p) w resp w'"
  shows "pool_grows w [p] [resp] w'"
proof -
  have fin: "finite (dom (lookup (w_drivers w)))" by (rule finite_dom_map_of)
  from assms show ?thesis
    unfolding driver_posted_def pool_grows_def created_def
    by (auto simp: fin ran_map_upd card_insert_if domIff split: http.splits)
qed

lemma pool_grows_trans:
  assumes "pool_grows w ps rs w1" and "pool_grows w1 qs ss w2"
  shows "pool_grows w (ps @ qs) (rs @ ss) w2"
  using assms unfolding pool_grows_def created_def same_rides_riders_def by fastforce

lemma seed_run:
  assumes "run_requests h cfg vtext (zip (map post_driver points) choices) w = Some (resps, w')" and "at_rest w"
    and "\<forall>p \<in> set points. valid_point (pt_lat p) (pt_lng p)"
  shows "pool_grows w points resps w'"
  using assms
proof (induction points arbitrary: choices w resps)
  case Nil
  then show ?case by (simp add: pool_grows_def same_rides_riders_def created_def)
next
  case (Cons p points)
  show ?case
  proof (cases choices)
    case Nil
    then show ?thesis using Cons.prems by (auto simp: pool_grows_def same_rides_riders_def created_def)
  next
    case (Cons chs chss)
    note prems = Cons.prems Cons
    from prems obtain resp w1 rest where
        r: "run_thread 0 chs (serve h cfg vtext (post_driver p)) w = Some (resp, w1)"
        "run_requests h cfg vtext (zip (map post_driver points) chss) (rollback_world 0 w1) = Some (rest, w')"
        "resps = resp # rest"
      by (auto split: option.splits prod.splits)
    from r(1) have "run_thread 0 chs (endpoint h cfg (post_driver p)) w = Some (resp, w1)"
      using prems by (simp add: serve_def del: endpoint.simps)
    from pool_grows_one [OF post_driver_run [OF this prems(2)]]
    have one: "pool_grows w [p] [resp] (rollback_world 0 w1)" .
    then have "at_rest (rollback_world 0 w1)" by (simp add: pool_grows_def)
    from Cons.IH [OF r(2) this] prems(3) have "pool_grows (rollback_world 0 w1) points rest w'" by simp
    from pool_grows_trans [OF one this] show ?thesis using r(3) by simp
  qed
qed

lemma run_seed_requests:
  "fst (run_state (seed_requests n) rng) = map post_driver (fst (run_state (generate_points AREA_CENTER AREA_RADIUS_KM n) rng))"
  by (simp add: seed_requests_def case_prod_unfold)

text \<open>C37: every tier of the load test starts from the same baseline. Whatever the database held and
  whatever fails while the drivers are posted, after the reset and the seeding there are no rides and no
  riders, every driver is available and within the area, there are at most as many as the pool size, and
  at least as many as the service has acknowledged.\<close>

theorem load_test_baseline:
  assumes "reset_and_seed_drivers h cfg vtext choices rng w = Some (resps, w')"
    and "unit_draws rng" and "w_sessions w 0 = fresh_session"
  shows "lookup (w_rides w') = Map.empty \<and> lookup (w_riders w') = Map.empty
    \<and> (\<forall>d \<in> ran (lookup (w_drivers w')). d_status d = AVAILABLE \<and> flat_km AREA_CENTER (position d) \<le> AREA_RADIUS_KM)
    \<and> created resps \<le> card (dom (lookup (w_drivers w'))) \<and> card (dom (lookup (w_drivers w'))) \<le> DRIVER_POOL_SIZE"
proof -
  define points where "points = fst (run_state (generate_points AREA_CENTER AREA_RADIUS_KM DRIVER_POOL_SIZE) rng)"
  have area: "length points = DRIVER_POOL_SIZE" "\<forall>p \<in> set points. flat_km AREA_CENTER p \<le> AREA_RADIUS_KM"
    using generate_points_in_area [OF assms(2), of AREA_RADIUS_KM AREA_CENTER DRIVER_POOL_SIZE]
    by (simp_all add: points_def AREA_RADIUS_KM_def)
  let ?w0 = "w\<lparr>w_rides := empty_table, w_drivers := empty_table, w_riders := empty_table\<rparr>"
  have run: "run_requests h cfg vtext (zip (map post_driver points) choices) ?w0 = Some (resps, w')"
    using assms(1) by (simp add: reset_and_seed_drivers_def truncate_tables_def run_seed_requests points_def split: if_splits)
  have "at_rest ?w0" using assms(3) by (simp add: at_rest_def empty_table_def)
  from seed_run [OF run this] area(2) area_is_valid have "pool_grows ?w0 points resps w'" by blast
  then show ?thesis using area by (auto simp: pool_grows_def same_rides_riders_def)
qed

text \<open>The requests of the load test are valid, so that none is refused by validation; a ride is
  requested only for the rider just created, at the same point, and without an idempotency key.\<close>

theorem load_task_requests_are_valid:
  assumes "unit_draws rng"
  shows "list_all valid_request (fst (run_state (request_ride_task send) rng))
    \<and> (\<exists>p :: point. fst (run_state (request_ride_task send) rng) = [PostRider (pt_lat p) (pt_lng p)]
        \<or> (\<exists>r. send (PostRider (pt_lat p) (pt_lng p)) = Some (Response 201 (BRider r))
              \<and> fst (run_state (request_ride_task send) rng) =
                  [PostRider (pt_lat p) (pt_lng p), PostRide (p_id r) (pt_lat p) (pt_lng p) None]))"
proof -
  obtain p rng' where p: "run_state (random_point_in_radius AREA_CENTER AREA_RADIUS_KM) rng = (p, rng')" by fastforce
  have "flat_km AREA_CENTER p \<le> AREA_RADIUS_KM"
    using random_point_in_area(1) [OF assms, of AREA_RADIUS_KM AREA_CENTER] p by (simp add: AREA_RADIUS_KM_def)
  then have valid: "valid_point (pt_lat p) (pt_lng p)" by (rule area_is_valid)
  let ?rider = "PostRider (pt_lat p) (pt_lng p)"
  have sent: "fst (run_state (request_ride_task send) rng) = [?rider]
    \<or> (\<exists>r. send ?rider = Some (Response 201 (BRider r))
          \<and> fst (run_state (request_ride_task send) rng) = [?rider, PostRide (p_id r) (pt_lat p) (pt_lng p) None])"
    by (simp add: request_ride_task_def p Let_def split: option.split http.split body.split)
  with valid have "list_all valid_request (fst (run_state (request_ride_task send) rng))" by auto
  moreover have "\<exists>p :: point. fst (run_state (request_ride_task send) rng) = [PostRider (pt_lat p) (pt_lng p)]
      \<or> (\<exists>r. send (PostRider (pt_lat p) (pt_lng p)) = Some (Response 201 (BRider r))
          \<and> fst (run_state (request_ride_task send) rng) =
              [PostRider (pt_lat p) (pt_lng p), PostRide (p_id r) (pt_lat p) (pt_lng p) None])"
    by (rule exI [of _ p], rule sent)
  ultimately show ?thesis ..
qed

section \<open>Witnesses\<close>

text \<open>When nothing fails, the request succeeds.\<close>

lemma post_driver_smooth:
  assumes "at_rest w" and "i \<notin> set (row_ids (w_drivers w))" and "valid_point lat lng"
  shows "\<exists>d w1. run_thread 0 (replicate 3 (smooth i)) (serve h cfg vtext (PostDriver lat lng)) w = Some (Response 201 (BDriver d), w1)
    \<and> lookup (w_drivers (rollback_world 0 w1)) = (lookup (w_drivers w))(i \<mapsto> d) \<and> at_rest (rollback_world 0 w1)"
proof -
  let ?d = "\<lparr>d_id = i, current_lat = lat, current_lng = lng, d_h3_index = latlng_to_h3 h lat lng (h3_resolution cfg),
    d_zone_id = zone_id_for_point h lat lng (surge_zone_resolution cfg), d_status = AVAILABLE, last_updated_at = now_seconds w\<rparr>"
  let ?w2 = "commit_world 0 (inserted ?d w)"
  have "w_sessions w 0 = fresh_session" using assms(1) by (simp add: at_rest_def)
  then have i: "exec 0 (smooth i) (InsertDriver lat lng (d_h3_index ?d) (d_zone_id ?d) AVAILABLE) w = Some (RDriver (Some ?d), inserted ?d w)"
    using assms(2) by (simp add: exec_def smooth_def flush_then_def flush_world_def insert_driver_def inserted_def fresh_session_def Let_def session_upd_def)
  have "flush_world 0 (inserted ?d w) = Flushed (inserted ?d w)" "\<not> broken (w_sessions (inserted ?d w) 0)"
    using assms(1) by (simp_all add: flush_world_def inserted_def at_rest_def fresh_session_def session_upd_def see_driver_def)
  then have c: "exec 0 (smooth i) Commit (inserted ?d w) = Some (RUnit, ?w2)"
    by (simp add: exec_def smooth_def flush_then_def)
  note closed = closed_worlds(3-5) [OF assms(1), of ?d]
  have "view 0 (w_drivers ?w2) i = Some ?d"
    using closed(1,3) rest_tables(2) [of "w_drivers ?w2" 0] by (simp add: at_rest_def)
  then have "\<exists>w1. exec 0 (smooth i) (RefreshDriver i) ?w2 = Some (RDriver (Some ?d), w1)"
    using closed(1) by (simp add: exec_def smooth_def load_driver_row_def at_rest_def fresh_session_def)
  then obtain w1 where r: "exec 0 (smooth i) (RefreshDriver i) ?w2 = Some (RDriver (Some ?d), w1)" by blast
  have "run_thread 0 (replicate 3 (smooth i)) (serve h cfg vtext (PostDriver lat lng)) w = Some (Response 201 (BDriver ?d), w1)"
    using i c r assms(3)
    by (simp add: serve_def create_driver_def driver_create_def respond_def must_exist_def ask_def Let_def replicate_numeral)
  moreover have e: "rollback_world 0 w1 = ?w2" by (rule refresh_closed [OF r closed(1)])
  moreover have "lookup (w_drivers (rollback_world 0 w1)) = (lookup (w_drivers w))(i \<mapsto> ?d)"
    unfolding e using closed(3) by simp
  moreover have "at_rest (rollback_world 0 w1)" unfolding e by (rule closed(1))
  ultimately show ?thesis by blast
qed

lemma seed_smooth:
  assumes "at_rest w" and "distinct ids" and "set ids \<inter> dom (lookup (w_drivers w)) = {}"
    and "\<forall>p \<in> set points. valid_point (pt_lat p) (pt_lng p)" and "length ids = length points"
  shows "\<exists>resps w'. run_requests h cfg vtext (zip (map post_driver points) (map (\<lambda>i. replicate 3 (smooth i)) ids)) w
      = Some (resps, w') \<and> created resps = length points"
  using assms
proof (induction points arbitrary: ids w)
  case Nil
  then show ?case by (simp add: created_def)
next
  case (Cons p points)
  then obtain i rest where ids: "ids = i # rest" by (cases ids) auto
  have "i \<notin> set (row_ids (w_drivers w))"
    using Cons.prems(1,3) ids by (auto simp: row_ids_def at_rest_def dom_map_of_conv_image_fst)
  from post_driver_smooth [OF Cons.prems(1) this, of "pt_lat p" "pt_lng p" h cfg vtext]
  obtain d w1 where one: "run_thread 0 (replicate 3 (smooth i)) (serve h cfg vtext (post_driver p)) w = Some (Response 201 (BDriver d), w1)"
      "lookup (w_drivers (rollback_world 0 w1)) = (lookup (w_drivers w))(i \<mapsto> d)" "at_rest (rollback_world 0 w1)"
    using Cons.prems(4) by auto
  have "set rest \<inter> dom (lookup (w_drivers (rollback_world 0 w1))) = {}"
    using Cons.prems(2,3) ids one(2) by auto
  from Cons.IH [OF one(3) _ this] Cons.prems(2,4,5) ids
  obtain resps w' where "run_requests h cfg vtext (zip (map post_driver points) (map (\<lambda>i. replicate 3 (smooth i)) rest))
      (rollback_world 0 w1) = Some (resps, w')" "created resps = length points" by auto
  then show ?case using one(1) ids by (simp add: created_def)
qed

theorem load_test_baseline_witness:
  "\<exists>choices w'. card (dom (lookup (w_drivers w'))) = DRIVER_POOL_SIZE \<and> lookup (w_rides w') = Map.empty
    \<and> (\<exists>resps. reset_and_seed_drivers point_h3 default_settings (\<lambda>_. []) choices (sconst (1 / 2)) matched_world = Some (resps, w'))"
proof -
  let ?ids = "map (\<lambda>n. replicate n CHR ''x'') [0..<DRIVER_POOL_SIZE]"
  let ?points = "fst (run_state (generate_points AREA_CENTER AREA_RADIUS_KM DRIVER_POOL_SIZE) (sconst (1 / 2)))"
  let ?choices = "map (\<lambda>i. replicate 3 (smooth i)) ?ids"
  let ?w = "matched_world\<lparr>w_rides := empty_table, w_drivers := empty_table, w_riders := empty_table\<rparr>"
  have ids: "distinct ?ids" by (auto simp: distinct_map inj_on_def)
  have rest: "at_rest ?w" "truncate_tables matched_world = Some ?w" "w_sessions matched_world 0 = fresh_session"
    by (simp_all add: at_rest_def truncate_tables_def matched_world_def init_world_def empty_table_def)
  have points: "length ?points = DRIVER_POOL_SIZE" "\<forall>p \<in> set ?points. valid_point (pt_lat p) (pt_lng p)"
    using generate_points_in_area [OF unit_draws_half, of AREA_RADIUS_KM AREA_CENTER DRIVER_POOL_SIZE] area_is_valid
    by (auto simp: AREA_RADIUS_KM_def)
  from seed_smooth [OF rest(1) ids _ points(2), of point_h3 default_settings "\<lambda>_. []"] points(1)
  obtain resps w' where run: "run_requests point_h3 default_settings (\<lambda>_. []) (zip (map post_driver ?points) ?choices) ?w = Some (resps, w')"
      "created resps = DRIVER_POOL_SIZE" by auto
  then have "reset_and_seed_drivers point_h3 default_settings (\<lambda>_. []) ?choices (sconst (1 / 2)) matched_world = Some (resps, w')"
    using rest(2) by (simp add: reset_and_seed_drivers_def run_seed_requests)
  moreover from load_test_baseline [OF this unit_draws_half rest(3)] run(2)
  have "card (dom (lookup (w_drivers w'))) = DRIVER_POOL_SIZE" "lookup (w_rides w') = Map.empty" by auto
  ultimately show ?thesis by blast
qed

theorem load_task_requests_are_valid_witness:
  "list_all valid_request (fst (run_state (request_ride_task (\<lambda>_. Some (Response 201 (BRider rider_p1)))) (sconst (1 / 2))))"
  using load_task_requests_are_valid [OF unit_draws_half] by blast

end
