(* ===== verification/Spec2Isabelle.thy ===== *)
theory Spec2Isabelle
  imports MatchingProps SimServer SearchProps Migrations ReadModel LoneRequests Orchestration LoadTest
begin

text \<open>
  \<^bold>\<open>A verification library of the real-time ride-matching engine\<close>

  The program under src/app is an HTTP service (FastAPI, SQLAlchemy on PostgreSQL, Redis). A rider posts a
  ride; the service prices it by the surge of its zone, stores it as REQUESTED, searches H3 rings around
  the pickup for available drivers, tries them nearest first under a Redis lock per driver, and commits
  the first that can be had: the driver becomes BUSY and the ride MATCHED in one transaction. Cancelling
  and completing a ride free its driver. The service publishes events to a WebSocket dashboard and keeps
  metrics in process. Beside it are the schema migrations (src/migrations), a load-generating simulation
  client (src/app/simulation) and a load test (src/load_tests).

  \<^bold>\<open>How the code is modelled.\<close>
  A handler is a \<^emph>\<open>program\<close> (theory Prog): a tree of calls to what is outside the Python code (session
  methods, Redis commands, clocks, UUIDs) or shared by threads (metrics, event bus), branching on the
  reply; an exception is a reply or the end of a program, and \<open>handle\<close> is Python's sequencing,
  \<open>try/except/else\<close> and \<open>try/finally\<close>. A property of a handler is stated over every trace of its program,
  that is over every sequence of replies, or over the traces whose replies are \<open>plausible\<close> (Protocol: a
  query returns rows that satisfy its predicate, a row read by key has that key), or over the runs of
  many programs on the platform model. Floats are reals, UUIDs are strings, times are reals; a dict or an
  identity map is an association list.

  \<^bold>\<open>The theories and the code.\<close>
  \<^item> Prelude: shared types, hint collections, generic lemmas. Config: app/config.py. Models: app/models
    (rows, statuses, the two uniqueness keys of rides). Errors: the exceptions.
  \<^item> Windows, Percentiles, Metrics: app/observability/metrics.py, percentiles.py, db_metrics.py. The locale
    \<open>bounded_window\<close> is the contract of a rolling window; both trackers interpret it.
  \<^item> EventBus: app/observability/events.py, api/websocket.py and the lifespan hook of main.py, as steps
    that interleave (\<open>bus_step\<close>).
  \<^item> Prog, Repositories: calls and programs; every method of app/storage/repositories, \<open>session_scope\<close>.
  \<^item> Geo, CandidateSearch: app/matching/geo.py, ranking.py, candidate_search.py, pricing/zones.py. The h3
    package is the parameter \<open>h3_lib\<close>; \<open>h3_documented\<close> is what its documentation says of disks.
  \<^item> Lock: app/redis/lock.py with the two Redis commands it uses on an expiring keyspace; the locale
    \<open>expiring_lock\<close> is their contract, interpreted on that keyspace.
  \<^item> Matcher, Surge, RideService, Api: app/matching/matcher.py, pricing/surge.py, services/ride_service.py,
    app/api and the exception handlers of main.py. \<open>serve\<close> is one HTTP request.
  \<^item> Protocol: the discipline of session calls that every handler obeys, as an automaton (a transaction is
    either a driver's claim with its ride's match, the end of a ride with its driver's release, the
    insertion of a row, or a location update).
  \<^item> Table, Platform: what the database, the session and Redis are documented to do. The locale
    \<open>unique_index\<close> is the contract of a unique index, interpreted for both keys of rides. Fleet is the
    abstract specification of the committed data; Isolation and Transactions show that a call of one session
    leaves the others alone and that only a commit changes the data, in one of the ways of Fleet;
    Concurrency is the running service (\<open>step\<close>, \<open>reachable\<close>) with its invariants; its locale \<open>thread_fact\<close> is
    what a fact about one request owes the service to hold of every request in every reachable state, and is
    interpreted in Progress, Acknowledged, Service and ReadModel. Scenario runs the service on concrete
    requests, which the witnesses use.
  \<^item> Replies, Progress, Acknowledged, Service, ReadModel: theorems about the running service that combine the two
    views. Replies: the platform answers as the contracts of the handlers assume. Progress: who waits for
    whom, and why never in a circle. Acknowledged: what a session has read from a clean transaction is
    committed. Service: the exchange of a request in flight is a plausible trace of its handler. ReadModel:
    what a success says, per route, and that the reading endpoints report the committed rows.
  \<^item> Contracts, Canned, Outcomes, Responses, MatchingProps, SearchProps: a calculus of contracts of
    programs and what it gives for the handlers on every path, errors included. The locale \<open>dependency\<close> is
    what a callee owes the handlers for their contracts to hold; the platform (Replies) and the canned
    dependency of the witnesses (Canned) interpret it.
  \<^item> Undisturbed, Dispatch, LoneRequests: what a request does when it is served alone and no dependency fails. Undisturbed is
    a calculus of such runs: \<open>served\<close> says how a program ends, over all choices of the platform (row order,
    identifiers, tokens), in terms of the committed data (\<open>facts\<close>); it has a rule for each statement that the
    ride handlers make. Dispatch applies it to the matcher, to creation, retry, cancellation and completion,
    and shows that a run exists (from the progress argument). LoneRequests states it of the running service.
  \<^item> SimGeo, Simulation, Reporting, SimRunner, Orchestration, SimServer: app/simulation: point generation and
    movement (State_Monad over the stream of random draws), configuration, command line and client, the
    report, the runner's shared state as abstract steps and its request loop as a function, the whole run
    with its threads, which refines those steps, and the client facing the server.
  \<^item> LoadTest: load_tests/locustfile.py, its reset and seeding run against the service.
  \<^item> Migrations: src/migrations: versions as DDL on schemas, the chain of revisions and the transactional
    upgrade, against the schema of the models.

  \<^bold>\<open>What is proved.\<close>
  \<^item> C1 to C6, of every reachable state of the service, under any interleaving, dead requests, failing or
    ambiguous commits, Redis outages and lost locks: no double booking, a driver is BUSY exactly when it
    serves, one ride per idempotency key, the life cycle, monotone history, what a status says of the row.
    None of them needs the Redis lock to work: the conditional UPDATE and the two unique indexes carry them.
  \<^item> C7 to C10, of the same states: requests never deadlock and can all be served to their end; a ride shown
    in a response is committed and stays; a request that has ended was answered, as its contract says; the
    reading endpoints report what is committed.
  \<^item> C11 to C13, of requests served alone from any reachable state at rest: total correctness of the three ride
    handlers. The handler can be run to its end and every run ends right: the ride is created, priced and
    matched to a nearest driver of the search, or waits when there is none; a retry never creates a second
    ride; ending a ride frees its driver; each with exactly the rows that change.
  \<^item> C14 to C17, C22, C23: the matcher and the ride service on every path: lock discipline, order of the
    attempts, the outcomes of creation and of the two endings, and where the code deviates from its own
    comments. C18 to C20: responses, their models, and the recorded metrics.
  \<^item> C21, C27: search and distance against reference definitions, with the ranking in Geo. C24: the lock. C25,
    C26: the event bus. C28: surge. C29 to C31: the trackers.
  \<^item> C32 to C35, C38, C39: the simulation. C36, C40: the migrations. C37: the load test.

  \<^bold>\<open>Recursion and bounds.\<close>
  The loops over candidates and rings recurse over their lists; the request loop of the simulation is a
  function whose termination is proved (the remaining riders decrease). The chain of revisions is followed
  for as many steps as there are scripts, which no chain can exceed. Counters are Python integers, so no
  word arithmetic occurs. A call that waits for a row lock is a call that does not step: safety is proved
  of all runs, and progress (C7) as the absence of deadlock: that every request is served under any
  scheduling would need fairness of the database's lock queues. A request that is alone needs none: C11 to C13
  are total.

  \<^bold>\<open>Not modelled.\<close>
  The rounding of floats; the rendering of JSON and of validation messages (the text is a parameter);
  logging; connection pools, and how pydantic reads the settings from the environment; the SQL text of
  migrations; the construction of the application object; when Locust runs its tasks; the dashboard's
  JavaScript, the tests and the container files. Foreign keys of rides are checked when written (rows are
  only deleted by the load test's reset).
\<close>

end
